(* ===== verification/Prelude.thy ===== *)
theory Prelude
  imports Main "HOL-Library.AList" "HOL-Library.Word"
begin

text \<open>
  Shared vocabulary of the development: Go's maps, slices, 64-bit durations and instants, the
  loops over slices that several components write the same way, and the generic lemmas about
  them.  Nothing here is specific to one component.
\<close>

named_theorems table_simps \<open>reading a table of named entries after it was built or changed\<close>
named_theorems frame_simps \<open>fields an operation leaves alone\<close>
named_theorems log_simps \<open>what an operation appends to the log of outgoing requests\<close>

section \<open>Go maps\<close>

text \<open>
  A Go map is an association list read by \<^const>\<open>map_of\<close> and written by \<^const>\<open>AList.update\<close>:
  executable, finite by construction, and comparable.  Reading a missing key yields the zero
  value of the element type, which is the first argument of \<open>mget\<close>.
\<close>

type_synonym ('k, 'v) gomap = "('k \<times> 'v) list"

definition mget :: "'v \<Rightarrow> ('k, 'v) gomap \<Rightarrow> 'k \<Rightarrow> 'v" where
  "mget zero m k = (case map_of m k of None \<Rightarrow> zero | Some v \<Rightarrow> v)"

lemma map_of_AList_update [simp]:
  "map_of (AList.update k v m) k' = (if k' = k then Some v else map_of m k')"
  by (simp add: update_conv')

lemma mget_update [simp]: "mget z (AList.update k v m) k' = (if k' = k then v else mget z m k')"
  by (simp add: mget_def)

lemma mget_Nil [simp]: "mget z [] k = z"
  by (simp add: mget_def)

text \<open>The loop \<open>for _, x := range xs { m[key(x)] = x }\<close>.\<close>

definition index_by :: "('a \<Rightarrow> 'k) \<Rightarrow> 'a list \<Rightarrow> ('k, 'a) gomap" where
  "index_by key xs = foldl (\<lambda>m x. AList.update (key x) x m) [] xs"

lemma map_of_foldl_update:
  "map_of (foldl (\<lambda>m x. AList.update (key x) x m) m0 xs) k =
     (case find (\<lambda>x. key x = k) (rev xs) of None \<Rightarrow> map_of m0 k | Some x \<Rightarrow> Some x)"
  by (induction xs rule: rev_induct) auto

text \<open>The last entry with a name wins.\<close>

lemma map_of_index_by: "map_of (index_by key xs) k = find (\<lambda>x. key x = k) (rev xs)"
  by (simp add: index_by_def map_of_foldl_update split: option.split)

section \<open>Searching a slice\<close>

lemma find_SomeD: "find P xs = Some x \<Longrightarrow> x \<in> set xs \<and> P x"
  by (auto simp: find_Some_iff)

lemma find_None_iff_key: "find (\<lambda>x. key x = k) xs = None \<longleftrightarrow> k \<notin> key ` set xs"
  by (auto simp: find_None_iff)

lemma find_key_distinct:
  "distinct (map key xs) \<Longrightarrow> x \<in> set xs \<Longrightarrow> find (\<lambda>y. key y = key x) xs = Some x"
  by (induction xs) auto

lemma find_rev_distinct:
  assumes "distinct (map key xs)"
  shows "find (\<lambda>x. key x = k) (rev xs) = find (\<lambda>x. key x = k) xs"
proof (cases "k \<in> key ` set xs")
  case True
  then obtain x where x: "x \<in> set xs" and k: "k = key x" by blast
  from assms have "distinct (map key (rev xs))" by (simp add: rev_map [symmetric])
  with x have "find (\<lambda>y. key y = key x) (rev xs) = Some x"
    by (intro find_key_distinct) auto
  moreover from assms x have "find (\<lambda>y. key y = key x) xs = Some x"
    by (rule find_key_distinct)
  ultimately show ?thesis by (simp add: k)
next
  case False
  then have "find (\<lambda>x. key x = k) xs = None" "find (\<lambda>x. key x = k) (rev xs) = None"
    by (auto simp: find_None_iff)
  then show ?thesis by simp
qed

lemma map_of_index_by_distinct:
  "distinct (map key xs) \<Longrightarrow> map_of (index_by key xs) k = find (\<lambda>x. key x = k) xs"
  by (simp add: map_of_index_by find_rev_distinct)

lemma find_append:
  "find P (xs @ ys) = (case find P xs of None \<Rightarrow> find P ys | Some x \<Rightarrow> Some x)"
  by (induction xs) auto

section \<open>Updating the first match in a slice\<close>

text \<open>The loop \<open>for i, x := range xs { if P(x) { xs[i] = f(x); break } }\<close>.\<close>

fun update_first :: "('a \<Rightarrow> bool) \<Rightarrow> ('a \<Rightarrow> 'a) \<Rightarrow> 'a list \<Rightarrow> 'a list" where
  "update_first P f [] = []"
| "update_first P f (x # xs) = (if P x then f x # xs else x # update_first P f xs)"

lemma length_update_first [simp]: "length (update_first P f xs) = length xs"
  by (induction xs) auto

lemma map_update_first:
  "(\<And>x. P x \<Longrightarrow> g (f x) = g x) \<Longrightarrow> map g (update_first P f xs) = map g xs"
  by (induction xs) auto

lemma update_first_none: "find P xs = None \<Longrightarrow> update_first P f xs = xs"
  by (induction xs) (auto split: if_splits)

lemma find_update_first_other:
  "(\<And>x. P x \<Longrightarrow> \<not> Q x \<and> \<not> Q (f x)) \<Longrightarrow> find Q (update_first P f xs) = find Q xs"
  by (induction xs) auto

lemma find_update_first_key:
  assumes "\<And>x. key (f x) = key x"
  shows "find (\<lambda>x. key x = k) (update_first (\<lambda>x. key x = k) f xs) =
         map_option f (find (\<lambda>x. key x = k) xs)"
  by (induction xs) (auto simp: assms)

lemma find_update_first_key_neq:
  assumes "\<And>x. key (f x) = key x" "k \<noteq> k'"
  shows "find (\<lambda>x. key x = k') (update_first (\<lambda>x. key x = k \<and> C x) f xs) =
         find (\<lambda>x. key x = k') xs"
  by (induction xs) (auto simp: assms)

section \<open>Go slices\<close>

text \<open>
  Where the code tells a nil slice from an empty one (\<open>step.Command != nil\<close>), a slice is an
  optional list: \<^const>\<open>None\<close> is nil.  Appending nothing to nil leaves nil.
\<close>

type_synonym 'a slice = "'a list option"

definition elems :: "'a slice \<Rightarrow> 'a list" where
  "elems s = (case s of None \<Rightarrow> [] | Some xs \<Rightarrow> xs)"

definition sappend :: "'a slice \<Rightarrow> 'a list \<Rightarrow> 'a slice" where
  "sappend s xs =
     (case s of None \<Rightarrow> (if xs = [] then None else Some xs) | Some ys \<Rightarrow> Some (ys @ xs))"

lemma elems_simps [simp]: "elems None = []" "elems (Some xs) = xs"
  by (simp_all add: elems_def)

lemma elems_sappend [simp]: "elems (sappend s xs) = elems s @ xs"
  by (auto simp: elems_def sappend_def split: option.split)

section \<open>Durations and instants\<close>

text \<open>
  \<open>time.Duration\<close> is an int64 count of nanoseconds: a 64-bit word read as two's complement, so
  that arithmetic on it wraps around as Go's does.  An instant is a count of nanoseconds since
  the epoch; \<open>t.Sub(u)\<close> saturates at the ends of the Duration range.
\<close>

type_synonym duration = "64 word"
type_synonym time = int

definition max_int64 :: int where
  "max_int64 = 9223372036854775807"

definition min_int64 :: int where
  "min_int64 = - 9223372036854775808"

definition time_Sub :: "time \<Rightarrow> time \<Rightarrow> duration" where
  "time_Sub t u = word_of_int (max min_int64 (min max_int64 (t - u)))"

definition seconds :: "int \<Rightarrow> duration" where
  "seconds n = word_of_int (n * 1000000000)"

lemma sint_word_of_int_small:
  "min_int64 \<le> k \<Longrightarrow> k \<le> max_int64 \<Longrightarrow> sint (word_of_int k :: 64 word) = k"
  by (simp add: sint_sbintrunc' signed_take_bit_int_eq_self min_int64_def max_int64_def)

lemma sint_time_Sub: "sint (time_Sub t u) = max min_int64 (min max_int64 (t - u))"
  unfolding time_Sub_def
  by (rule sint_word_of_int_small) (auto simp: min_int64_def max_int64_def)

lemma sint_duration_bounds: "min_int64 \<le> sint (d :: duration)" "sint (d :: duration) \<le> max_int64"
  using sint_greater_eq [of d] sint_less [of d] by (simp_all add: min_int64_def max_int64_def)

end
