(* ===== verification/Api_Types.thy ===== *)
theory Api_Types
  imports Prelude
begin

text \<open>
  The objects of the operator: the three custom resources of \<open>api/v1alpha1\<close> (Runner, Workflow,
  EventTrigger) with every field of their Go structs, and the parts of the Kubernetes objects
  the code builds or reads.  A field whose content no code of the operator inspects has the type
  \<open>opaque\<close>: its serialised form, the empty text for the zero value.  A Go string type with named
  constants is a datatype; its empty (unset) value is a constructor of its own.
\<close>

type_synonym opaque = string

section \<open>Kubernetes objects, as far as the code uses them\<close>

record ObjectMeta =
  om_Name :: string
  om_GenerateName :: string
  om_Namespace :: string
  om_Labels :: "(string, string) gomap"
  om_Annotations :: "(string, string) gomap"
  om_UID :: string
  om_Generation :: int
  om_DeletionTimestamp :: "time option"
  om_OwnerReferences :: "opaque list"

definition zero_ObjectMeta :: ObjectMeta where
  "zero_ObjectMeta = \<lparr>om_Name = [], om_GenerateName = [], om_Namespace = [], om_Labels = [],
     om_Annotations = [], om_UID = [], om_Generation = 0, om_DeletionTimestamp = None,
     om_OwnerReferences = []\<rparr>"

record NamespacedName =
  nn_Namespace :: string
  nn_Name :: string

datatype ConditionStatus = ConditionTrue | ConditionFalse | ConditionUnknown

record Condition =
  cond_Type :: string
  cond_Status :: ConditionStatus
  cond_ObservedGeneration :: int
  cond_LastTransitionTime :: time
  cond_Reason :: string
  cond_Message :: string

record EnvVar =
  ev_Name :: string
  ev_Value :: string
  ev_ValueFrom :: opaque

datatype VolumeSource =
    EmptyDir opaque
  | EmptyDirMemory
  | PersistentVolumeClaim opaque
  | SecretVolume string int
  | OtherVolumeSource opaque

record Volume =
  vol_Name :: string
  vol_Source :: VolumeSource

record VolumeMount =
  vm_Name :: string
  vm_MountPath :: string
  vm_ReadOnly :: bool
  vm_Other :: opaque

record SecurityContext =
  sc_RunAsUser :: "int option"
  sc_RunAsNonRoot :: "bool option"
  sc_AllowPrivilegeEscalation :: "bool option"
  sc_ReadOnlyRootFilesystem :: "bool option"
  sc_CapabilitiesDrop :: "string list option"
  sc_SeccompProfile :: "string option"
  sc_Other :: opaque

record PodSecurityContext =
  psc_RunAsNonRoot :: bool
  psc_RunAsUser :: int
  psc_SeccompProfile :: string

record Container =
  c_Name :: string
  c_Image :: string
  c_Command :: "string slice"
  c_Args :: "string slice"
  c_Env :: "EnvVar slice"
  c_EnvFrom :: "opaque slice"
  c_Resources :: opaque
  c_VolumeMounts :: "VolumeMount slice"
  c_WorkingDir :: string
  c_SecurityContext :: "SecurityContext option"

record PodSpec =
  pod_RestartPolicy :: string
  pod_InitContainers :: "Container list"
  pod_Containers :: "Container list"
  pod_Volumes :: "Volume slice"
  pod_SecurityContext :: PodSecurityContext
  pod_ServiceAccountName :: string

datatype JobConditionType = JobComplete | JobFailed | OtherJobCondition string

record JobCondition =
  jc_Type :: JobConditionType
  jc_Status :: ConditionStatus

text \<open>\<open>batchv1.Job\<close>: metadata, the fields of its spec the operator sets, and its status.\<close>

record BatchJob =
  bj_Meta :: ObjectMeta
  bj_BackoffLimit :: int
  bj_ActiveDeadlineSeconds :: "int option"
  bj_TemplateLabels :: "(string, string) gomap"
  bj_PodSpec :: PodSpec
  bj_StartTime :: "time option"
  bj_CompletionTime :: "time option"
  bj_Conditions :: "JobCondition list"

record Secret =
  sec_Name :: string
  sec_Namespace :: string
  sec_Data :: "(string, string) gomap"
  sec_StringData :: "(string, string) gomap"

section \<open>api/v1alpha1/runner\_types.go\<close>

datatype RunnerPhase =
    RunnerPhaseUnset
  | RunnerPhasePending
  | RunnerPhaseRunning
  | RunnerPhaseSucceeded
  | RunnerPhaseFailed
  | RunnerPhaseUnknown

datatype GitAuthType =
    GitAuthTypeUnset
  | GitAuthTypeSSH
  | GitAuthTypeBasicAuth
  | GitAuthTypeToken
  | GitAuthTypeOther string

record GitAuth =
  ga_Type :: GitAuthType
  ga_SecretRefName :: string

record GitRepo =
  gr_URL :: string
  gr_Revision :: string
  gr_Path :: string
  gr_Auth :: "GitAuth option"
  gr_Image :: string

record RunnerSpec =
  rs_Image :: string
  rs_Env :: "EnvVar slice"
  rs_EnvFrom :: "opaque slice"
  rs_Volumes :: "Volume slice"
  rs_Mounts :: "VolumeMount slice"
  rs_Args :: "string slice"
  rs_Command :: "string slice"
  rs_TimeoutAfter :: "duration option"
  rs_Resources :: opaque
  rs_SecurityContext :: "SecurityContext option"
  rs_ServiceAccountName :: string
  rs_GitRepo :: "GitRepo option"

definition zero_RunnerSpec :: RunnerSpec where
  "zero_RunnerSpec = \<lparr>rs_Image = [], rs_Env = None, rs_EnvFrom = None, rs_Volumes = None,
     rs_Mounts = None, rs_Args = None, rs_Command = None, rs_TimeoutAfter = None,
     rs_Resources = [], rs_SecurityContext = None, rs_ServiceAccountName = [], rs_GitRepo = None\<rparr>"

record RunnerStatus =
  rst_Conditions :: "Condition list"
  rst_Phase :: RunnerPhase
  rst_ObservedGeneration :: int
  rst_ResourceHash :: string
  rst_DesiredSpecHash :: string
  rst_StartTime :: "time option"
  rst_CompletionTime :: "time option"

definition zero_RunnerStatus :: RunnerStatus where
  "zero_RunnerStatus = \<lparr>rst_Conditions = [], rst_Phase = RunnerPhaseUnset,
     rst_ObservedGeneration = 0, rst_ResourceHash = [], rst_DesiredSpecHash = [],
     rst_StartTime = None, rst_CompletionTime = None\<rparr>"

record Runner =
  rn_Meta :: ObjectMeta
  rn_Spec :: RunnerSpec
  rn_Status :: RunnerStatus

section \<open>api/v1alpha1/workflow\_types.go\<close>

datatype WorkflowPhase =
    WorkflowPhaseUnset
  | WorkflowPhasePending
  | WorkflowPhaseRunning
  | WorkflowPhaseSucceeded
  | WorkflowPhaseFailed
  | WorkflowPhaseUnknown

datatype StepPhase =
    StepPhaseUnset
  | StepPhasePending
  | StepPhaseRunning
  | StepPhaseSucceeded
  | StepPhaseFailed
  | StepPhaseSkipped
  | StepPhaseWaiting

datatype JobPhase =
    JobPhaseUnset
  | JobPhasePending
  | JobPhaseRunning
  | JobPhaseSucceeded
  | JobPhaseFailed
  | JobPhaseSkipped
  | JobPhaseWaiting

record BackoffConfig =
  bc_InitialDelay :: duration
  bc_MaxDelay :: "duration option"

record RetryPolicy =
  rp_MaxRetries :: int
  rp_Backoff :: "BackoffConfig option"

record RunnerRef =
  rr_Name :: string
  rr_Namespace :: string

record WorkflowStep =
  st_Name :: string
  st_RunnerRef :: "RunnerRef option"
  st_Image :: string
  st_Command :: "string slice"
  st_Args :: "string slice"
  st_Env :: "EnvVar slice"
  st_Retry :: "RetryPolicy option"
  st_DependsOn :: "string list"
  st_When :: string
  st_Timeout :: "duration option"
  st_GitRepo :: "GitRepo option"
  st_ServiceAccountName :: string
  st_Volumes :: "Volume slice"
  st_Mounts :: "VolumeMount slice"

definition zero_WorkflowStep :: WorkflowStep where
  "zero_WorkflowStep = \<lparr>st_Name = [], st_RunnerRef = None, st_Image = [], st_Command = None,
     st_Args = None, st_Env = None, st_Retry = None, st_DependsOn = [], st_When = [],
     st_Timeout = None, st_GitRepo = None, st_ServiceAccountName = [], st_Volumes = None,
     st_Mounts = None\<rparr>"

record SharedVolume =
  sv_MountPath :: string
  sv_EmptyDir :: "opaque option"
  sv_PersistentVolumeClaim :: "opaque option"

record JobSpec =
  js_Name :: string
  js_Needs :: "string list"
  js_When :: string
  js_Env :: "EnvVar slice"
  js_GitRepo :: "GitRepo option"
  js_SharedVolume :: "SharedVolume option"
  js_ServiceAccountName :: string
  js_Volumes :: "Volume slice"
  js_Mounts :: "VolumeMount slice"
  js_Steps :: "WorkflowStep list"

record WorkflowSpec =
  wsp_Jobs :: "JobSpec list"
  wsp_Steps :: "WorkflowStep list"
  wsp_Timeout :: "duration option"

record JobStatus =
  jst_Name :: string
  jst_Phase :: JobPhase
  jst_StartedAt :: "time option"
  jst_CompletedAt :: "time option"

record StepStatus =
  ss_Name :: string
  ss_Phase :: StepPhase
  ss_RetryCount :: int
  ss_StartedAt :: "time option"
  ss_CompletedAt :: "time option"
  ss_Message :: string

definition zero_JobStatus :: JobStatus where
  "zero_JobStatus = \<lparr>jst_Name = [], jst_Phase = JobPhaseUnset, jst_StartedAt = None,
     jst_CompletedAt = None\<rparr>"

definition zero_StepStatus :: StepStatus where
  "zero_StepStatus = \<lparr>ss_Name = [], ss_Phase = StepPhaseUnset, ss_RetryCount = 0,
     ss_StartedAt = None, ss_CompletedAt = None, ss_Message = []\<rparr>"

record WorkflowStatus =
  wst_Conditions :: "Condition list"
  wst_Phase :: WorkflowPhase
  wst_JobStatuses :: "JobStatus list"
  wst_StepStatuses :: "StepStatus list"
  wst_StartTime :: "time option"
  wst_CompletionTime :: "time option"
  wst_ObservedGeneration :: int

definition zero_WorkflowStatus :: WorkflowStatus where
  "zero_WorkflowStatus = \<lparr>wst_Conditions = [], wst_Phase = WorkflowPhaseUnset,
     wst_JobStatuses = [], wst_StepStatuses = [], wst_StartTime = None,
     wst_CompletionTime = None, wst_ObservedGeneration = 0\<rparr>"

record Workflow =
  wf_Meta :: ObjectMeta
  wf_Spec :: WorkflowSpec
  wf_Status :: WorkflowStatus

text \<open>Assignments to a field of the status of a Workflow, of its spec, or of the status of a Runner.\<close>

abbreviation wf_setStatus :: "(WorkflowStatus \<Rightarrow> WorkflowStatus) \<Rightarrow> Workflow \<Rightarrow> Workflow" where
  "wf_setStatus f W \<equiv> W\<lparr>wf_Status := f (wf_Status W)\<rparr>"

abbreviation rn_setStatus :: "(RunnerStatus \<Rightarrow> RunnerStatus) \<Rightarrow> Runner \<Rightarrow> Runner" where
  "rn_setStatus f r \<equiv> r\<lparr>rn_Status := f (rn_Status r)\<rparr>"

abbreviation wf_StepStatuses :: "Workflow \<Rightarrow> StepStatus list" where
  "wf_StepStatuses W \<equiv> wst_StepStatuses (wf_Status W)"

abbreviation wf_JobStatuses :: "Workflow \<Rightarrow> JobStatus list" where
  "wf_JobStatuses W \<equiv> wst_JobStatuses (wf_Status W)"

abbreviation wf_Phase :: "Workflow \<Rightarrow> WorkflowPhase" where
  "wf_Phase W \<equiv> wst_Phase (wf_Status W)"

abbreviation wf_Name :: "Workflow \<Rightarrow> string" where
  "wf_Name W \<equiv> om_Name (wf_Meta W)"

abbreviation wf_Namespace :: "Workflow \<Rightarrow> string" where
  "wf_Namespace W \<equiv> om_Namespace (wf_Meta W)"

abbreviation rn_Name :: "Runner \<Rightarrow> string" where
  "rn_Name r \<equiv> om_Name (rn_Meta r)"

abbreviation rn_Namespace :: "Runner \<Rightarrow> string" where
  "rn_Namespace r \<equiv> om_Namespace (rn_Meta r)"

abbreviation rn_Phase :: "Runner \<Rightarrow> RunnerPhase" where
  "rn_Phase r \<equiv> rst_Phase (rn_Status r)"

section \<open>api/v1alpha1/eventtrigger\_types.go\<close>

record SecretReference =
  sr_Name :: string
  sr_Namespace :: string

record WebhookConfig =
  wh_Path :: string
  wh_SecretRef :: "SecretReference option"
  wh_AllowedIPs :: "string list"

record ParameterMapping =
  pm_Name :: string
  pm_Source :: string
  pm_Sanitize :: bool
  pm_Default :: string
  pm_Required :: bool

record RateLimitConfig =
  rl_MaxPerMinute :: int
  rl_MaxConcurrent :: int

record WorkflowTemplateRef =
  wtr_Name :: string
  wtr_Namespace :: string

record EventTriggerSpec =
  ets_Webhook :: "WebhookConfig option"
  ets_WorkflowTemplate :: WorkflowTemplateRef
  ets_Parameters :: "ParameterMapping list"
  ets_RateLimit :: "RateLimitConfig option"
  ets_AllowedNamespaces :: "string list"

record EventTriggerStatus =
  etst_Conditions :: "Condition list"
  etst_LastTriggerTime :: "time option"
  etst_WorkflowCount :: int
  etst_LastError :: string
  etst_Registered :: bool

record EventTrigger =
  et_Meta :: ObjectMeta
  et_Spec :: EventTriggerSpec
  et_Status :: EventTriggerStatus

abbreviation et_setStatus :: "(EventTriggerStatus \<Rightarrow> EventTriggerStatus) \<Rightarrow> EventTrigger \<Rightarrow> EventTrigger" where
  "et_setStatus f t \<equiv> t\<lparr>et_Status := f (et_Status t)\<rparr>"

text \<open>The text of a phase, as it appears in events and metric labels.\<close>

fun RunnerPhase_text :: "RunnerPhase \<Rightarrow> string" where
  "RunnerPhase_text RunnerPhaseUnset = []"
| "RunnerPhase_text RunnerPhasePending = ''Pending''"
| "RunnerPhase_text RunnerPhaseRunning = ''Running''"
| "RunnerPhase_text RunnerPhaseSucceeded = ''Succeeded''"
| "RunnerPhase_text RunnerPhaseFailed = ''Failed''"
| "RunnerPhase_text RunnerPhaseUnknown = ''Unknown''"

fun WorkflowPhase_text :: "WorkflowPhase \<Rightarrow> string" where
  "WorkflowPhase_text WorkflowPhaseUnset = []"
| "WorkflowPhase_text WorkflowPhasePending = ''Pending''"
| "WorkflowPhase_text WorkflowPhaseRunning = ''Running''"
| "WorkflowPhase_text WorkflowPhaseSucceeded = ''Succeeded''"
| "WorkflowPhase_text WorkflowPhaseFailed = ''Failed''"
| "WorkflowPhase_text WorkflowPhaseUnknown = ''Unknown''"

end
