(* ===== verification/Cluster.thy ===== *)
theory Cluster
  imports Api_Types
begin

text \<open>
  The environment the controllers talk to.  The Kubernetes client, the apimachinery helpers, the
  JSON encoder of the API types and the clock are not part of the repository: they are the
  fields of a record \<open>env\<close> that every operation using them takes as an argument, so a theorem
  that fixes no field holds for every behaviour of them.  What a controller does is the log of
  the requests it sends, in order; each answer may depend on everything that happened before.
\<close>

section \<open>Errors and results\<close>

text \<open>
  An error carries its text.  The two classes the code asks for (\<open>apierrors.IsNotFound\<close>,
  \<open>apierrors.IsAlreadyExists\<close>) are constructors.
\<close>

datatype apierr = NotFound string | AlreadyExists string | OtherErr string

fun err_text :: "apierr \<Rightarrow> string" where
  "err_text (NotFound s) = s"
| "err_text (AlreadyExists s) = s"
| "err_text (OtherErr s) = s"

text \<open>
  The pair \<open>(ctrl.Result, error)\<close>: an empty result, a result with \<open>RequeueAfter\<close>, or an error.
\<close>

datatype Result = Done | RequeueAfter duration | Error apierr

text \<open>\<open>client.IgnoreNotFound\<close> on the error of a failed Get.\<close>

fun IgnoreNotFound :: "apierr \<Rightarrow> Result" where
  "IgnoreNotFound (NotFound s) = Done"
| "IgnoreNotFound e = Error e"

section \<open>Requests\<close>

datatype kobj = ORunner Runner | OWorkflow Workflow | OTrigger EventTrigger | OJob BatchJob

text \<open>
  \<open>PatchStatus base obj\<close> is \<open>r.Status().Patch(ctx, obj, client.MergeFrom(base))\<close>: the request
  carries the difference between the two objects.
\<close>

datatype effect =
    Event string string string
  | Create kobj
  | Delete kobj
  | PatchStatus kobj kobj
  | CounterInc string "string list"
  | GaugeInc string "string list"
  | GaugeDec string "string list"
  | Observe string "string list" duration

record world =
  w_log :: "effect list"
  w_reads :: nat

record env =
  e_clock :: "nat \<Rightarrow> time"
  e_SetStatusCondition :: "Condition list \<Rightarrow> Condition \<Rightarrow> Condition list"
  e_SetControllerReference :: "ObjectMeta \<Rightarrow> ObjectMeta \<Rightarrow> apierr + ObjectMeta"
  e_MarshalSpec :: "RunnerSpec \<Rightarrow> apierr + string"
  e_GetRunner :: "world \<Rightarrow> NamespacedName \<Rightarrow> apierr + Runner"
  e_GetJob :: "world \<Rightarrow> NamespacedName \<Rightarrow> apierr + BatchJob"
  e_GetSecret :: "world \<Rightarrow> NamespacedName \<Rightarrow> apierr + Secret"
  e_GetWorkflow :: "world \<Rightarrow> NamespacedName \<Rightarrow> apierr + Workflow"
  e_GetNamespaceAnnotations :: "world \<Rightarrow> string \<Rightarrow> apierr + (string, string) gomap"
  e_GetTrigger :: "world \<Rightarrow> NamespacedName \<Rightarrow> apierr + EventTrigger"
  e_ListRunners :: "world \<Rightarrow> string \<Rightarrow> (string, string) gomap \<Rightarrow> apierr + Runner list"
  e_ListWorkflows :: "world \<Rightarrow> string \<Rightarrow> apierr + Workflow list"
  e_ListPods :: "world \<Rightarrow> string \<Rightarrow> (string, string) gomap \<Rightarrow> apierr + string list"
  e_ListTriggers :: "world \<Rightarrow> apierr + EventTrigger list"
  e_PodLogs :: "world \<Rightarrow> string \<Rightarrow> string \<Rightarrow> string \<Rightarrow> int \<Rightarrow> apierr + string"
  e_Create :: "world \<Rightarrow> kobj \<Rightarrow> apierr option"
  e_Delete :: "world \<Rightarrow> kobj \<Rightarrow> apierr option"
  e_PatchRunner :: "world \<Rightarrow> Runner \<Rightarrow> Runner \<Rightarrow> apierr + Runner"
  e_PatchWorkflow :: "world \<Rightarrow> Workflow \<Rightarrow> Workflow \<Rightarrow> apierr + Workflow"
  e_PatchTrigger :: "world \<Rightarrow> EventTrigger \<Rightarrow> EventTrigger \<Rightarrow> apierr + EventTrigger"

definition emit :: "effect \<Rightarrow> world \<Rightarrow> world" where
  "emit x w = w\<lparr>w_log := w_log w @ [x]\<rparr>"

text \<open>\<open>metav1.Now()\<close> and \<open>time.Now()\<close>: the next reading of the clock.\<close>

definition Now :: "env \<Rightarrow> world \<Rightarrow> time \<times> world" where
  "Now e w = (e_clock e (w_reads w), w\<lparr>w_reads := Suc (w_reads w)\<rparr>)"

definition do_Create :: "env \<Rightarrow> kobj \<Rightarrow> world \<Rightarrow> apierr option \<times> world" where
  "do_Create e x w = (e_Create e w x, emit (Create x) w)"

definition do_Delete :: "env \<Rightarrow> kobj \<Rightarrow> world \<Rightarrow> apierr option \<times> world" where
  "do_Delete e x w = (e_Delete e w x, emit (Delete x) w)"

text \<open>A successful status patch replaces the object in memory by the server's answer.\<close>

definition do_PatchRunner :: "env \<Rightarrow> Runner \<Rightarrow> Runner \<Rightarrow> world \<Rightarrow> (apierr + Runner) \<times> world" where
  "do_PatchRunner e base r w = (e_PatchRunner e w base r, emit (PatchStatus (ORunner base) (ORunner r)) w)"

definition do_PatchWorkflow :: "env \<Rightarrow> Workflow \<Rightarrow> Workflow \<Rightarrow> world \<Rightarrow> (apierr + Workflow) \<times> world" where
  "do_PatchWorkflow e base W w =
     (e_PatchWorkflow e w base W, emit (PatchStatus (OWorkflow base) (OWorkflow W)) w)"

definition do_PatchTrigger :: "env \<Rightarrow> EventTrigger \<Rightarrow> EventTrigger \<Rightarrow> world \<Rightarrow> (apierr + EventTrigger) \<times> world" where
  "do_PatchTrigger e base t w =
     (e_PatchTrigger e w base t, emit (PatchStatus (OTrigger base) (OTrigger t)) w)"

text \<open>
  The documented contract of \<open>controllerutil.SetControllerReference\<close>: it changes nothing of the
  controlled object but its owner references.
\<close>

definition sets_owner :: "(ObjectMeta \<Rightarrow> ObjectMeta \<Rightarrow> apierr + ObjectMeta) \<Rightarrow> bool" where
  "sets_owner scr \<longleftrightarrow>
     (\<forall>owner m m'. scr owner m = Inr m' \<longrightarrow> m' = m\<lparr>om_OwnerReferences := om_OwnerReferences m'\<rparr>)"

text \<open>
  It refuses an object that another controller owns and an owner in another namespace, and accepts
  an object of the owner's namespace that has no owner yet.
\<close>

definition can_own :: "(ObjectMeta \<Rightarrow> ObjectMeta \<Rightarrow> apierr + ObjectMeta) \<Rightarrow> bool" where
  "can_own scr \<longleftrightarrow>
     (\<forall>owner m. om_OwnerReferences m = [] \<and> om_Namespace m = om_Namespace owner \<longrightarrow> (\<exists>m'. scr owner m = Inr m'))"

lemma can_ownD:
  assumes "can_own scr" "om_OwnerReferences m = []" "om_Namespace m = om_Namespace owner"
  obtains m' where "scr owner m = Inr m'"
  using assms unfolding can_own_def by blast

lemma sets_ownerD:
  assumes "sets_owner scr" "scr owner m = Inr m'"
  shows "om_Name m' = om_Name m" "om_Namespace m' = om_Namespace m" "om_Labels m' = om_Labels m"
    "om_Annotations m' = om_Annotations m"
proof -
  from assms have "m' = m\<lparr>om_OwnerReferences := om_OwnerReferences m'\<rparr>" unfolding sets_owner_def by blast
  from arg_cong [OF this, of om_Name] arg_cong [OF this, of om_Namespace]
    arg_cong [OF this, of om_Labels] arg_cong [OF this, of om_Annotations]
  show "om_Name m' = om_Name m" "om_Namespace m' = om_Namespace m" "om_Labels m' = om_Labels m"
    "om_Annotations m' = om_Annotations m" by simp_all
qed

lemma log_emit [simp, log_simps]: "w_log (emit x w) = w_log w @ [x]"
  by (simp add: emit_def)

lemma reads_emit [simp]: "w_reads (emit x w) = w_reads w"
  by (simp add: emit_def)

lemma log_Now [simp, log_simps]: "w_log (snd (Now e w)) = w_log w"
  by (simp add: Now_def)

lemma fst_Now [simp]: "fst (Now e w) = e_clock e (w_reads w)"
  by (simp add: Now_def)

lemmas do_request_defs =
  do_Create_def do_Delete_def do_PatchRunner_def do_PatchWorkflow_def do_PatchTrigger_def

section \<open>Classifying requests\<close>

text \<open>The Runners (Jobs, Workflows) a log asks the server to create, in order.\<close>

definition created_runners :: "effect list \<Rightarrow> Runner list" where
  "created_runners l = concat (map (\<lambda>x. case x of Create (ORunner r) \<Rightarrow> [r] | _ \<Rightarrow> []) l)"

definition created_jobs :: "effect list \<Rightarrow> BatchJob list" where
  "created_jobs l = concat (map (\<lambda>x. case x of Create (OJob j) \<Rightarrow> [j] | _ \<Rightarrow> []) l)"

definition created_workflows :: "effect list \<Rightarrow> Workflow list" where
  "created_workflows l = concat (map (\<lambda>x. case x of Create (OWorkflow W) \<Rightarrow> [W] | _ \<Rightarrow> []) l)"

definition deleted :: "effect list \<Rightarrow> kobj list" where
  "deleted l = concat (map (\<lambda>x. case x of Delete k \<Rightarrow> [k] | _ \<Rightarrow> []) l)"

lemma classify_append [simp]:
  "created_runners (a @ b) = created_runners a @ created_runners b"
  "created_jobs (a @ b) = created_jobs a @ created_jobs b"
  "created_workflows (a @ b) = created_workflows a @ created_workflows b"
  "deleted (a @ b) = deleted a @ deleted b"
  by (simp_all add: created_runners_def created_jobs_def created_workflows_def deleted_def)

lemma classify_Nil [simp]:
  "created_runners [] = []" "created_jobs [] = []" "created_workflows [] = []" "deleted [] = []"
  by (simp_all add: created_runners_def created_jobs_def created_workflows_def deleted_def)

lemma classify_Cons [simp]:
  "created_runners (x # l) = (case x of Create (ORunner r) \<Rightarrow> [r] | _ \<Rightarrow> []) @ created_runners l"
  "created_jobs (x # l) = (case x of Create (OJob j) \<Rightarrow> [j] | _ \<Rightarrow> []) @ created_jobs l"
  "created_workflows (x # l) = (case x of Create (OWorkflow W) \<Rightarrow> [W] | _ \<Rightarrow> []) @ created_workflows l"
  "deleted (x # l) = (case x of Delete k \<Rightarrow> [k] | _ \<Rightarrow> []) @ deleted l"
  by (simp_all add: created_runners_def created_jobs_def created_workflows_def deleted_def)

end
