(* ===== verification/Conditions.thy ===== *)
theory Conditions
  imports Cluster
begin

text \<open>
  \<open>internal/controller/conditions.go\<close>: the builder of status conditions and the reason codes,
  and the three helpers (one per controller) that set the Ready condition of an object.  The
  merge of a condition into a list is \<open>meta.SetStatusCondition\<close> of apimachinery, a field of
  \<^typ>\<open>env\<close>; \<open>sets_condition\<close> is what its documentation promises.
\<close>

section \<open>ConditionBuilder\<close>

record ConditionBuilder =
  cb_condition :: Condition

definition NewCondition :: "time \<Rightarrow> string \<Rightarrow> ConditionBuilder" where
  "NewCondition now condType = \<lparr>cb_condition =
     \<lparr>cond_Type = condType, cond_Status = ConditionUnknown, cond_ObservedGeneration = 0,
      cond_LastTransitionTime = now, cond_Reason = [], cond_Message = []\<rparr>\<rparr>"

definition WithStatus :: "ConditionStatus \<Rightarrow> ConditionBuilder \<Rightarrow> ConditionBuilder" where
  "WithStatus s b = b\<lparr>cb_condition := (cb_condition b)\<lparr>cond_Status := s\<rparr>\<rparr>"

definition WithReason :: "string \<Rightarrow> ConditionBuilder \<Rightarrow> ConditionBuilder" where
  "WithReason r b = b\<lparr>cb_condition := (cb_condition b)\<lparr>cond_Reason := r\<rparr>\<rparr>"

definition WithMessage :: "string \<Rightarrow> ConditionBuilder \<Rightarrow> ConditionBuilder" where
  "WithMessage m b = b\<lparr>cb_condition := (cb_condition b)\<lparr>cond_Message := m\<rparr>\<rparr>"

definition WithObservedGeneration :: "int \<Rightarrow> ConditionBuilder \<Rightarrow> ConditionBuilder" where
  "WithObservedGeneration g b = b\<lparr>cb_condition := (cb_condition b)\<lparr>cond_ObservedGeneration := g\<rparr>\<rparr>"

text \<open>\<open>types.NamespacedName.String()\<close> is namespace, slash, name.\<close>

definition WithNamespacedName :: "NamespacedName \<Rightarrow> ConditionBuilder \<Rightarrow> ConditionBuilder" where
  "WithNamespacedName nn b =
     b\<lparr>cb_condition := (cb_condition b)\<lparr>cond_Message := nn_Namespace nn @ ''/'' @ nn_Name nn\<rparr>\<rparr>"

definition Build :: "ConditionBuilder \<Rightarrow> Condition" where
  "Build b = cb_condition b"

lemmas builder_defs = NewCondition_def WithStatus_def WithReason_def WithMessage_def
  WithObservedGeneration_def WithNamespacedName_def Build_def

section \<open>Reasons\<close>

definition ConditionTypeReady :: string where "ConditionTypeReady = ''Ready''"

definition ReasonRunnerRunning :: string where "ReasonRunnerRunning = ''Running''"
definition ReasonRunnerSucceeded :: string where "ReasonRunnerSucceeded = ''JobSucceeded''"
definition ReasonRunnerFailed :: string where "ReasonRunnerFailed = ''JobFailed''"
definition ReasonRunnerSpecDriftDeferred :: string where
  "ReasonRunnerSpecDriftDeferred = ''SpecDriftDeferred''"
definition ReasonRunnerSpecDriftReplaced :: string where
  "ReasonRunnerSpecDriftReplaced = ''SpecDriftReplaced''"
definition ReasonRunnerValidationFailed :: string where
  "ReasonRunnerValidationFailed = ''ValidationFailed''"

definition ReasonWorkflowRunning :: string where "ReasonWorkflowRunning = ''Running''"
definition ReasonWorkflowSucceeded :: string where "ReasonWorkflowSucceeded = ''AllStepsSucceeded''"
definition ReasonWorkflowFailed :: string where "ReasonWorkflowFailed = ''WorkflowFailed''"
definition ReasonWorkflowTimedOut :: string where "ReasonWorkflowTimedOut = ''TimedOut''"
definition ReasonWorkflowCycleDetected :: string where "ReasonWorkflowCycleDetected = ''CycleDetected''"
definition ReasonWorkflowNoSteps :: string where "ReasonWorkflowNoSteps = ''NoStepsDefined''"

definition ReasonTriggerRouteRegistered :: string where
  "ReasonTriggerRouteRegistered = ''RouteRegistered''"
definition ReasonTriggerRouteFailed :: string where
  "ReasonTriggerRouteFailed = ''RouteRegistrationFailed''"
definition ReasonTriggerNamespaceBlocked :: string where
  "ReasonTriggerNamespaceBlocked = ''NamespaceNotAllowed''"
definition ReasonTriggerPathCollision :: string where
  "ReasonTriggerPathCollision = ''PathCollision''"

definition MaxWorkflowsAnnotation :: string where
  "MaxWorkflowsAnnotation = ''runner-operator.io/max-concurrent-workflows''"

section \<open>The Ready condition\<close>

text \<open>The condition all three helpers build.\<close>

definition ready_condition :: "time \<Rightarrow> int \<Rightarrow> ConditionStatus \<Rightarrow> string \<Rightarrow> string \<Rightarrow> Condition" where
  "ready_condition now gen status reason msg =
     Build (WithObservedGeneration gen (WithMessage msg (WithReason reason
       (WithStatus status (NewCondition now ConditionTypeReady)))))"

definition setRunnerCondition ::
  "env \<Rightarrow> ConditionStatus \<Rightarrow> string \<Rightarrow> string \<Rightarrow> Runner \<Rightarrow> world \<Rightarrow> Runner \<times> world" where
  "setRunnerCondition e status reason msg r w =
     (let (now, w) = Now e w;
          c = ready_condition now (om_Generation (rn_Meta r)) status reason msg
      in (rn_setStatus (rst_Conditions_update (\<lambda>cs. e_SetStatusCondition e cs c)) r, w))"

definition setWorkflowCondition ::
  "env \<Rightarrow> ConditionStatus \<Rightarrow> string \<Rightarrow> string \<Rightarrow> Workflow \<Rightarrow> world \<Rightarrow> Workflow \<times> world" where
  "setWorkflowCondition e status reason msg W w =
     (let (now, w) = Now e w;
          c = ready_condition now (om_Generation (wf_Meta W)) status reason msg
      in (wf_setStatus (wst_Conditions_update (\<lambda>cs. e_SetStatusCondition e cs c)) W, w))"

definition setTriggerCondition ::
  "env \<Rightarrow> ConditionStatus \<Rightarrow> string \<Rightarrow> string \<Rightarrow> EventTrigger \<Rightarrow> world \<Rightarrow> EventTrigger \<times> world" where
  "setTriggerCondition e status reason msg t w =
     (let (now, w) = Now e w;
          c = ready_condition now (om_Generation (et_Meta t)) status reason msg
      in (et_setStatus (etst_Conditions_update (\<lambda>cs. e_SetStatusCondition e cs c)) t, w))"

text \<open>
  The documented contract of \<open>meta.SetStatusCondition\<close>: afterwards the list has a condition of
  the new one's type with its status, reason, message and observed generation, and the
  conditions of the other types are as before.
\<close>

definition sets_condition :: "(Condition list \<Rightarrow> Condition \<Rightarrow> Condition list) \<Rightarrow> bool" where
  "sets_condition ssc \<longleftrightarrow>
     (\<forall>cs c. (\<exists>d. find (\<lambda>x. cond_Type x = cond_Type c) (ssc cs c) = Some d
        \<and> cond_Status d = cond_Status c \<and> cond_Reason d = cond_Reason c
        \<and> cond_Message d = cond_Message c
        \<and> cond_ObservedGeneration d = cond_ObservedGeneration c)
      \<and> (\<forall>t. t \<noteq> cond_Type c \<longrightarrow>
          find (\<lambda>x. cond_Type x = t) (ssc cs c) = find (\<lambda>x. cond_Type x = t) cs))"

text \<open>The Ready condition of a list of conditions.\<close>

definition ready_of :: "Condition list \<Rightarrow> Condition option" where
  "ready_of cs = find (\<lambda>c. cond_Type c = ConditionTypeReady) cs"

section \<open>Lemmas\<close>

lemma ready_condition_eq:
  "ready_condition now gen status reason msg =
     \<lparr>cond_Type = ConditionTypeReady, cond_Status = status, cond_ObservedGeneration = gen,
      cond_LastTransitionTime = now, cond_Reason = reason, cond_Message = msg\<rparr>"
  by (simp add: ready_condition_def builder_defs)

lemma set_condition_log [simp, log_simps]:
  "w_log (snd (setRunnerCondition e s r m R w)) = w_log w"
  "w_log (snd (setWorkflowCondition e s r m W w)) = w_log w"
  "w_log (snd (setTriggerCondition e s r m T w)) = w_log w"
  by (simp_all add: setRunnerCondition_def setWorkflowCondition_def setTriggerCondition_def
      Now_def Let_def)

lemma setRunnerCondition_frame [simp, frame_simps]:
  "rn_Meta (fst (setRunnerCondition e s r m R w)) = rn_Meta R"
  "rn_Spec (fst (setRunnerCondition e s r m R w)) = rn_Spec R"
  "rst_Phase (rn_Status (fst (setRunnerCondition e s r m R w))) = rst_Phase (rn_Status R)"
  "rst_ObservedGeneration (rn_Status (fst (setRunnerCondition e s r m R w))) = rst_ObservedGeneration (rn_Status R)"
  "rst_ResourceHash (rn_Status (fst (setRunnerCondition e s r m R w))) = rst_ResourceHash (rn_Status R)"
  "rst_DesiredSpecHash (rn_Status (fst (setRunnerCondition e s r m R w))) = rst_DesiredSpecHash (rn_Status R)"
  "rst_StartTime (rn_Status (fst (setRunnerCondition e s r m R w))) = rst_StartTime (rn_Status R)"
  "rst_CompletionTime (rn_Status (fst (setRunnerCondition e s r m R w))) = rst_CompletionTime (rn_Status R)"
  by (simp_all add: setRunnerCondition_def Now_def Let_def)

lemma setWorkflowCondition_frame [simp, frame_simps]:
  "wf_Meta (fst (setWorkflowCondition e s r m W w)) = wf_Meta W"
  "wf_Spec (fst (setWorkflowCondition e s r m W w)) = wf_Spec W"
  "wf_Phase (fst (setWorkflowCondition e s r m W w)) = wf_Phase W"
  "wf_StepStatuses (fst (setWorkflowCondition e s r m W w)) = wf_StepStatuses W"
  "wf_JobStatuses (fst (setWorkflowCondition e s r m W w)) = wf_JobStatuses W"
  "wst_StartTime (wf_Status (fst (setWorkflowCondition e s r m W w))) = wst_StartTime (wf_Status W)"
  "wst_CompletionTime (wf_Status (fst (setWorkflowCondition e s r m W w))) = wst_CompletionTime (wf_Status W)"
  "wst_ObservedGeneration (wf_Status (fst (setWorkflowCondition e s r m W w))) = wst_ObservedGeneration (wf_Status W)"
  by (simp_all add: setWorkflowCondition_def Now_def Let_def)

lemma sets_condition_ready:
  assumes "sets_condition ssc"
  shows "\<exists>d. ready_of (ssc cs (ready_condition now gen status reason msg)) = Some d
           \<and> cond_Status d = status \<and> cond_Reason d = reason \<and> cond_Message d = msg
           \<and> cond_ObservedGeneration d = gen"
  using assms unfolding sets_condition_def ready_of_def
  by (auto simp: ready_condition_eq dest!: spec [of _ cs] spec [of _ "ready_condition now gen status reason msg"])

lemma setWorkflowCondition_ready:
  assumes "sets_condition (e_SetStatusCondition e)"
  shows "\<exists>d. ready_of (wst_Conditions (wf_Status (fst (setWorkflowCondition e s r m W w)))) = Some d
           \<and> cond_Status d = s \<and> cond_Reason d = r \<and> cond_Message d = m"
  using sets_condition_ready [OF assms] by (force simp: setWorkflowCondition_def Now_def Let_def)

lemma setRunnerCondition_ready:
  assumes "sets_condition (e_SetStatusCondition e)"
  shows "\<exists>d. ready_of (rst_Conditions (rn_Status (fst (setRunnerCondition e s r m R w)))) = Some d
           \<and> cond_Status d = s \<and> cond_Reason d = r \<and> cond_Message d = m"
  using sets_condition_ready [OF assms] by (force simp: setRunnerCondition_def Now_def Let_def)

lemma setTriggerCondition_ready:
  assumes "sets_condition (e_SetStatusCondition e)"
  shows "\<exists>d. ready_of (etst_Conditions (et_Status (fst (setTriggerCondition e s r m T w)))) = Some d
           \<and> cond_Status d = s \<and> cond_Reason d = r \<and> cond_Message d = m"
  using sets_condition_ready [OF assms] by (force simp: setTriggerCondition_def Now_def Let_def)

section \<open>A sample environment\<close>

text \<open>
  An environment in which every contract holds: an empty cluster that accepts every request, and
  a clock that ticks.  The examples of the development run in it or in variants of it.
\<close>

definition sample_SetStatusCondition :: "Condition list \<Rightarrow> Condition \<Rightarrow> Condition list" where
  "sample_SetStatusCondition cs c = c # filter (\<lambda>x. cond_Type x \<noteq> cond_Type c) cs"

definition sample_env :: env where
  "sample_env = \<lparr>e_clock = int,
     e_SetStatusCondition = sample_SetStatusCondition,
     e_SetControllerReference = (\<lambda>owner m. Inr (m\<lparr>om_OwnerReferences := [om_UID owner]\<rparr>)),
     e_MarshalSpec = (\<lambda>spec. Inr (rs_Image spec)),
     e_GetRunner = (\<lambda>w nn. Inl (NotFound ''runner'')), e_GetJob = (\<lambda>w nn. Inl (NotFound ''job'')),
     e_GetSecret = (\<lambda>w nn. Inl (NotFound ''secret'')), e_GetWorkflow = (\<lambda>w nn. Inl (NotFound ''workflow'')),
     e_GetNamespaceAnnotations = (\<lambda>w ns. Inr []), e_GetTrigger = (\<lambda>w nn. Inl (NotFound ''trigger'')),
     e_ListRunners = (\<lambda>w ns ls. Inr []), e_ListWorkflows = (\<lambda>w ns. Inr []),
     e_ListPods = (\<lambda>w ns ls. Inr []), e_ListTriggers = (\<lambda>w. Inr []),
     e_PodLogs = (\<lambda>w ns pod c n. Inr []), e_Create = (\<lambda>w x. None), e_Delete = (\<lambda>w x. None),
     e_PatchRunner = (\<lambda>w base r. Inr r), e_PatchWorkflow = (\<lambda>w base W. Inr W),
     e_PatchTrigger = (\<lambda>w base t. Inr t)\<rparr>"

definition sample_world :: world where
  "sample_world = \<lparr>w_log = [], w_reads = 0\<rparr>"

lemma find_filter_neq: "t \<noteq> k \<Longrightarrow> find (\<lambda>x. key x = t) (filter (\<lambda>x. key x \<noteq> k) xs) = find (\<lambda>x. key x = t) xs"
  by (induction xs) auto

lemma sample_env_ok:
  "sets_condition (e_SetStatusCondition sample_env)" "sets_owner (e_SetControllerReference sample_env)"
  "can_own (e_SetControllerReference sample_env)"
  by (auto simp: sample_env_def sets_condition_def sample_SetStatusCondition_def find_filter_neq sets_owner_def can_own_def)

end
