(* ===== verification/Workflow_Status.thy ===== *)
theory Workflow_Status
  imports Conditions
begin

text \<open>
  The status tables of a Workflow in \<open>internal/controller/workflow_controller.go\<close>: the step and
  job entries with their upserts and lookup maps, and the aggregation of the entries into the
  phase of the Workflow.  Steps and jobs have the same contract twice: the locale \<open>status_table\<close>
  states it for the upserts and the locale \<open>status_kind\<close> for the aggregation, and both are
  interpreted on the definitions for steps and for jobs.
\<close>

section \<open>Step statuses\<close>

text \<open>The assignments to an entry found with another phase, and a new entry.\<close>

definition advanceStepStatus :: "env \<Rightarrow> StepPhase \<Rightarrow> StepStatus \<Rightarrow> world \<Rightarrow> StepStatus \<times> world" where
  "advanceStepStatus e phase s w =
     (let s1 = s\<lparr>ss_Phase := phase\<rparr>;
          (s2, w2) =
            (if phase = StepPhaseRunning then
               (let (s2, w2) =
                  (if ss_StartedAt s = None
                   then (let (now, w1) = Now e w in (s1\<lparr>ss_StartedAt := Some now\<rparr>, w1))
                   else (s1, w))
                in (s2\<lparr>ss_CompletedAt := None\<rparr>, w2))
             else (s1, w))
      in if phase = StepPhaseSucceeded \<or> phase = StepPhaseFailed
         then (let (now, w3) = Now e w2 in (s2\<lparr>ss_CompletedAt := Some now\<rparr>, w3))
         else (s2, w2))"

definition newStepStatus :: "env \<Rightarrow> string \<Rightarrow> StepPhase \<Rightarrow> world \<Rightarrow> StepStatus \<times> world" where
  "newStepStatus e stepName phase w =
     (let status = zero_StepStatus\<lparr>ss_Name := stepName, ss_Phase := phase\<rparr>
      in if phase = StepPhaseRunning
         then (let (now, w1) = Now e w in (status\<lparr>ss_StartedAt := Some now\<rparr>, w1))
         else (status, w))"

definition upsertStepStatus ::
  "env \<Rightarrow> string \<Rightarrow> StepPhase \<Rightarrow> Workflow \<Rightarrow> world \<Rightarrow> Workflow \<times> world" where
  "upsertStepStatus e stepName phase W w =
     (case find (\<lambda>s. ss_Name s = stepName) (wf_StepStatuses W) of
        Some s \<Rightarrow>
          if ss_Phase s = phase then (W, w)
          else
            (let (s', w1) = advanceStepStatus e phase s w
             in (wf_setStatus (wst_StepStatuses_update (update_first (\<lambda>s. ss_Name s = stepName) (\<lambda>_. s'))) W, w1))
      | None \<Rightarrow>
          (let (status, w1) = newStepStatus e stepName phase w
           in (wf_setStatus (wst_StepStatuses_update (\<lambda>ss. ss @ [status])) W, w1)))"

definition buildStepStatusMap :: "Workflow \<Rightarrow> (string, StepStatus) gomap" where
  "buildStepStatusMap W = index_by ss_Name (wf_StepStatuses W)"

definition findStepStatus :: "StepStatus list \<Rightarrow> string \<Rightarrow> StepStatus option" where
  "findStepStatus statuses name = find (\<lambda>s. ss_Name s = name) statuses"

definition isActiveStepPhase :: "StepStatus \<Rightarrow> bool" where
  "isActiveStepPhase s \<longleftrightarrow>
     ss_Phase s = StepPhasePending \<or> ss_Phase s = StepPhaseWaiting \<or> ss_Phase s = StepPhaseRunning"

definition isFailedStepPhase :: "StepStatus \<Rightarrow> bool" where
  "isFailedStepPhase s \<longleftrightarrow> ss_Phase s = StepPhaseFailed"

definition getSpecStepNames :: "WorkflowStep list \<Rightarrow> string list" where
  "getSpecStepNames steps = map st_Name steps"

fun runnerPhaseToStepPhase :: "RunnerPhase \<Rightarrow> StepPhase" where
  "runnerPhaseToStepPhase RunnerPhasePending = StepPhasePending"
| "runnerPhaseToStepPhase RunnerPhaseRunning = StepPhaseRunning"
| "runnerPhaseToStepPhase RunnerPhaseSucceeded = StepPhaseSucceeded"
| "runnerPhaseToStepPhase RunnerPhaseFailed = StepPhaseFailed"
| "runnerPhaseToStepPhase _ = StepPhasePending"

section \<open>Job statuses\<close>

text \<open>The assignments to an entry found with another phase, and a new entry.\<close>

definition advanceJobStatus :: "env \<Rightarrow> JobPhase \<Rightarrow> JobStatus \<Rightarrow> world \<Rightarrow> JobStatus \<times> world" where
  "advanceJobStatus e phase j w =
     (let j1 = j\<lparr>jst_Phase := phase\<rparr>;
          (j2, w2) =
            (if phase = JobPhaseRunning then
               (let (j2, w2) =
                  (if jst_StartedAt j = None
                   then (let (now, w1) = Now e w in (j1\<lparr>jst_StartedAt := Some now\<rparr>, w1))
                   else (j1, w))
                in (j2\<lparr>jst_CompletedAt := None\<rparr>, w2))
             else (j1, w))
      in if phase = JobPhaseSucceeded \<or> phase = JobPhaseFailed \<or> phase = JobPhaseSkipped
         then (let (now, w3) = Now e w2 in (j2\<lparr>jst_CompletedAt := Some now\<rparr>, w3))
         else (j2, w2))"

definition newJobStatus :: "env \<Rightarrow> string \<Rightarrow> JobPhase \<Rightarrow> world \<Rightarrow> JobStatus \<times> world" where
  "newJobStatus e jobName phase w =
     (let status = zero_JobStatus\<lparr>jst_Name := jobName, jst_Phase := phase\<rparr>
      in if phase = JobPhaseRunning
         then (let (now, w1) = Now e w in (status\<lparr>jst_StartedAt := Some now\<rparr>, w1))
         else (status, w))"

definition upsertJobStatus ::
  "env \<Rightarrow> string \<Rightarrow> JobPhase \<Rightarrow> Workflow \<Rightarrow> world \<Rightarrow> Workflow \<times> world" where
  "upsertJobStatus e jobName phase W w =
     (case find (\<lambda>j. jst_Name j = jobName) (wf_JobStatuses W) of
        Some j \<Rightarrow>
          if jst_Phase j = phase then (W, w)
          else
            (let (j', w1) = advanceJobStatus e phase j w
             in (wf_setStatus (wst_JobStatuses_update (update_first (\<lambda>j. jst_Name j = jobName) (\<lambda>_. j'))) W, w1))
      | None \<Rightarrow>
          (let (status, w1) = newJobStatus e jobName phase w
           in (wf_setStatus (wst_JobStatuses_update (\<lambda>js. js @ [status])) W, w1)))"

definition buildJobStatusMap :: "Workflow \<Rightarrow> (string, JobStatus) gomap" where
  "buildJobStatusMap W = index_by jst_Name (wf_JobStatuses W)"

definition findJobStatus :: "JobStatus list \<Rightarrow> string \<Rightarrow> JobStatus option" where
  "findJobStatus statuses name = find (\<lambda>j. jst_Name j = name) statuses"

definition isActiveJobPhase :: "JobStatus \<Rightarrow> bool" where
  "isActiveJobPhase s \<longleftrightarrow>
     jst_Phase s = JobPhasePending \<or> jst_Phase s = JobPhaseWaiting \<or> jst_Phase s = JobPhaseRunning"

definition isFailedJobPhase :: "JobStatus \<Rightarrow> bool" where
  "isFailedJobPhase s \<longleftrightarrow> jst_Phase s = JobPhaseFailed"

definition getSpecJobNames :: "JobSpec list \<Rightarrow> string list" where
  "getSpecJobNames jobs = map js_Name jobs"

section \<open>The phase of a Workflow\<close>

text \<open>
  The loop over the expected names with its three flags, \<open>allDone\<close>, \<open>hasFailed\<close> and
  \<open>hasRunning\<close>.
\<close>

definition phase_flags ::
  "'a list \<Rightarrow> ('a list \<Rightarrow> string \<Rightarrow> 'a option) \<Rightarrow> ('a \<Rightarrow> bool) \<Rightarrow> ('a \<Rightarrow> bool) \<Rightarrow> string list \<Rightarrow>
   bool \<times> bool \<times> bool \<Rightarrow> bool \<times> bool \<times> bool" where
  "phase_flags statuses findStatus isActive isFailed specItemNames flags =
     foldl (\<lambda>(allDone, hasFailed, hasRunning) name.
       case findStatus statuses name of
         None \<Rightarrow> (False, hasFailed, hasRunning)
       | Some status \<Rightarrow>
           let (allDone, hasRunning) = (if isActive status then (False, True) else (allDone, hasRunning));
               hasFailed = (if isFailed status then True else hasFailed)
           in (allDone, hasFailed, hasRunning)) flags specItemNames"

definition computeWorkflowPhase ::
  "string list \<Rightarrow> 'a list \<Rightarrow> ('a list \<Rightarrow> string \<Rightarrow> 'a option) \<Rightarrow> ('a \<Rightarrow> bool) \<Rightarrow> ('a \<Rightarrow> bool) \<Rightarrow>
   WorkflowPhase" where
  "computeWorkflowPhase specItemNames statuses findStatus isActive isFailed =
     (if statuses = [] then WorkflowPhasePending
      else case phase_flags statuses findStatus isActive isFailed specItemNames (True, False, False) of
        (allDone, hasFailed, hasRunning) \<Rightarrow>
          if hasFailed \<and> allDone then WorkflowPhaseFailed
          else if allDone then WorkflowPhaseSucceeded
          else if hasRunning then WorkflowPhaseRunning
          else WorkflowPhasePending)"

definition computeJobWorkflowPhase :: "Workflow \<Rightarrow> WorkflowPhase" where
  "computeJobWorkflowPhase W =
     computeWorkflowPhase (getSpecJobNames (wsp_Jobs (wf_Spec W))) (wf_JobStatuses W)
       findJobStatus isActiveJobPhase isFailedJobPhase"

definition computeFlatWorkflowPhase :: "Workflow \<Rightarrow> WorkflowPhase" where
  "computeFlatWorkflowPhase W =
     computeWorkflowPhase (getSpecStepNames (wsp_Steps (wf_Spec W))) (wf_StepStatuses W)
       findStepStatus isActiveStepPhase isFailedStepPhase"

definition isWorkflowTerminal :: "WorkflowPhase \<Rightarrow> bool" where
  "isWorkflowTerminal phase \<longleftrightarrow> phase = WorkflowPhaseSucceeded \<or> phase = WorkflowPhaseFailed"

section \<open>The contract of a status table\<close>

text \<open>
  What the reconciler relies on when it records a phase under a name: the entry of that name
  then has that phase, a missing name is appended, the entries of the other names stay, and no
  request is sent.
\<close>

locale status_table =
  fixes entries :: "Workflow \<Rightarrow> 's list"
    and name :: "'s \<Rightarrow> string"
    and phase :: "'s \<Rightarrow> 'p"
    and upsert :: "env \<Rightarrow> string \<Rightarrow> 'p \<Rightarrow> Workflow \<Rightarrow> world \<Rightarrow> Workflow \<times> world"
  assumes upsert_names:
      "map name (entries (fst (upsert e n p W w))) =
       map name (entries W) @ (if n \<in> name ` set (entries W) then [] else [n])"
    and upsert_same:
      "\<exists>s. find (\<lambda>s. name s = n) (entries (fst (upsert e n p W w))) = Some s \<and> phase s = p"
    and upsert_other:
      "n' \<noteq> n \<Longrightarrow> find (\<lambda>s. name s = n') (entries (fst (upsert e n p W w))) = find (\<lambda>s. name s = n') (entries W)"
    and upsert_log: "w_log (snd (upsert e n p W w)) = w_log w"
    and upsert_meta: "wf_Meta (fst (upsert e n p W w)) = wf_Meta W"
    and upsert_spec: "wf_Spec (fst (upsert e n p W w)) = wf_Spec W"
begin

lemma upsert_distinct:
  "distinct (map name (entries W)) \<Longrightarrow> distinct (map name (entries (fst (upsert e n p W w))))"
  by (auto simp: upsert_names)

lemma upsert_dom: "name ` set (entries (fst (upsert e n p W w))) = insert n (name ` set (entries W))"
  using arg_cong [OF upsert_names [of e n p W w], of set] by (auto split: if_splits)

text \<open>Recording one phase under each of a list of names, as the timeout handlers do.\<close>

lemma upsert_all_other:
  "n' \<notin> set ns \<Longrightarrow>
     find (\<lambda>s. name s = n') (entries (fst (foldl (\<lambda>(W, w) n. upsert e n p W w) (W, w) ns))) =
     find (\<lambda>s. name s = n') (entries W)"
proof (induction ns arbitrary: W w)
  case (Cons n ns)
  then show ?case using Cons.IH [of "fst (upsert e n p W w)" "snd (upsert e n p W w)"]
    by (simp add: upsert_other)
qed simp

lemma upsert_all_phase:
  "n \<in> set ns \<Longrightarrow>
     \<exists>s. find (\<lambda>s. name s = n) (entries (fst (foldl (\<lambda>(W, w) n. upsert e n p W w) (W, w) ns))) = Some s
       \<and> phase s = p"
proof (induction ns arbitrary: W w)
  case (Cons m ns)
  let ?W = "fst (upsert e m p W w)" and ?w = "snd (upsert e m p W w)"
  have split: "foldl (\<lambda>(W, w) n. upsert e n p W w) (W, w) (m # ns) = foldl (\<lambda>(W, w) n. upsert e n p W w) (?W, ?w) ns"
    by simp
  show ?case
  proof (cases "n \<in> set ns")
    case True
    then show ?thesis unfolding split by (rule Cons.IH)
  next
    case False
    with Cons.prems have "n = m" by simp
    with upsert_same [of n e p W w] show ?thesis
      unfolding split upsert_all_other [OF False] by simp
  qed
qed simp

lemma upsert_all_log:
  "w_log (snd (foldl (\<lambda>(W, w) n. upsert e n p W w) (W, w) ns)) = w_log w"
proof (induction ns arbitrary: W w)
  case (Cons n ns)
  then show ?case using Cons.IH [of "fst (upsert e n p W w)" "snd (upsert e n p W w)"]
    by (simp add: upsert_log)
qed simp

lemma upsert_all_distinct:
  "distinct (map name (entries W)) \<Longrightarrow>
     distinct (map name (entries (fst (foldl (\<lambda>(W, w) n. upsert e n p W w) (W, w) ns))))"
proof (induction ns arbitrary: W w)
  case (Cons n ns)
  then show ?case
    using Cons.IH [of "fst (upsert e n p W w)" "snd (upsert e n p W w)"] upsert_distinct by simp
qed simp

end

lemma find_update_first_const:
  "find (\<lambda>x. key x = k) xs = Some x \<Longrightarrow> key s = k \<Longrightarrow>
     find (\<lambda>x. key x = k) (update_first (\<lambda>x. key x = k) (\<lambda>_. s) xs) = Some s"
  by (induction xs) (auto split: if_splits)

lemma find_update_first_const_other:
  assumes "key s = k" "k' \<noteq> k"
  shows "find (\<lambda>x. key x = k') (update_first (\<lambda>x. key x = k) (\<lambda>_. s) xs) = find (\<lambda>x. key x = k') xs"
  using assms by (induction xs) auto

text \<open>
  Both upserts replace the first entry of the name, or append one; the new entry has the name
  and the phase asked for.
\<close>

lemma advance_status [simp]:
  "ss_Name (fst (advanceStepStatus e p s w)) = ss_Name s"
  "ss_Phase (fst (advanceStepStatus e p s w)) = p"
  "ss_RetryCount (fst (advanceStepStatus e p s w)) = ss_RetryCount s"
  "ss_Message (fst (advanceStepStatus e p s w)) = ss_Message s"
  "jst_Name (fst (advanceJobStatus e q j w)) = jst_Name j"
  "jst_Phase (fst (advanceJobStatus e q j w)) = q"
  "w_log (snd (advanceStepStatus e p s w)) = w_log w"
  "w_log (snd (advanceJobStatus e q j w)) = w_log w"
  by (simp_all add: advanceStepStatus_def advanceJobStatus_def Now_def Let_def)

lemma new_status [simp]:
  "ss_Name (fst (newStepStatus e n p w)) = n"
  "ss_Phase (fst (newStepStatus e n p w)) = p"
  "ss_RetryCount (fst (newStepStatus e n p w)) = 0"
  "ss_Message (fst (newStepStatus e n p w)) = []"
  "jst_Name (fst (newJobStatus e n q w)) = n"
  "jst_Phase (fst (newJobStatus e n q w)) = q"
  "w_log (snd (newStepStatus e n p w)) = w_log w"
  "w_log (snd (newJobStatus e n q w)) = w_log w"
  by (simp_all add: newStepStatus_def newJobStatus_def Now_def Let_def zero_StepStatus_def zero_JobStatus_def)

lemma upsertStepStatus_entry:
  "find (\<lambda>s. ss_Name s = n) (wf_StepStatuses (fst (upsertStepStatus e n p W w))) =
     (case find (\<lambda>s. ss_Name s = n) (wf_StepStatuses W) of
        Some s \<Rightarrow> Some (if ss_Phase s = p then s else fst (advanceStepStatus e p s w))
      | None \<Rightarrow> Some (fst (newStepStatus e n p w)))"
proof (cases "find (\<lambda>s. ss_Name s = n) (wf_StepStatuses W)")
  case (Some s)
  then have "ss_Name s = n" by (auto dest: find_SomeD)
  with Some show ?thesis by (simp add: upsertStepStatus_def split_beta find_update_first_const [OF Some])
qed (simp add: upsertStepStatus_def split_beta find_append)

lemma upsertJobStatus_entry:
  "find (\<lambda>s. jst_Name s = n) (wf_JobStatuses (fst (upsertJobStatus e n p W w))) =
     (case find (\<lambda>s. jst_Name s = n) (wf_JobStatuses W) of
        Some s \<Rightarrow> Some (if jst_Phase s = p then s else fst (advanceJobStatus e p s w))
      | None \<Rightarrow> Some (fst (newJobStatus e n p w)))"
proof (cases "find (\<lambda>s. jst_Name s = n) (wf_JobStatuses W)")
  case (Some s)
  then have "jst_Name s = n" by (auto dest: find_SomeD)
  with Some show ?thesis by (simp add: upsertJobStatus_def split_beta find_update_first_const [OF Some])
qed (simp add: upsertJobStatus_def split_beta find_append)

lemma map_update_first_const:
  "key s = k \<Longrightarrow> map key (update_first (\<lambda>x. key x = k) (\<lambda>_. s) xs) = map key xs"
  by (induction xs) auto

lemma upsert_frame [simp, frame_simps]:
  "wf_Meta (fst (upsertStepStatus e n p W w)) = wf_Meta W"
  "wf_Spec (fst (upsertStepStatus e n p W w)) = wf_Spec W"
  "wf_JobStatuses (fst (upsertStepStatus e n p W w)) = wf_JobStatuses W"
  "wf_Phase (fst (upsertStepStatus e n p W w)) = wf_Phase W"
  "wst_StartTime (wf_Status (fst (upsertStepStatus e n p W w))) = wst_StartTime (wf_Status W)"
  "wst_CompletionTime (wf_Status (fst (upsertStepStatus e n p W w))) = wst_CompletionTime (wf_Status W)"
  "wf_Meta (fst (upsertJobStatus e n q W w)) = wf_Meta W"
  "wf_Spec (fst (upsertJobStatus e n q W w)) = wf_Spec W"
  "wf_StepStatuses (fst (upsertJobStatus e n q W w)) = wf_StepStatuses W"
  "wf_Phase (fst (upsertJobStatus e n q W w)) = wf_Phase W"
  "wst_StartTime (wf_Status (fst (upsertJobStatus e n q W w))) = wst_StartTime (wf_Status W)"
  "wst_CompletionTime (wf_Status (fst (upsertJobStatus e n q W w))) = wst_CompletionTime (wf_Status W)"
  by (simp_all add: upsertStepStatus_def upsertJobStatus_def split_beta split: option.split)

lemma upsert_log [simp, log_simps]:
  "w_log (snd (upsertStepStatus e n p W w)) = w_log w"
  "w_log (snd (upsertJobStatus e n q W w)) = w_log w"
  by (simp_all add: upsertStepStatus_def upsertJobStatus_def split_beta split: option.split)

interpretation step_table: status_table wf_StepStatuses ss_Name ss_Phase upsertStepStatus
proof
  fix e n p W w
  show "map ss_Name (wf_StepStatuses (fst (upsertStepStatus e n p W w))) =
      map ss_Name (wf_StepStatuses W) @ (if n \<in> ss_Name ` set (wf_StepStatuses W) then [] else [n])"
    by (auto simp: upsertStepStatus_def split_beta find_None_iff_key map_update_first_const
        split: option.split dest: find_SomeD)
  show "\<exists>s. find (\<lambda>s. ss_Name s = n) (wf_StepStatuses (fst (upsertStepStatus e n p W w))) = Some s \<and> ss_Phase s = p"
    by (auto simp: upsertStepStatus_entry split: option.split)
  show "find (\<lambda>s. ss_Name s = n') (wf_StepStatuses (fst (upsertStepStatus e n p W w))) =
      find (\<lambda>s. ss_Name s = n') (wf_StepStatuses W)" if "n' \<noteq> n" for n'
    using that by (auto simp: upsertStepStatus_def split_beta find_append find_update_first_const_other
        split: option.split dest: find_SomeD)
qed simp_all

interpretation job_table: status_table wf_JobStatuses jst_Name jst_Phase upsertJobStatus
proof
  fix e n p W w
  show "map jst_Name (wf_JobStatuses (fst (upsertJobStatus e n p W w))) =
      map jst_Name (wf_JobStatuses W) @ (if n \<in> jst_Name ` set (wf_JobStatuses W) then [] else [n])"
    by (auto simp: upsertJobStatus_def split_beta find_None_iff_key map_update_first_const
        split: option.split dest: find_SomeD)
  show "\<exists>s. find (\<lambda>s. jst_Name s = n) (wf_JobStatuses (fst (upsertJobStatus e n p W w))) = Some s \<and> jst_Phase s = p"
    by (auto simp: upsertJobStatus_entry split: option.split)
  show "find (\<lambda>s. jst_Name s = n') (wf_JobStatuses (fst (upsertJobStatus e n p W w))) =
      find (\<lambda>s. jst_Name s = n') (wf_JobStatuses W)" if "n' \<noteq> n" for n'
    using that by (auto simp: upsertJobStatus_def split_beta find_append find_update_first_const_other
        split: option.split dest: find_SomeD)
qed simp_all

lemmas step_upsert = step_table.upsert_names step_table.upsert_same step_table.upsert_other
  step_table.upsert_distinct step_table.upsert_dom
lemmas job_upsert = job_table.upsert_names job_table.upsert_same job_table.upsert_other
  job_table.upsert_distinct job_table.upsert_dom

section \<open>The contract of the aggregation\<close>

text \<open>
  What \<^const>\<open>computeWorkflowPhase\<close> relies on: the lookup finds the first entry of a name, and no
  entry is active and failed at once.
\<close>

locale status_kind =
  fixes name :: "'s \<Rightarrow> string"
    and findStatus :: "'s list \<Rightarrow> string \<Rightarrow> 's option"
    and isActive :: "'s \<Rightarrow> bool"
    and isFailed :: "'s \<Rightarrow> bool"
  assumes find_by_name: "findStatus ss n = find (\<lambda>s. name s = n) ss"
    and exclusive: "isFailed s \<Longrightarrow> \<not> isActive s"
begin

lemma flags_eq:
  "phase_flags ss findStatus isActive isFailed ns (d, f, r) =
     (d \<and> list_all (\<lambda>n. case findStatus ss n of None \<Rightarrow> False | Some s \<Rightarrow> \<not> isActive s) ns,
      f \<or> list_ex (\<lambda>n. case findStatus ss n of None \<Rightarrow> False | Some s \<Rightarrow> isFailed s) ns,
      r \<or> list_ex (\<lambda>n. case findStatus ss n of None \<Rightarrow> False | Some s \<Rightarrow> isActive s) ns)"
  by (induction ns arbitrary: d f r) (auto simp: phase_flags_def split: option.split)

lemma phase_eq:
  "computeWorkflowPhase ns ss findStatus isActive isFailed =
     (if ss = [] then WorkflowPhasePending
      else if list_all (\<lambda>n. case findStatus ss n of None \<Rightarrow> False | Some s \<Rightarrow> \<not> isActive s) ns
        then (if list_ex (\<lambda>n. case findStatus ss n of None \<Rightarrow> False | Some s \<Rightarrow> isFailed s) ns
              then WorkflowPhaseFailed else WorkflowPhaseSucceeded)
      else if list_ex (\<lambda>n. case findStatus ss n of None \<Rightarrow> False | Some s \<Rightarrow> isActive s) ns
        then WorkflowPhaseRunning else WorkflowPhasePending)"
  by (auto simp: computeWorkflowPhase_def flags_eq)

lemma terminal_iff:
  "isWorkflowTerminal (computeWorkflowPhase ns ss findStatus isActive isFailed) \<longleftrightarrow>
     ss \<noteq> [] \<and> (\<forall>n \<in> set ns. \<exists>s. findStatus ss n = Some s \<and> \<not> isActive s)"
  by (auto simp: phase_eq isWorkflowTerminal_def list_all_iff split: option.splits)

lemma succeeded_iff:
  "computeWorkflowPhase ns ss findStatus isActive isFailed = WorkflowPhaseSucceeded \<longleftrightarrow>
     ss \<noteq> [] \<and> (\<forall>n \<in> set ns. \<exists>s. findStatus ss n = Some s \<and> \<not> isActive s \<and> \<not> isFailed s)"
proof -
  have some: "(case x of None \<Rightarrow> False | Some s \<Rightarrow> P s) \<longleftrightarrow> (\<exists>s. x = Some s \<and> P s)" for x :: "'s option" and P
    by (cases x) auto
  show ?thesis unfolding phase_eq list_all_iff list_ex_iff some by (auto; metis option.inject)
qed

lemma all_failed:
  assumes "ns \<noteq> []" "\<And>n. n \<in> set ns \<Longrightarrow> \<exists>s. find (\<lambda>s. name s = n) ss = Some s \<and> isFailed s"
  shows "computeWorkflowPhase ns ss findStatus isActive isFailed = WorkflowPhaseFailed"
proof -
  from assms(1) obtain n where n: "n \<in> set ns" by (cases ns) auto
  with assms(2) obtain s where s: "findStatus ss n = Some s" "isFailed s" by (auto simp: find_by_name)
  then have "ss \<noteq> []" by (auto simp: find_by_name)
  moreover have "list_all (\<lambda>n. case findStatus ss n of None \<Rightarrow> False | Some s \<Rightarrow> \<not> isActive s) ns"
    using assms(2) exclusive by (fastforce simp: list_all_iff find_by_name)
  moreover have "list_ex (\<lambda>n. case findStatus ss n of None \<Rightarrow> False | Some s \<Rightarrow> isFailed s) ns"
    using n s by (force simp: list_ex_iff)
  ultimately show ?thesis by (simp add: phase_eq)
qed

end

interpretation step_kind: status_kind ss_Name findStepStatus isActiveStepPhase isFailedStepPhase
  by unfold_locales (auto simp: findStepStatus_def isActiveStepPhase_def isFailedStepPhase_def)

interpretation job_kind: status_kind jst_Name findJobStatus isActiveJobPhase isFailedJobPhase
  by unfold_locales (auto simp: findJobStatus_def isActiveJobPhase_def isFailedJobPhase_def)

section \<open>Properties\<close>

lemma computeFlatWorkflowPhase_phases:
  "(let statuses = wf_StepStatuses W;
        phases = map (\<lambda>st. map_option ss_Phase (findStepStatus statuses (st_Name st))) (wsp_Steps (wf_Spec W));
        active = list_ex (\<lambda>p. p \<in> {Some StepPhasePending, Some StepPhaseWaiting, Some StepPhaseRunning}) phases;
        unfinished = active \<or> list_ex (\<lambda>p. p = None) phases;
        failed = list_ex (\<lambda>p. p = Some StepPhaseFailed) phases
    in computeFlatWorkflowPhase W =
         (if statuses = [] then WorkflowPhasePending
          else if \<not> unfinished then (if failed then WorkflowPhaseFailed else WorkflowPhaseSucceeded)
          else if active then WorkflowPhaseRunning else WorkflowPhasePending))"
proof -
  let ?f = "findStepStatus (wf_StepStatuses W)" and ?ns = "map st_Name (wsp_Steps (wf_Spec W))"
  have fin: "(case ?f n of None \<Rightarrow> False | Some s \<Rightarrow> \<not> isActiveStepPhase s) \<longleftrightarrow>
      map_option ss_Phase (?f n) \<notin> {Some StepPhasePending, Some StepPhaseWaiting, Some StepPhaseRunning} \<and> map_option ss_Phase (?f n) \<noteq> None" for n
    by (auto simp: isActiveStepPhase_def split: option.split)
  have act: "(case ?f n of None \<Rightarrow> False | Some s \<Rightarrow> isActiveStepPhase s) \<longleftrightarrow>
      map_option ss_Phase (?f n) \<in> {Some StepPhasePending, Some StepPhaseWaiting, Some StepPhaseRunning}" for n
    by (auto simp: isActiveStepPhase_def split: option.split)
  have fail: "(case ?f n of None \<Rightarrow> False | Some s \<Rightarrow> isFailedStepPhase s) \<longleftrightarrow>
      map_option ss_Phase (?f n) = Some StepPhaseFailed" for n
    by (auto simp: isFailedStepPhase_def split: option.split)
  have all: "list_all (\<lambda>n. map_option ss_Phase (?f n) \<notin> A \<and> map_option ss_Phase (?f n) \<noteq> None) (map st_Name xs) \<longleftrightarrow>
      \<not> (list_ex (\<lambda>p. p \<in> A) (map (\<lambda>st. map_option ss_Phase (?f (st_Name st))) xs) \<or>
         list_ex (\<lambda>p. p = None) (map (\<lambda>st. map_option ss_Phase (?f (st_Name st))) xs))" for A xs
    by (induction xs) auto
  have ex: "list_ex (\<lambda>n. P (map_option ss_Phase (?f n))) (map st_Name xs) \<longleftrightarrow>
      list_ex P (map (\<lambda>st. map_option ss_Phase (?f (st_Name st))) xs)" for P xs
    by (induction xs) auto
  show ?thesis
    unfolding computeFlatWorkflowPhase_def getSpecStepNames_def step_kind.phase_eq fin act fail Let_def all
      ex [of "\<lambda>p. p \<in> {Some StepPhasePending, Some StepPhaseWaiting, Some StepPhaseRunning}"]
      ex [of "\<lambda>p. p = Some StepPhaseFailed"] ..
qed

text \<open>
  C20. The phase of a flat Workflow is the aggregation its API documents: Succeeded exactly when
  there is a status and every step of the spec has one that is neither active nor failed, Failed
  exactly when every step is finished and one failed, Running exactly when some step is active,
  and Pending otherwise.
\<close>

theorem computeFlatWorkflowPhase_aggregates:
  "(let statuses = wf_StepStatuses W;
        phases = map (\<lambda>st. map_option ss_Phase (findStepStatus statuses (st_Name st))) (wsp_Steps (wf_Spec W));
        active = list_ex (\<lambda>p. p \<in> {Some StepPhasePending, Some StepPhaseWaiting, Some StepPhaseRunning}) phases;
        unfinished = active \<or> list_ex (\<lambda>p. p = None) phases;
        failed = list_ex (\<lambda>p. p = Some StepPhaseFailed) phases
    in computeFlatWorkflowPhase W =
         (if statuses = [] then WorkflowPhasePending
          else if \<not> unfinished then (if failed then WorkflowPhaseFailed else WorkflowPhaseSucceeded)
          else if active then WorkflowPhaseRunning else WorkflowPhasePending))"
  by (rule computeFlatWorkflowPhase_phases)

text \<open>
  C19. Recording a phase for a step or for a job is an exact table update: afterwards the entry of
  that name has that phase and every other name the phase it had, the order of the entries stays,
  a new name goes to the end, so no name is ever duplicated, and no request is sent.
\<close>

theorem upsert_is_table_update:
  "map ss_Name (wf_StepStatuses (fst (upsertStepStatus e n p W w))) =
     map ss_Name (wf_StepStatuses W) @ (if n \<in> ss_Name ` set (wf_StepStatuses W) then [] else [n]) \<and>
   map_option ss_Phase (findStepStatus (wf_StepStatuses (fst (upsertStepStatus e n p W w))) m) =
     (if m = n then Some p else map_option ss_Phase (findStepStatus (wf_StepStatuses W) m)) \<and>
   map jst_Name (wf_JobStatuses (fst (upsertJobStatus e n q W w))) =
     map jst_Name (wf_JobStatuses W) @ (if n \<in> jst_Name ` set (wf_JobStatuses W) then [] else [n]) \<and>
   map_option jst_Phase (findJobStatus (wf_JobStatuses (fst (upsertJobStatus e n q W w))) m) =
     (if m = n then Some q else map_option jst_Phase (findJobStatus (wf_JobStatuses W) m)) \<and>
   w_log (snd (upsertStepStatus e n p W w)) = w_log w \<and> w_log (snd (upsertJobStatus e n q W w)) = w_log w"
  using step_table.upsert_same [of n e p W w] job_table.upsert_same [of n e q W w]
  by (cases "m = n") (auto simp: findStepStatus_def findJobStatus_def step_upsert(1,3) job_upsert(1,3))

end
