(* ===== verification/Go_Strings.thy ===== *)
theory Go_Strings
  imports Prelude
begin

text \<open>
  What the operator uses of Go's \<open>strings\<close>, \<open>fmt\<close> and \<open>unicode/utf8\<close> packages.  A Go string
  is a sequence of bytes, here a \<^typ>\<open>string\<close>; where a function works on runes, the bytes are
  decoded as Go decodes them.  White space is the ASCII white space, and \<open>%q\<close> copies bytes
  from 0x80 on as they are (Go does so for printable runes).
\<close>

section \<open>Characters that cannot be written in a literal\<close>

abbreviation NL :: char where "NL \<equiv> CHR 0x0A"
abbreviation SQ :: char where "SQ \<equiv> CHR 0x27"
abbreviation DQ :: char where "DQ \<equiv> CHR 0x22"
abbreviation BS :: char where "BS \<equiv> CHR 0x5C"

section \<open>Package strings\<close>

fun HasPrefix :: "string \<Rightarrow> string \<Rightarrow> bool" where
  "HasPrefix s [] = True"
| "HasPrefix [] (p # ps) = False"
| "HasPrefix (c # s) (p # ps) = (c = p \<and> HasPrefix s ps)"

fun Contains :: "string \<Rightarrow> string \<Rightarrow> bool" where
  "Contains [] sub = (sub = [])"
| "Contains (c # s) sub = (HasPrefix (c # s) sub \<or> Contains s sub)"

definition TrimPrefix :: "string \<Rightarrow> string \<Rightarrow> string" where
  "TrimPrefix s p = (if HasPrefix s p then drop (length p) s else s)"

text \<open>\<open>strings.Trim(s, cutset)\<close> with the cutset as a predicate on bytes.\<close>

definition trim_by :: "(char \<Rightarrow> bool) \<Rightarrow> string \<Rightarrow> string" where
  "trim_by P s = rev (dropWhile P (rev (dropWhile P s)))"

definition is_space :: "char \<Rightarrow> bool" where
  "is_space c \<longleftrightarrow> c = CHR '' '' \<or> c = CHR 0x09 \<or> c = CHR 0x0A \<or> c = CHR 0x0B \<or> c = CHR 0x0C \<or> c = CHR 0x0D"

text \<open>
  \<open>strings.TrimSpace\<close> on ASCII white space.  The operator calls it on \<open>when\<close> fields only, which the API
  server restricts to three ASCII words.
\<close>

definition TrimSpace :: "string \<Rightarrow> string" where
  "TrimSpace s = trim_by is_space s"

text \<open>\<open>strings.Cut(s, sep)\<close> for a separator of one byte: the text before and after the first one.\<close>

fun Cut :: "string \<Rightarrow> char \<Rightarrow> (string \<times> string) option" where
  "Cut [] sep = None"
| "Cut (c # s) sep =
     (if c = sep then Some ([], s)
      else case Cut s sep of None \<Rightarrow> None | Some (before, after) \<Rightarrow> Some (c # before, after))"

text \<open>\<open>strings.Split(s, sep)\<close> for a separator of one byte; never empty.\<close>

fun Split :: "string \<Rightarrow> char \<Rightarrow> string list" where
  "Split [] sep = [[]]"
| "Split (c # s) sep =
     (if c = sep then [] # Split s sep
      else case Split s sep of [] \<Rightarrow> [[c]] | w # ws \<Rightarrow> (c # w) # ws)"

text \<open>\<open>strings.ReplaceAll(s, old, new)\<close> for an \<open>old\<close> of one byte.\<close>

definition ReplaceAll :: "string \<Rightarrow> char \<Rightarrow> string \<Rightarrow> string" where
  "ReplaceAll s old new = concat (map (\<lambda>c. if c = old then new else [c]) s)"

lemma HasPrefix_iff: "HasPrefix s p \<longleftrightarrow> (\<exists>t. s = p @ t)"
  by (induction s p rule: HasPrefix.induct) auto

lemma HasPrefix_append [simp]: "HasPrefix (p @ t) p"
  by (auto simp: HasPrefix_iff)

lemma Contains_iff: "Contains s sub \<longleftrightarrow> (\<exists>a b. s = a @ sub @ b)"
proof (induction s)
  case Nil
  then show ?case by auto
next
  case (Cons c s)
  have "(\<exists>a b. c # s = a @ sub @ b) \<longleftrightarrow> (\<exists>b. c # s = sub @ b) \<or> (\<exists>a b. s = a @ sub @ b)"
    by (metis append_Cons append_Nil list.sel(3) neq_Nil_conv)
  with Cons show ?case by (auto simp: HasPrefix_iff)
qed

lemma Split_ne [simp]: "Split s sep \<noteq> []"
  by (induction s) (auto split: list.split)

lemma ReplaceAll_simps [simp]:
  "ReplaceAll [] old new = []"
  "ReplaceAll (c # s) old new = (if c = old then new else [c]) @ ReplaceAll s old new"
  by (simp_all add: ReplaceAll_def)

lemma trim_by_subset: "set (trim_by P s) \<subseteq> set s"
  unfolding trim_by_def set_rev by (auto dest!: set_dropWhileD)

lemma length_trim_by: "length (trim_by P s) \<le> length s"
proof -
  have "length (dropWhile P (rev (dropWhile P s))) \<le> length (dropWhile P s)"
    using length_dropWhile_le [of P "rev (dropWhile P s)"] by simp
  also have "\<dots> \<le> length s" by (rule length_dropWhile_le)
  finally show ?thesis by (simp add: trim_by_def)
qed

lemma last_trim_by: "trim_by P s \<noteq> [] \<Longrightarrow> \<not> P (last (trim_by P s))"
  using hd_dropWhile [of P "rev (dropWhile P s)"] by (auto simp: trim_by_def last_rev)

lemma dropWhile_snoc: "\<not> P x \<Longrightarrow> \<exists>zs. dropWhile P (xs @ [x]) = zs @ [x]"
  by (induction xs) auto

lemma dropWhile_rev_hd:
  assumes "xs \<noteq> []" "\<not> P (hd xs)"
  shows "\<exists>zs. rev (dropWhile P (rev xs)) = hd xs # zs"
proof -
  from assms(1) obtain x xs' where xs: "xs = x # xs'" by (cases xs) auto
  with assms(2) obtain zs where "dropWhile P (rev xs' @ [x]) = zs @ [x]"
    using dropWhile_snoc [of P x "rev xs'"] by auto
  then show ?thesis by (simp add: xs)
qed

lemma hd_trim_by:
  assumes "trim_by P s \<noteq> []"
  shows "\<not> P (hd (trim_by P s))"
proof -
  from assms have ne: "dropWhile P s \<noteq> []"
    by (cases "dropWhile P s") (simp_all add: trim_by_def del: dropWhile_eq_Nil_conv)
  then have nP: "\<not> P (hd (dropWhile P s))" by (rule hd_dropWhile)
  from dropWhile_rev_hd [of _ P, OF ne nP] obtain zs
    where "trim_by P s = hd (dropWhile P s) # zs" unfolding trim_by_def by blast
  with nP show ?thesis by simp
qed

section \<open>Package unicode/utf8: ranging over the runes of a string\<close>

type_synonym rune = nat

definition cont_byte :: "nat \<Rightarrow> bool" where
  "cont_byte b \<longleftrightarrow> 0x80 \<le> b \<and> b \<le> 0xBF"

text \<open>
  The rune that starts with the byte \<open>b0\<close> (0x80 or more) and continues in \<open>bs\<close>, and how many
  further bytes it takes; \<^const>\<open>None\<close> for an invalid encoding.
\<close>

definition utf8_tail :: "nat \<Rightarrow> nat list \<Rightarrow> (rune \<times> nat) option" where
  "utf8_tail b0 bs =
     (case bs of
        [] \<Rightarrow> None
      | b1 # bs1 \<Rightarrow>
          if 0xC2 \<le> b0 \<and> b0 \<le> 0xDF then
            (if cont_byte b1 then Some ((b0 - 0xC0) * 64 + (b1 - 0x80), 1) else None)
          else case bs1 of
            [] \<Rightarrow> None
          | b2 # bs2 \<Rightarrow>
              if 0xE0 \<le> b0 \<and> b0 \<le> 0xEF then
                (if cont_byte b1 \<and> cont_byte b2 \<and> (b0 = 0xE0 \<longrightarrow> 0xA0 \<le> b1) \<and> (b0 = 0xED \<longrightarrow> b1 \<le> 0x9F)
                 then Some ((b0 - 0xE0) * 4096 + (b1 - 0x80) * 64 + (b2 - 0x80), 2) else None)
              else case bs2 of
                [] \<Rightarrow> None
              | b3 # bs3 \<Rightarrow>
                  if 0xF0 \<le> b0 \<and> b0 \<le> 0xF4 \<and> cont_byte b1 \<and> cont_byte b2 \<and> cont_byte b3
                     \<and> (b0 = 0xF0 \<longrightarrow> 0x90 \<le> b1) \<and> (b0 = 0xF4 \<longrightarrow> b1 \<le> 0x8F)
                  then Some ((b0 - 0xF0) * 262144 + (b1 - 0x80) * 4096 + (b2 - 0x80) * 64 + (b3 - 0x80), 3)
                  else None)"

function runes_of_bytes :: "nat list \<Rightarrow> rune list" where
  "runes_of_bytes [] = []"
| "runes_of_bytes (b # bs) =
     (if b < 0x80 then b # runes_of_bytes bs
      else case utf8_tail b bs of
        None \<Rightarrow> 0xFFFD # runes_of_bytes bs
      | Some (r, n) \<Rightarrow> r # runes_of_bytes (drop n bs))"
  by pat_completeness auto
termination
  by (relation "measure length") auto

definition runes :: "string \<Rightarrow> rune list" where
  "runes s = runes_of_bytes (map of_char s)"

lemma length_runes_of_bytes: "length (runes_of_bytes bs) \<le> length bs"
  by (induction bs rule: runes_of_bytes.induct) (force split: option.split)+

section \<open>Package fmt\<close>

text \<open>\<open>%d\<close>.\<close>

fun show_nat :: "nat \<Rightarrow> string" where
  "show_nat n = (if n < 10 then [char_of (48 + n)] else show_nat (n div 10) @ [char_of (48 + n mod 10)])"

declare show_nat.simps [simp del]

definition show_int :: "int \<Rightarrow> string" where
  "show_int i = (if i < 0 then CHR ''-'' # show_nat (nat (- i)) else show_nat (nat i))"

definition hex_digit :: "nat \<Rightarrow> char" where
  "hex_digit n = (if n < 10 then char_of (48 + n) else char_of (87 + n))"

text \<open>\<open>%q\<close>.\<close>

definition quote_char :: "char \<Rightarrow> string" where
  "quote_char c =
     (if c = DQ then [BS, DQ] else if c = BS then [BS, BS]
      else if c = CHR 0x07 then [BS, CHR ''a''] else if c = CHR 0x08 then [BS, CHR ''b'']
      else if c = CHR 0x0C then [BS, CHR ''f''] else if c = CHR 0x0A then [BS, CHR ''n'']
      else if c = CHR 0x0D then [BS, CHR ''r''] else if c = CHR 0x09 then [BS, CHR ''t'']
      else if c = CHR 0x0B then [BS, CHR ''v'']
      else if of_char c < (0x20 :: nat) \<or> of_char c = (0x7F :: nat)
        then [BS, CHR ''x'', hex_digit (of_char c div 16), hex_digit (of_char c mod 16)]
      else [c])"

definition quote :: "string \<Rightarrow> string" where
  "quote s = [DQ] @ concat (map quote_char s) @ [DQ]"

text \<open>
  \<open>fmt.Sscanf(val, "%d", &n)\<close>: leading white space (but no newline) is skipped, then an optional
  sign and the longest run of digits are read as an int64; what follows is ignored.  \<^const>\<open>None\<close>
  is the error.
\<close>

definition is_digit :: "char \<Rightarrow> bool" where
  "is_digit c \<longleftrightarrow> 48 \<le> (of_char c :: nat) \<and> (of_char c :: nat) \<le> 57"

definition digits_value :: "string \<Rightarrow> int" where
  "digits_value ds = foldl (\<lambda>n c. n * 10 + (of_char c - 48)) 0 ds"

definition Sscanf_d :: "string \<Rightarrow> int option" where
  "Sscanf_d val =
     (let s = dropWhile (\<lambda>c. is_space c \<and> c \<noteq> NL) val;
          neg = (s \<noteq> [] \<and> hd s = CHR ''-'');
          s1 = (if s \<noteq> [] \<and> (hd s = CHR ''-'' \<or> hd s = CHR ''+'') then tl s else s);
          ds = takeWhile is_digit s1;
          n = (if neg then - digits_value ds else digits_value ds)
      in if ds = [] \<or> n < min_int64 \<or> max_int64 < n then None else Some n)"

lemma Sscanf_d_bounds: "Sscanf_d val = Some n \<Longrightarrow> min_int64 \<le> n \<and> n \<le> max_int64"
  by (auto simp: Sscanf_d_def Let_def split: if_splits)

end
