(* ===== verification/Dep_Graph.thy ===== *)
theory Dep_Graph
  imports Go_Strings Api_Types "HOL-Library.Multiset"
begin

text \<open>
  The dependency graph of a Workflow: \<open>cycleDetector\<close>, the three-colour depth-first search both
  \<open>detectCycle\<close> (steps) and \<open>detectJobCycle\<close> (jobs) use, and \<open>topologicalSortSteps\<close>, Kahn's
  algorithm on the steps.  The search threads its \<open>visited\<close> map through the recursion; its
  termination is proved, as are its correctness (no report if and only if every dependency is
  known and the graph has no cycle) and that of the sort.
\<close>

section \<open>cycleDetector\<close>

text \<open>The colours of \<open>visited\<close>: 1 while a node is on the stack, 2 when it is finished.\<close>

definition seen :: "(string, int) gomap \<Rightarrow> string set" where
  "seen v = {n. mget 0 v n = 1 \<or> mget 0 v n = 2}"

function (domintros)
      dfs :: "('a \<Rightarrow> string) \<Rightarrow> ('a \<Rightarrow> string list) \<Rightarrow> 'a list \<Rightarrow> string \<Rightarrow> (string, int) gomap \<Rightarrow>
              bool \<times> (string, int) gomap"
  and dfs_any :: "('a \<Rightarrow> string) \<Rightarrow> ('a \<Rightarrow> string list) \<Rightarrow> 'a list \<Rightarrow> string list \<Rightarrow> (string, int) gomap \<Rightarrow>
              bool \<times> (string, int) gomap" where
  "dfs name deps items cur visited =
     (if mget 0 visited cur = 1 then (True, visited)
      else if mget 0 visited cur = 2 then (False, visited)
      else let visited = AList.update cur 1 visited
           in case find (\<lambda>item. name item = cur) items of
                None \<Rightarrow> (False, AList.update cur 2 visited)
              | Some item \<Rightarrow>
                  (case dfs_any name deps items (deps item) visited of
                     (found, visited) \<Rightarrow>
                       if found then (True, visited) else (False, AList.update cur 2 visited)))"
| "dfs_any name deps items [] visited = (False, visited)"
| "dfs_any name deps items (d # ds) visited =
     (case dfs name deps items d visited of
        (found, visited) \<Rightarrow> if found then (True, visited) else dfs_any name deps items ds visited)"
  by pat_completeness auto

lemma seen_update [simp]: "c = 1 \<or> c = 2 \<Longrightarrow> seen (AList.update n c v) = insert n (seen v)"
  by (auto simp: seen_def)

lemma dfs_dom_mono:
  "dfs_dfs_any_dom (Inl (name, deps, items, cur, v)) \<Longrightarrow> seen v \<subseteq> seen (snd (dfs name deps items cur v))"
  "dfs_dfs_any_dom (Inr (name, deps, items, ds, v)) \<Longrightarrow> seen v \<subseteq> seen (snd (dfs_any name deps items ds v))"
proof (induction rule: dfs_dfs_any.pinduct)
  case (1 name deps items cur v)
  show ?case
  proof (cases "mget 0 v cur = 1 \<or> mget 0 v cur = 2 \<or> find (\<lambda>item. name item = cur) items = None")
    case True
    then show ?thesis using 1 by (auto simp: dfs.psimps Let_def)
  next
    case False
    then obtain item where item: "find (\<lambda>item. name item = cur) items = Some item" by auto
    obtain b v2 where r: "dfs_any name deps items (deps item) (AList.update cur 1 v) = (b, v2)"
      by fastforce
    from item False 1 have "seen (AList.update cur 1 v) \<subseteq>
        seen (snd (dfs_any name deps items (deps item) (AList.update cur 1 v)))" by simp
    with r have "seen v \<subseteq> seen v2" by simp
    with False item r 1(1) show ?thesis by (auto simp: dfs.psimps Let_def)
  qed
next
  case (2 name deps items v)
  then show ?case by (simp add: dfs_any.psimps)
next
  case (3 name deps items d ds v)
  obtain b v1 where r: "dfs name deps items d v = (b, v1)" by fastforce
  with 3(1,2) 3(3) [OF r [symmetric]] show ?case
    by (cases b) (auto simp: dfs_any.psimps)
qed

definition unseen :: "('a \<Rightarrow> string) \<Rightarrow> 'a list \<Rightarrow> (string, int) gomap \<Rightarrow> nat" where
  "unseen name items v = card (name ` set items - seen v)"

lemma unseen_mono: "seen v \<subseteq> seen v' \<Longrightarrow> unseen name items v' \<le> unseen name items v"
  unfolding unseen_def by (rule card_mono) auto

lemma unseen_less:
  assumes "find (\<lambda>item. name item = cur) items = Some item" "cur \<notin> seen v"
  shows "unseen name items (AList.update cur 1 v) < unseen name items v"
proof -
  from assms(1) have "cur \<in> name ` set items" by (auto dest: find_SomeD)
  with assms(2) have "name ` set items - seen (AList.update cur 1 v) \<subset> name ` set items - seen v"
    by auto
  then show ?thesis unfolding unseen_def by (rule psubset_card_mono [rotated]) simp
qed

termination dfs
proof (relation "inv_image (less_than <*lex*> less_than)
    (\<lambda>x. case x of Inl (name, deps, items, cur, v) \<Rightarrow> (unseen name items v, 0)
                 | Inr (name, deps, items, ds, v) \<Rightarrow> (unseen name items v, Suc (length ds)))", goal_cases)
  case 1
  then show ?case by auto
next
  case (2 name deps items cur v v1 item)
  then show ?case using unseen_less [of name cur items item v] by (auto simp: seen_def)
next
  case (3 name deps items d ds v)
  then show ?case by simp
next
  case (4 name deps items d ds v found v')
  then have "seen v \<subseteq> seen v'" using dfs_dom_mono(1) [of name deps items d v] by (metis snd_conv)
  then have "unseen name items v' \<le> unseen name items v" by (rule unseen_mono)
  then show ?case by auto
qed

declare dfs.simps [simp del]

text \<open>The loop over the items that starts a search from each: the first one that finds a cycle.\<close>

fun dfs_items :: "('a \<Rightarrow> string) \<Rightarrow> ('a \<Rightarrow> string list) \<Rightarrow> 'a list \<Rightarrow> 'a list \<Rightarrow> (string, int) gomap \<Rightarrow> string option" where
  "dfs_items name deps items [] visited = None"
| "dfs_items name deps items (i # is) visited =
     (case dfs name deps items (name i) visited of
        (found, visited) \<Rightarrow> if found then Some (name i) else dfs_items name deps items is visited)"

definition item_names :: "('a \<Rightarrow> string) \<Rightarrow> 'a list \<Rightarrow> (string, bool) gomap" where
  "item_names name items = foldl (\<lambda>m item. AList.update (name item) True m) [] items"

text \<open>The first dependency, in the order of the nested loops, that is no item's name.\<close>

definition unknown_dep :: "('a \<Rightarrow> string) \<Rightarrow> ('a \<Rightarrow> string list) \<Rightarrow> 'a list \<Rightarrow> ('a \<times> string) option" where
  "unknown_dep name deps items =
     (let names = item_names name items
      in find (\<lambda>(item, dep). \<not> mget False names dep)
           (concat (map (\<lambda>item. map (Pair item) (deps item)) items)))"

definition cycleDetector :: "'a list \<Rightarrow> ('a \<Rightarrow> string) \<Rightarrow> ('a \<Rightarrow> string list) \<Rightarrow> string \<Rightarrow> string" where
  "cycleDetector items name deps kind =
     (case unknown_dep name deps items of
        Some (item, dep) \<Rightarrow>
          kind @ '' '' @ quote (name item) @ '' depends on unknown '' @ kind @ '' '' @ quote dep
      | None \<Rightarrow>
          (case dfs_items name deps items items [] of
             Some n \<Rightarrow> ''cycle detected involving '' @ kind @ '' '' @ quote n
           | None \<Rightarrow> []))"

definition detectCycle :: "WorkflowStep list \<Rightarrow> string" where
  "detectCycle steps = cycleDetector steps st_Name st_DependsOn ''step''"

definition detectJobCycle :: "JobSpec list \<Rightarrow> string" where
  "detectJobCycle jobs = cycleDetector jobs js_Name js_Needs ''job''"

subsection \<open>The graph and the colours\<close>

text \<open>The edge from an item to each of its dependencies.\<close>

definition dep_rel :: "('a \<Rightarrow> string) \<Rightarrow> ('a \<Rightarrow> string list) \<Rightarrow> 'a list \<Rightarrow> (string \<times> string) set" where
  "dep_rel name deps items =
     {(n, d). \<exists>item. find (\<lambda>i. name i = n) items = Some item \<and> d \<in> set (deps item)}"

definition gray :: "(string, int) gomap \<Rightarrow> string set" where
  "gray v = {n. mget 0 v n = 1}"

definition black :: "(string, int) gomap \<Rightarrow> string set" where
  "black v = {n. mget 0 v n = 2}"

lemma colour_update [simp]:
  "gray (AList.update n 1 v) = insert n (gray v)"
  "black (AList.update n 1 v) = black v - {n}"
  "gray (AList.update n 2 v) = gray v - {n}"
  "black (AList.update n 2 v) = insert n (black v)"
  by (auto simp: gray_def black_def)

lemma colour_mem: "mget 0 v n = 1 \<longleftrightarrow> n \<in> gray v" "mget 0 v n = 2 \<longleftrightarrow> n \<in> black v"
  by (auto simp: gray_def black_def)

lemma gray_black: "n \<in> gray v \<Longrightarrow> n \<notin> black v"
  by (simp add: gray_def black_def)

text \<open>One call of the search, by the colour of its node.\<close>

lemma dfs_eq:
  "dfs name deps items cur v =
     (if cur \<in> gray v then (True, v) else if cur \<in> black v then (False, v)
      else case find (\<lambda>item. name item = cur) items of
             None \<Rightarrow> (False, AList.update cur 2 (AList.update cur 1 v))
           | Some item \<Rightarrow>
               let r = dfs_any name deps items (deps item) (AList.update cur 1 v)
               in if fst r then (True, snd r) else (False, AList.update cur 2 (snd r)))"
  by (subst dfs.simps) (auto simp: colour_mem [symmetric] Let_def split: option.split prod.split)

lemma dfs_any_Cons:
  "dfs_any name deps items (d # ds) v =
     (let r = dfs name deps items d v
      in if fst r then (True, snd r) else dfs_any name deps items ds (snd r))"
  by (simp add: Let_def split: prod.split)

declare dfs_any.simps(2) [simp del]

lemma dfs_induct [case_names dfs Nil Cons]:
  assumes "\<And>name deps items cur v.
      (\<And>item. cur \<notin> gray v \<Longrightarrow> cur \<notin> black v \<Longrightarrow> find (\<lambda>item. name item = cur) items = Some item \<Longrightarrow>
         Q name deps items (deps item) (AList.update cur 1 v)) \<Longrightarrow> P name deps items cur v"
    and "\<And>name deps items v. Q name deps items [] v"
    and "\<And>name deps items d ds v. P name deps items d v \<Longrightarrow>
      (\<not> fst (dfs name deps items d v) \<Longrightarrow> Q name deps items ds (snd (dfs name deps items d v))) \<Longrightarrow>
      Q name deps items (d # ds) v"
  shows "P name deps items cur v" and "Q name deps items ds v"
proof (induction name deps items cur v and name deps items ds v rule: dfs_dfs_any.induct)
  case (1 name deps items cur v)
  then show ?case by (intro assms(1)) (simp add: colour_mem)
next
  case (2 name deps items v)
  then show ?case by (rule assms(2))
next
  case (3 name deps items d ds v)
  then show ?case by (intro assms(3)) (auto simp: prod_eq_iff)
qed

text \<open>A search that finds nothing leaves the stack as it was.\<close>

lemma dfs_gray:
  "\<not> fst (dfs name deps items cur v) \<Longrightarrow> gray (snd (dfs name deps items cur v)) = gray v"
  "\<not> fst (dfs_any name deps items ds v) \<Longrightarrow> gray (snd (dfs_any name deps items ds v)) = gray v"
proof (induction name deps items cur v and name deps items ds v rule: dfs_induct)
  case (dfs name deps items cur v)
  then show ?case
    by (auto simp: dfs_eq [of name deps items cur v] Let_def split: option.splits if_splits)
next
  case (Cons name deps items d ds v)
  then show ?case by (auto simp: dfs_any_Cons Let_def split: if_splits)
qed simp

text \<open>
  The invariant of the finished nodes: they are closed under dependencies and none lies on a
  cycle.  A search that finds nothing keeps it and finishes its nodes.
\<close>

definition finished_ok :: "(string \<times> string) set \<Rightarrow> (string, int) gomap \<Rightarrow> bool" where
  "finished_ok R v \<longleftrightarrow> (\<forall>n \<in> black v. (n, n) \<notin> R\<^sup>+ \<and> (\<forall>d. (n, d) \<in> R \<longrightarrow> d \<in> black v))"

lemma closed_trancl:
  assumes "(a, b) \<in> R\<^sup>+" "a \<in> B" "\<forall>n \<in> B. \<forall>d. (n, d) \<in> R \<longrightarrow> d \<in> B"
  shows "b \<in> B"
  using assms by (induction rule: trancl_induct) auto

lemma finished_ok_finish:
  assumes ok: "finished_ok R v" and deps: "\<forall>d. (cur, d) \<in> R \<longrightarrow> d \<in> black v" and cur: "cur \<notin> black v"
  shows "finished_ok R (AList.update cur 2 v)"
proof -
  have closed: "\<forall>n \<in> black v. \<forall>d. (n, d) \<in> R \<longrightarrow> d \<in> black v"
    using ok by (auto simp: finished_ok_def)
  have "(cur, cur) \<notin> R\<^sup>+"
  proof
    assume "(cur, cur) \<in> R\<^sup>+"
    then obtain d where "(cur, d) \<in> R" "d = cur \<or> (d, cur) \<in> R\<^sup>+"
      by (meson converse_tranclE)
    with deps have "cur \<in> black v" using closed_trancl [OF _ _ closed] by blast
    with cur show False ..
  qed
  with ok deps show ?thesis by (auto simp: finished_ok_def)
qed

lemma dfs_finished:
  "\<not> fst (dfs name deps items cur v) \<Longrightarrow> finished_ok (dep_rel name deps items) v \<Longrightarrow>
     finished_ok (dep_rel name deps items) (snd (dfs name deps items cur v)) \<and>
     black v \<subseteq> black (snd (dfs name deps items cur v)) \<and> cur \<in> black (snd (dfs name deps items cur v))"
  "\<not> fst (dfs_any name deps items ds v) \<Longrightarrow> finished_ok (dep_rel name deps items) v \<Longrightarrow>
     finished_ok (dep_rel name deps items) (snd (dfs_any name deps items ds v)) \<and>
     black v \<subseteq> black (snd (dfs_any name deps items ds v)) \<and>
     set ds \<subseteq> black (snd (dfs_any name deps items ds v))"
proof (induction name deps items cur v and name deps items ds v rule: dfs_induct)
  case (dfs name deps items cur v)
  let ?R = "dep_rel name deps items" and ?v1 = "AList.update cur 1 v"
  show ?case
  proof (cases "cur \<in> gray v \<or> cur \<in> black v")
    case True
    with dfs.prems show ?thesis by (auto simp: dfs_eq [of name deps items cur v] split: if_splits)
  next
    case new: False
    with dfs.prems(2) have ok1: "finished_ok ?R ?v1" by (auto simp: finished_ok_def)
    show ?thesis
    proof (cases "find (\<lambda>item. name item = cur) items")
      case None
      then have "\<forall>d. (cur, d) \<in> ?R \<longrightarrow> d \<in> black ?v1" by (auto simp: dep_rel_def)
      with ok1 have "finished_ok ?R (AList.update cur 2 ?v1)"
        by (rule finished_ok_finish) simp
      with None new show ?thesis by (auto simp: dfs_eq [of name deps items cur v])
    next
      case (Some item)
      let ?r = "dfs_any name deps items (deps item) ?v1"
      from new Some dfs.prems have nf: "\<not> fst ?r"
        by (auto simp: dfs_eq [of name deps items cur v] Let_def split: if_splits)
      from dfs.IH new Some nf ok1 have IH: "finished_ok ?R (snd ?r)" "black ?v1 \<subseteq> black (snd ?r)"
          "set (deps item) \<subseteq> black (snd ?r)" by auto
      from dfs_gray(2) [OF nf] have "cur \<notin> black (snd ?r)" by (intro gray_black) simp
      moreover from IH(3) Some have "\<forall>d. (cur, d) \<in> ?R \<longrightarrow> d \<in> black (snd ?r)"
        by (auto simp: dep_rel_def)
      ultimately have "finished_ok ?R (AList.update cur 2 (snd ?r))"
        using IH(1) by (intro finished_ok_finish)
      with IH(2) new Some nf show ?thesis by (auto simp: dfs_eq [of name deps items cur v])
    qed
  qed
next
  case (Cons name deps items d ds v)
  then show ?case by (auto simp: dfs_any_Cons Let_def split: if_splits)
qed simp

text \<open>A search that reports a cycle is right, if every node on the stack leads to its node.\<close>

lemma dfs_found:
  "fst (dfs name deps items cur v) \<Longrightarrow> \<forall>g \<in> gray v. (g, cur) \<in> (dep_rel name deps items)\<^sup>+ \<Longrightarrow>
     \<exists>x. (x, x) \<in> (dep_rel name deps items)\<^sup>+"
  "fst (dfs_any name deps items ds v) \<Longrightarrow>
     \<forall>g \<in> gray v. \<forall>d \<in> set ds. (g, d) \<in> (dep_rel name deps items)\<^sup>+ \<Longrightarrow>
     \<exists>x. (x, x) \<in> (dep_rel name deps items)\<^sup>+"
proof (induction name deps items cur v and name deps items ds v rule: dfs_induct)
  case (dfs name deps items cur v)
  let ?R = "dep_rel name deps items"
  show ?case
  proof (cases "cur \<in> gray v")
    case True
    with dfs.prems show ?thesis by blast
  next
    case False
    with dfs.prems(1) obtain item where new: "cur \<notin> black v" and
      item: "find (\<lambda>item. name item = cur) items = Some item" and
      found: "fst (dfs_any name deps items (deps item) (AList.update cur 1 v))"
      by (auto simp: dfs_eq [of name deps items cur v] Let_def split: option.splits if_splits)
    have edge: "(cur, d) \<in> ?R" if "d \<in> set (deps item)" for d
      using that item by (auto simp: dep_rel_def)
    with dfs.prems(2) have "\<forall>g \<in> gray (AList.update cur 1 v). \<forall>d \<in> set (deps item). (g, d) \<in> ?R\<^sup>+"
      by (auto intro: trancl.trancl_into_trancl)
    with dfs.IH [OF False new item found] show ?thesis by blast
  qed
next
  case (Cons name deps items d ds v)
  then show ?case by (auto simp: dfs_any_Cons dfs_gray Let_def split: if_splits)
qed simp

lemma dfs_items_None:
  "dfs_items name deps items is v = None \<Longrightarrow> finished_ok (dep_rel name deps items) v \<Longrightarrow>
     \<exists>v'. finished_ok (dep_rel name deps items) v' \<and> black v \<subseteq> black v' \<and> name ` set is \<subseteq> black v'"
proof (induction "is" arbitrary: v)
  case (Cons i "is")
  let ?r = "dfs name deps items (name i) v"
  from Cons.prems(1) have nf: "\<not> fst ?r" and rest: "dfs_items name deps items is (snd ?r) = None"
    by (auto split: prod.splits if_splits)
  from dfs_finished(1) [OF nf Cons.prems(2)] have ok: "finished_ok (dep_rel name deps items) (snd ?r)"
    and sub: "black v \<subseteq> black (snd ?r)" and i: "name i \<in> black (snd ?r)" by auto
  from Cons.IH [OF rest ok] obtain v' where "finished_ok (dep_rel name deps items) v'"
    "black (snd ?r) \<subseteq> black v'" "name ` set is \<subseteq> black v'" by blast
  with sub i show ?case by (intro exI [of _ v']) auto
qed auto

lemma dfs_items_Some:
  "dfs_items name deps items is v = Some n \<Longrightarrow> gray v = {} \<Longrightarrow> \<exists>x. (x, x) \<in> (dep_rel name deps items)\<^sup>+"
proof (induction "is" arbitrary: v)
  case (Cons i "is")
  let ?r = "dfs name deps items (name i) v"
  show ?case
  proof (cases "fst ?r")
    case True
    with Cons.prems(2) show ?thesis by (auto dest: dfs_found(1))
  next
    case False
    with Cons.prems(1) have "dfs_items name deps items is (snd ?r) = Some n" by (auto split: prod.splits)
    with Cons.IH Cons.prems(2) dfs_gray(1) [OF False] show ?thesis by simp
  qed
qed simp

lemma dfs_items_acyclic: "dfs_items name deps items items [] = None \<longleftrightarrow> acyclic (dep_rel name deps items)"
proof
  assume "dfs_items name deps items items [] = None"
  from dfs_items_None [OF this] obtain v where ok: "finished_ok (dep_rel name deps items) v"
    and all: "name ` set items \<subseteq> black v"
    by (auto simp: finished_ok_def black_def)
  show "acyclic (dep_rel name deps items)"
  proof (rule acyclicI, rule allI, rule notI)
    fix x assume cyc: "(x, x) \<in> (dep_rel name deps items)\<^sup>+"
    then obtain d where "(x, d) \<in> dep_rel name deps items" by (meson tranclD)
    then have "x \<in> name ` set items" by (auto simp: dep_rel_def dest: find_SomeD)
    with all ok cyc show False by (auto simp: finished_ok_def)
  qed
next
  assume "acyclic (dep_rel name deps items)"
  then show "dfs_items name deps items items [] = None"
    using dfs_items_Some [of name deps items items "[]"]
    by (cases "dfs_items name deps items items []") (auto simp: acyclic_def gray_def)
qed

lemma mget_item_names: "mget False (item_names name items) n \<longleftrightarrow> n \<in> name ` set items"
proof -
  have "mget False (foldl (\<lambda>m item. AList.update (name item) True m) m0 items) n \<longleftrightarrow>
      n \<in> name ` set items \<or> mget False m0 n" for m0
    by (induction items arbitrary: m0) auto
  then show ?thesis by (simp add: item_names_def)
qed

lemma unknown_dep_None:
  "unknown_dep name deps items = None \<longleftrightarrow> (\<forall>i \<in> set items. set (deps i) \<subseteq> name ` set items)"
  by (force simp: unknown_dep_def Let_def find_None_iff mget_item_names)

lemma cycleDetector_empty_iff:
  "cycleDetector items name deps kind = [] \<longleftrightarrow>
     (\<forall>i \<in> set items. set (deps i) \<subseteq> name ` set items) \<and> acyclic (dep_rel name deps items)"
  unfolding unknown_dep_None [symmetric] dfs_items_acyclic [symmetric]
  by (auto simp: cycleDetector_def quote_def split: option.splits)

section \<open>topologicalSortSteps\<close>

text \<open>The edges of the second loop, in the order it visits them: dependency, dependant.\<close>

definition edges_of :: "WorkflowStep list \<Rightarrow> (string \<times> string) list" where
  "edges_of steps = concat (map (\<lambda>s. map (\<lambda>dep. (dep, st_Name s)) (st_DependsOn s)) steps)"

definition count_edges ::
  "(string \<times> string) list \<Rightarrow> (string, string list) gomap \<times> (string, int) gomap \<Rightarrow>
   (string, string list) gomap \<times> (string, int) gomap" where
  "count_edges es st =
     foldl (\<lambda>(children, inDegree) (dep, n).
              (AList.update dep (mget [] children dep @ [n]) children,
               AList.update n (mget 0 inDegree n + 1) inDegree)) st es"

text \<open>The inner loop: one dependency of each child is satisfied.\<close>

fun relax :: "string list \<Rightarrow> (string, int) gomap \<Rightarrow> string list \<Rightarrow> (string, int) gomap \<times> string list" where
  "relax [] inDegree queue = (inDegree, queue)"
| "relax (child # cs) inDegree queue =
     (let inDegree = AList.update child (mget 0 inDegree child - 1) inDegree
      in relax cs inDegree (if mget 0 inDegree child = 0 then queue @ [child] else queue))"

definition pending_degree :: "(string, int) gomap \<Rightarrow> nat" where
  "pending_degree inDegree = sum_list (map (nat \<circ> snd) inDegree)"

lemma pending_degree_update:
  "pending_degree (AList.update k v m) + nat (mget 0 m k) = pending_degree m + nat v"
  by (induction m) (auto simp: pending_degree_def mget_def)

lemma relax_measure:
  "length (snd (relax cs d q)) + pending_degree (fst (relax cs d q)) \<le> length q + pending_degree d"
proof (induction cs arbitrary: d q)
  case (Cons c cs)
  let ?d = "AList.update c (mget 0 d c - 1) d"
  have "length (if mget 0 ?d c = 0 then q @ [c] else q) + pending_degree ?d \<le> length q + pending_degree d"
    using pending_degree_update [of c "mget 0 d c - 1" d] by auto
  with Cons.IH [of ?d "if mget 0 ?d c = 0 then q @ [c] else q"] show ?case
    by (simp add: Let_def)
qed simp

function kahn :: "(string, string list) gomap \<Rightarrow> (string, WorkflowStep) gomap \<Rightarrow> (string, int) gomap \<Rightarrow>
    string list \<Rightarrow> WorkflowStep list \<Rightarrow> WorkflowStep list" where
  "kahn children byName inDegree [] out = out"
| "kahn children byName inDegree (name # queue) out =
     (let (inDegree, queue) = relax (mget [] children name) inDegree queue
      in kahn children byName inDegree queue (out @ [mget zero_WorkflowStep byName name]))"
  by pat_completeness auto
termination
proof (relation "measure (\<lambda>(children, byName, inDegree, queue, out). length queue + pending_degree inDegree)", goal_cases)
  case 1
  then show ?case by simp
next
  case (2 children byName inDegree name queue out r d q)
  then show ?case using relax_measure [of "mget [] children name" inDegree queue]
    by (simp add: prod_eq_iff)
qed

definition topologicalSortSteps :: "WorkflowStep list \<Rightarrow> WorkflowStep list" where
  "topologicalSortSteps steps =
     (let inDegree = foldl (\<lambda>m s. AList.update (st_Name s) 0 m) [] steps;
          byName = index_by st_Name steps;
          (children, inDegree) = count_edges (edges_of steps) ([], inDegree);
          queue = map st_Name (filter (\<lambda>s. mget 0 inDegree (st_Name s) = 0) steps)
      in kahn children byName inDegree queue [])"

lemma count_edges_spec:
  "mget [] (fst (count_edges es (ch, ind))) d = mget [] ch d @ map snd (filter (\<lambda>x. fst x = d) es)"
  "mget 0 (snd (count_edges es (ch, ind))) n = mget 0 ind n + int (length (filter (\<lambda>x. snd x = n) es))"
  by (induction es arbitrary: ch ind) (auto simp: count_edges_def split: prod.split)

lemma relax_spec:
  assumes "\<forall>n. int (count_list cs n) \<le> mget 0 ind n \<or> n \<notin> set cs"
  shows "(\<forall>n. mget 0 (fst (relax cs ind q)) n = mget 0 ind n - int (count_list cs n)) \<and>
    (\<exists>new. snd (relax cs ind q) = q @ new \<and> distinct new \<and>
       set new = {n \<in> set cs. mget 0 ind n = int (count_list cs n)})"
  using assms
proof (induction cs arbitrary: ind q)
  case (Cons c cs)
  let ?ind = "AList.update c (mget 0 ind c - 1) ind"
  let ?q = "if mget 0 ?ind c = 0 then q @ [c] else q"
  have pre: "\<forall>n. int (count_list cs n) \<le> mget 0 ?ind n \<or> n \<notin> set cs"
    using Cons.prems by (auto split: if_splits)
  note IH = Cons.IH [OF pre, of ?q]
  then obtain new where new: "snd (relax cs ?ind ?q) = ?q @ new" "distinct new"
    "set new = {n \<in> set cs. mget 0 ?ind n = int (count_list cs n)}" by blast
  have zero: "c \<notin> set cs" if "mget 0 ?ind c = 0"
    using that pre by (metis count_list_0_iff of_nat_le_0_iff)
  have "\<exists>new. snd (relax (c # cs) ind q) = q @ new \<and> distinct new \<and>
      set new = {n \<in> set (c # cs). mget 0 ind n = int (count_list (c # cs) n)}"
  proof (cases "mget 0 ?ind c = 0")
    case True
    from zero [OF True] have c: "count_list cs c = 0" "c \<notin> set cs" by (simp_all add: count_list_0_iff)
    from new(3) c have "set (c # new) = {n \<in> set (c # cs). mget 0 ind n = int (count_list (c # cs) n)}"
      using True by auto
    moreover from c new(3) have "distinct (c # new)" using new(2) by simp
    moreover have "snd (relax (c # cs) ind q) = q @ (c # new)" using new(1) True by simp
    ultimately show ?thesis by blast
  next
    case False
    have "c \<in> set cs \<or> mget 0 ind c \<noteq> int (count_list (c # cs) c)"
      using False by (cases "c \<in> set cs") (simp_all add: count_notin)
    with new(3) have "set new = {n \<in> set (c # cs). mget 0 ind n = int (count_list (c # cs) n)}"
      by auto
    moreover have "snd (relax (c # cs) ind q) = q @ new" using new(1) False by simp
    ultimately show ?thesis using new(2) by blast
  qed
  moreover have "\<forall>n. mget 0 (fst (relax (c # cs) ind q)) n = mget 0 ind n - int (count_list (c # cs) n)"
    using IH by (auto simp: Let_def)
  ultimately show ?case by blast
qed simp


subsection \<open>Correctness of the sort\<close>

text \<open>
  The loop's invariant, with \<open>P\<close> the names already popped: a step is queued or popped exactly
  when none of its edges starts at a step that has yet to be popped.
\<close>

definition open_edges :: "WorkflowStep list \<Rightarrow> string list \<Rightarrow> string \<Rightarrow> (string \<times> string) list" where
  "open_edges steps P n = filter (\<lambda>x. snd x = n \<and> fst x \<notin> set P) (edges_of steps)"

definition kahn_inv :: "WorkflowStep list \<Rightarrow> (string, int) gomap \<Rightarrow> string list \<Rightarrow> string list \<Rightarrow> bool" where
  "kahn_inv steps ind P Q \<longleftrightarrow>
     distinct (P @ Q) \<and> set (P @ Q) \<subseteq> st_Name ` set steps \<and>
     (\<forall>n. mget 0 ind n = int (length (open_edges steps P n))) \<and>
     (\<forall>n \<in> st_Name ` set steps. n \<in> set (P @ Q) \<longleftrightarrow> mget 0 ind n = 0) \<and>
     (\<forall>i < length P. open_edges steps (take i P) (P ! i) = [])"

lemma edges_of_iff: "(d, n) \<in> set (edges_of steps) \<longleftrightarrow> (\<exists>s \<in> set steps. st_Name s = n \<and> d \<in> set (st_DependsOn s))"
  by (auto simp: edges_of_def)

lemma open_edges_split:
  assumes "x \<notin> set P"
  shows "length (open_edges steps P n) =
    length (open_edges steps (P @ [x]) n) + count_list (map snd (filter (\<lambda>e. fst e = x) (edges_of steps))) n"
proof -
  have "length (filter (\<lambda>e. snd e = n \<and> fst e \<notin> set P) es) =
      length (filter (\<lambda>e. snd e = n \<and> fst e \<notin> set (P @ [x])) es) +
      count_list (map snd (filter (\<lambda>e. fst e = x) es)) n" for es :: "(string \<times> string) list"
    using assms by (induction es) auto
  then show ?thesis unfolding open_edges_def .
qed

lemma kahn_inv_step:
  assumes inv: "kahn_inv steps ind P (x # Q)"
    and cs: "cs = map snd (filter (\<lambda>e. fst e = x) (edges_of steps))"
  shows "kahn_inv steps (fst (relax cs ind Q)) (P @ [x]) (snd (relax cs ind Q))"
proof -
  let ?names = "st_Name ` set steps"
  from inv have x: "x \<notin> set P" "x \<in> ?names" and dist: "distinct (P @ x # Q)"
    and sub: "set (P @ x # Q) \<subseteq> ?names"
    and deg: "\<And>n. mget 0 ind n = int (length (open_edges steps P n))"
    and mem: "\<And>n. n \<in> ?names \<Longrightarrow> n \<in> set (P @ x # Q) \<longleftrightarrow> mget 0 ind n = 0"
    and ord: "\<And>i. i < length P \<Longrightarrow> open_edges steps (take i P) (P ! i) = []"
    unfolding kahn_inv_def by auto
  note split = open_edges_split [OF x(1), of steps, folded cs]
  have "\<forall>n. int (count_list cs n) \<le> mget 0 ind n \<or> n \<notin> set cs"
    using split deg by simp
  from relax_spec [OF this, of Q] obtain new where
    deg': "\<And>n. mget 0 (fst (relax cs ind Q)) n = mget 0 ind n - int (count_list cs n)" and
    new: "snd (relax cs ind Q) = Q @ new" "distinct new"
         "set new = {n \<in> set cs. mget 0 ind n = int (count_list cs n)}" by blast
  have open': "mget 0 (fst (relax cs ind Q)) n = int (length (open_edges steps (P @ [x]) n))" for n
    using deg' deg split by simp
  have names: "set cs \<subseteq> ?names" using cs by (auto simp: edges_of_iff)
  have pos: "mget 0 ind n \<noteq> 0" if "n \<in> set new" for n
    using that new(3) by (auto simp: count_list_0_iff)
  have fresh: "set (P @ x # Q) \<inter> set new = {}" using pos mem new(3) names by blast
  have mem': "n \<in> set (P @ x # Q @ new) \<longleftrightarrow> mget 0 (fst (relax cs ind Q)) n = 0" if "n \<in> ?names" for n
  proof (cases "mget 0 ind n = 0")
    case True
    then show ?thesis using mem [OF that] deg [of n] split [of n] deg' [of n] by auto
  next
    case False
    then have "n \<notin> set (P @ x # Q)" using mem [OF that] by blast
    moreover have "n \<in> set new \<longleftrightarrow> mget 0 ind n = int (count_list cs n)"
      using new(3) False by (auto simp: count_notin)
    ultimately show ?thesis using deg' [of n] by auto
  qed
  have "open_edges steps P x = []" using mem [OF x(2)] deg [of x] by simp
  with ord have "open_edges steps (take i (P @ [x])) ((P @ [x]) ! i) = []" if "i < length (P @ [x])" for i
    using that by (cases "i < length P") (auto simp: nth_append less_Suc_eq)
  moreover have "distinct (P @ x # Q @ new)" using dist new(2) fresh by auto
  moreover have "set (P @ x # Q @ new) \<subseteq> ?names" using sub new(3) names by auto
  ultimately show ?thesis unfolding kahn_inv_def using new(1) open' mem' by simp
qed

lemma kahn_run:
  assumes "kahn_inv steps ind P Q"
    and "\<And>d. mget [] children d = map snd (filter (\<lambda>e. fst e = d) (edges_of steps))"
  shows "\<exists>ind' P'. kahn children byName ind Q (map (mget zero_WorkflowStep byName) P) =
           map (mget zero_WorkflowStep byName) P' \<and> kahn_inv steps ind' P' []"
  using assms
proof (induction children byName ind Q "map (mget zero_WorkflowStep byName) P" arbitrary: P rule: kahn.induct)
  case (1 children byName ind)
  then show ?case by auto
next
  case (2 children byName ind x Q)
  let ?r = "relax (mget [] children x) ind Q"
  have "kahn_inv steps (fst ?r) (P @ [x]) (snd ?r)"
    by (rule kahn_inv_step [OF 2(2)]) (rule 2(3))
  then have "\<exists>ind' P'. kahn children byName (fst ?r) (snd ?r) (map (mget zero_WorkflowStep byName) (P @ [x])) =
       map (mget zero_WorkflowStep byName) P' \<and> kahn_inv steps ind' P' []"
    by (intro 2(1)) (simp_all add: 2(3))
  then show ?case by (simp add: split_beta)
qed

lemma kahn_inv_init:
  assumes "distinct (map st_Name steps)"
    and "\<And>n. mget 0 ind n = int (length (filter (\<lambda>e. snd e = n) (edges_of steps)))"
  shows "kahn_inv steps ind [] (map st_Name (filter (\<lambda>s. mget 0 ind (st_Name s) = 0) steps))"
  using assms unfolding kahn_inv_def
  by (auto simp: open_edges_def intro: distinct_map_filter)

lemma mget_zeros: "mget (0::int) (foldl (\<lambda>m s. AList.update (st_Name s) 0 m) m0 steps) n = (if n \<in> st_Name ` set steps then 0 else mget 0 m0 n)"
  by (induction steps arbitrary: m0) auto

lemma topologicalSortSteps_run:
  assumes "distinct (map st_Name steps)"
  obtains ind P where "topologicalSortSteps steps = map (mget zero_WorkflowStep (index_by st_Name steps)) P"
    and "kahn_inv steps ind P []"
proof -
  let ?z = "foldl (\<lambda>m s. AList.update (st_Name s) 0 m) [] steps"
  let ?c = "count_edges (edges_of steps) ([], ?z)"
  let ?Q = "map st_Name (filter (\<lambda>s. mget 0 (snd ?c) (st_Name s) = 0) steps)"
  have "kahn_inv steps (snd ?c) [] ?Q"
    by (rule kahn_inv_init [OF assms]) (simp add: count_edges_spec mget_zeros)
  from kahn_run [OF this, of "fst ?c" "index_by st_Name steps"] that show ?thesis
    by (fastforce simp: topologicalSortSteps_def split_beta count_edges_spec)
qed

lemma topologicalSortSteps_names:
  assumes "distinct (map st_Name steps)"
  obtains ind where "kahn_inv steps ind (map st_Name (topologicalSortSteps steps)) []"
    and "set (topologicalSortSteps steps) \<subseteq> set steps"
proof -
  let ?get = "mget zero_WorkflowStep (index_by st_Name steps)"
  have get: "?get (st_Name s) = s" if "s \<in> set steps" for s
    using that assms by (simp add: mget_def map_of_index_by_distinct find_key_distinct)
  from topologicalSortSteps_run [OF assms] obtain ind P where
    out: "topologicalSortSteps steps = map ?get P" and inv: "kahn_inv steps ind P []" .
  from inv have sub: "set P \<subseteq> st_Name ` set steps" by (simp add: kahn_inv_def)
  then have "map (st_Name \<circ> ?get) P = P" using get by (intro map_idI) auto
  with inv out sub get show ?thesis by (intro that [of ind]) auto
qed

lemma topologicalSortSteps_subset: "distinct (map st_Name steps) \<Longrightarrow> set (topologicalSortSteps steps) \<subseteq> set steps"
  by (rule topologicalSortSteps_names)

lemma topologicalSortSteps_distinct:
  "distinct (map st_Name steps) \<Longrightarrow> distinct (map st_Name (topologicalSortSteps steps))"
  by (rule topologicalSortSteps_names) (auto simp: kahn_inv_def)

lemma topologicalSortSteps_order:
  assumes "distinct (map st_Name steps)" "topologicalSortSteps steps = xs @ s # ys"
  shows "set (st_DependsOn s) \<subseteq> st_Name ` set xs"
proof -
  from topologicalSortSteps_names [OF assms(1)] obtain ind where
    inv: "kahn_inv steps ind (map st_Name (topologicalSortSteps steps)) []"
    and sub: "set (topologicalSortSteps steps) \<subseteq> set steps" .
  let ?P = "map st_Name (topologicalSortSteps steps)"
  from inv have "\<forall>i < length ?P. open_edges steps (take i ?P) (?P ! i) = []" by (simp add: kahn_inv_def)
  moreover have "length xs < length ?P" "take (length xs) ?P = map st_Name xs" "?P ! length xs = st_Name s"
    by (simp_all add: assms(2) nth_append)
  ultimately have "open_edges steps (map st_Name xs) (st_Name s) = []" by metis
  then have "(d, st_Name s) \<in> set (edges_of steps) \<Longrightarrow> d \<in> st_Name ` set xs" for d
    by (force simp: open_edges_def filter_empty_conv)
  moreover from sub assms(2) have "s \<in> set steps" by auto
  ultimately show ?thesis by (auto simp: edges_of_iff)
qed

lemma finite_dep_rel: "finite (dep_rel name deps items)"
proof (rule finite_subset)
  show "dep_rel name deps items \<subseteq> (\<Union>i \<in> set items. {name i} \<times> set (deps i))"
    by (auto simp: dep_rel_def dest!: find_SomeD)
qed auto

lemma topologicalSortSteps_complete:
  assumes dist: "distinct (map st_Name steps)" and ok: "detectCycle steps = []"
  shows "mset (topologicalSortSteps steps) = mset steps"
proof -
  let ?R = "dep_rel st_Name st_DependsOn steps" and ?P = "map st_Name (topologicalSortSteps steps)"
  from topologicalSortSteps_names [OF dist] obtain ind where inv: "kahn_inv steps ind ?P []"
    and sub: "set (topologicalSortSteps steps) \<subseteq> set steps" .
  from ok have deps: "\<And>s. s \<in> set steps \<Longrightarrow> set (st_DependsOn s) \<subseteq> st_Name ` set steps"
    and acyc: "acyclic ?R" by (auto simp: detectCycle_def cycleDetector_empty_iff)
  from acyc have "wf (?R\<inverse>)" by (intro finite_acyclic_wf_converse finite_dep_rel)
  then have all: "n \<in> st_Name ` set steps \<longrightarrow> n \<in> set ?P" for n
  proof (induction n)
    case (less n)
    show ?case
    proof
      assume n: "n \<in> st_Name ` set steps"
      then obtain s where s: "s \<in> set steps" "n = st_Name s" by auto
      have "d \<in> set ?P" if "(d, n) \<in> set (edges_of steps)" for d
      proof -
        from that obtain t where t: "t \<in> set steps" "st_Name t = n" "d \<in> set (st_DependsOn t)"
          by (auto simp: edges_of_iff)
        with dist have "(n, d) \<in> ?R" by (auto simp: dep_rel_def find_key_distinct)
        moreover from deps t have "d \<in> st_Name ` set steps" by blast
        ultimately show ?thesis using less by blast
      qed
      then have "open_edges steps ?P n = []" by (auto simp: open_edges_def filter_empty_conv)
      with inv n show "n \<in> set ?P" by (auto simp: kahn_inv_def)
    qed
  qed
  have "st_Name ` set steps = st_Name ` set (topologicalSortSteps steps)" using all sub by auto
  with dist sub have "set (topologicalSortSteps steps) = set steps"
    by (auto simp: distinct_map dest: inj_onD)
  moreover have "distinct (topologicalSortSteps steps)"
    using inv by (simp add: kahn_inv_def distinct_map)
  ultimately show ?thesis using dist by (simp add: distinct_map set_eq_iff_mset_eq_distinct)
qed

text \<open>A step on a cycle never enters the queue; when every step waits for another, the sort is empty.\<close>

lemma topologicalSortSteps_all_waiting:
  assumes "list_all (\<lambda>s. st_DependsOn s \<noteq> []) steps"
  shows "topologicalSortSteps steps = []"
proof -
  let ?c = "count_edges (edges_of steps) ([], foldl (\<lambda>m s. AList.update (st_Name s) 0 m) [] steps)"
  have "mget 0 (snd ?c) (st_Name s) \<noteq> 0" if "s \<in> set steps" for s
  proof -
    from that assms obtain d where "d \<in> set (st_DependsOn s)" by (cases "st_DependsOn s") (auto simp: list_all_iff)
    with that have "(d, st_Name s) \<in> set (edges_of steps)" by (auto simp: edges_of_iff)
    then have "filter (\<lambda>e. snd e = st_Name s) (edges_of steps) \<noteq> []" by (force simp: filter_empty_conv)
    then show ?thesis using that by (simp add: count_edges_spec mget_zeros)
  qed
  then have "filter (\<lambda>s. mget 0 (snd ?c) (st_Name s) = 0) steps = []" by (simp add: filter_empty_conv)
  then show ?thesis by (simp add: topologicalSortSteps_def split_beta)
qed

section \<open>Properties\<close>

text \<open>
  C12. The validation is exact, for steps and for jobs: \<open>detectCycle\<close> and \<open>detectJobCycle\<close> return
  the empty message if and only if every dependency names an item of the list and the dependency
  relation has no cycle.
\<close>

theorem detectCycle_exact:
  "(detectCycle steps = [] \<longleftrightarrow>
      set (concat (map st_DependsOn steps)) \<subseteq> set (map st_Name steps) \<and>
      acyclic (dep_rel st_Name st_DependsOn steps)) \<and>
   (detectJobCycle jobs = [] \<longleftrightarrow>
      set (concat (map js_Needs jobs)) \<subseteq> set (map js_Name jobs) \<and>
      acyclic (dep_rel js_Name js_Needs jobs))"
  by (simp add: detectCycle_def detectJobCycle_def cycleDetector_empty_iff UN_subset_iff)

text \<open>
  C10. For a validated list of steps with distinct names \<open>topologicalSortSteps\<close> loses and
  duplicates nothing and puts every step after all of its dependencies.
\<close>

theorem topologicalSortSteps_correct:
  assumes "distinct (map st_Name steps)" and "detectCycle steps = []"
  shows "mset (topologicalSortSteps steps) = mset steps \<and>
    (\<forall>xs s ys. topologicalSortSteps steps = xs @ s # ys \<longrightarrow> set (st_DependsOn s) \<subseteq> st_Name ` set xs)"
  using topologicalSortSteps_complete [OF assms] topologicalSortSteps_order [OF assms(1)] by blast

definition diamond :: "WorkflowStep list" where
  "diamond = [zero_WorkflowStep\<lparr>st_Name := ''d'', st_DependsOn := [''b'', ''c'']\<rparr>,
              zero_WorkflowStep\<lparr>st_Name := ''b'', st_DependsOn := [''a'']\<rparr>,
              zero_WorkflowStep\<lparr>st_Name := ''c'', st_DependsOn := [''a'', ''b'']\<rparr>,
              zero_WorkflowStep\<lparr>st_Name := ''a''\<rparr>]"

theorem topologicalSortSteps_correct_witness:
  "mset (topologicalSortSteps diamond) = mset diamond \<and>
   map st_Name (topologicalSortSteps diamond) = [''a'', ''b'', ''c'', ''d'']"
proof -
  have "distinct (map st_Name diamond)" by code_simp
  moreover have "detectCycle diamond = []" by code_simp
  moreover have "map st_Name (topologicalSortSteps diamond) = [''a'', ''b'', ''c'', ''d'']" by code_simp
  ultimately show ?thesis using topologicalSortSteps_correct [of diamond] by blast
qed

end
