(* ===== verification/Workflow_Steps.thy ===== *)
theory Workflow_Steps
  imports Workflow_Status Dep_Graph
begin

text \<open>
  The step engine of \<open>internal/controller/workflow_controller.go\<close>: when a step may run, the Runner
  it is given, its retries with their backoff, the log excerpt of a failed Pod, and
  \<open>reconcileStepLoop\<close>, the loop flat Workflows and jobs share.  The loop's variables (the Workflow,
  the map of its step statuses, the \<open>updated\<close> flag) and the log of requests are the record
  \<open>step_loop\<close>, threaded through one definition per branch of its body.
\<close>

section \<open>evaluateStep\<close>

datatype stepDecision = stepSkip | stepWait | stepRun

definition defaultWhen :: string where
  "defaultWhen = ''on_success''"

definition evaluateStep :: "WorkflowStep \<Rightarrow> (string, StepStatus) gomap \<Rightarrow> stepDecision" where
  "evaluateStep step stepStatusMap =
     (if list_ex (\<lambda>dep. case map_of stepStatusMap dep of
                          None \<Rightarrow> True
                        | Some status \<Rightarrow> ss_Phase status = StepPhasePending
                            \<or> ss_Phase status = StepPhaseRunning \<or> ss_Phase status = StepPhaseWaiting)
           (st_DependsOn step)
      then stepWait
      else
        let when = TrimSpace (st_When step);
            when = (if when = [] then defaultWhen else when);
            allDepSucceeded =
              list_all (\<lambda>dep. case map_of stepStatusMap dep of
                                None \<Rightarrow> False
                              | Some status \<Rightarrow> ss_Phase status = StepPhaseSucceeded)
                (st_DependsOn step)
        in if when = ''always'' then stepRun
           else if when = ''on_failure'' then (if \<not> allDepSucceeded then stepRun else stepSkip)
           else (if allDepSucceeded then stepRun else stepSkip))"

section \<open>The Runner of a step\<close>

text \<open>
  \<open>strings.ToLower\<close> and then the mapping of \<open>sanitizeStepName\<close> on one rune.  Two runes beyond ASCII
  have an ASCII lower case, U+0130 and U+212A (the Kelvin sign); all others become a hyphen.
\<close>

definition sanitize_rune :: "rune \<Rightarrow> char" where
  "sanitize_rune r =
     (let r = (if 65 \<le> r \<and> r \<le> 90 then r + 32 else if r = 0x0130 then 105 else if r = 0x212A then 107 else r)
      in if 97 \<le> r \<and> r \<le> 122 \<or> 48 \<le> r \<and> r \<le> 57 \<or> r = 45 then char_of r else CHR ''-'')"

definition sanitizeStepName :: "string \<Rightarrow> string" where
  "sanitizeStepName name =
     (let sanitized = map sanitize_rune (runes name);
          sanitized = trim_by (\<lambda>c. c = CHR ''-'') sanitized;
          sanitized = (if length sanitized > 50 then take 50 sanitized else sanitized);
          sanitized = trim_by (\<lambda>c. c = CHR ''-'') sanitized
      in if sanitized = [] then ''step'' else sanitized)"

abbreviation workflow_label :: string where "workflow_label \<equiv> ''runner-operator.io/workflow''"
abbreviation step_label :: string where "step_label \<equiv> ''runner-operator.io/step''"
abbreviation job_label :: string where "job_label \<equiv> ''runner-operator.io/job''"

definition buildStepRunner :: "env \<Rightarrow> Workflow \<Rightarrow> WorkflowStep \<Rightarrow> world \<Rightarrow> Runner \<times> world" where
  "buildStepRunner e W step w =
     (let runnerName = wf_Name W @ ''-'' @ sanitizeStepName (st_Name step);
          spec = zero_RunnerSpec\<lparr>rs_Command := st_Command step, rs_Args := st_Args step,
                   rs_Env := st_Env step, rs_Volumes := st_Volumes step, rs_Mounts := st_Mounts step,
                   rs_ServiceAccountName := st_ServiceAccountName step\<rparr>;
          (spec, w) =
            (if st_Image step \<noteq> [] then (spec\<lparr>rs_Image := st_Image step\<rparr>, w)
             else case st_RunnerRef step of
               None \<Rightarrow> (spec\<lparr>rs_Image := ''busybox:latest''\<rparr>, w)
             | Some ref \<Rightarrow>
                 let ns = (if rr_Namespace ref \<noteq> [] then rr_Namespace ref else wf_Namespace W)
                 in (case e_GetRunner e w \<lparr>nn_Namespace = ns, nn_Name = rr_Name ref\<rparr> of
                       Inl _ \<Rightarrow> (spec\<lparr>rs_Image := ''busybox:latest''\<rparr>, w)
                     | Inr template \<Rightarrow>
                         let w = (if ns \<noteq> wf_Namespace W
                                  then emit (Event ''Normal'' ''CrossNamespaceRunnerRef''
                                         (''Resolved RunnerRef '' @ rr_Name ref @ ''/'' @ ns @
                                          '' from namespace '' @ wf_Namespace W)) w
                                  else w);
                             spec = rn_Spec template;
                             spec = (if st_Command step \<noteq> None then spec\<lparr>rs_Command := st_Command step\<rparr> else spec);
                             spec = (if st_Args step \<noteq> None then spec\<lparr>rs_Args := st_Args step\<rparr> else spec);
                             spec = (if st_Env step \<noteq> None then spec\<lparr>rs_Env := st_Env step\<rparr> else spec);
                             spec = (if st_Timeout step \<noteq> None then spec\<lparr>rs_TimeoutAfter := st_Timeout step\<rparr> else spec);
                             spec = (if st_GitRepo step \<noteq> None then spec\<lparr>rs_GitRepo := st_GitRepo step\<rparr> else spec);
                             spec = (if st_Volumes step \<noteq> None then spec\<lparr>rs_Volumes := st_Volumes step\<rparr> else spec);
                             spec = (if st_Mounts step \<noteq> None then spec\<lparr>rs_Mounts := st_Mounts step\<rparr> else spec);
                             spec = (if st_ServiceAccountName step \<noteq> []
                                     then spec\<lparr>rs_ServiceAccountName := st_ServiceAccountName step\<rparr> else spec)
                         in (spec, w)));
          spec = (if st_GitRepo step \<noteq> None then spec\<lparr>rs_GitRepo := st_GitRepo step\<rparr> else spec)
      in (\<lparr>rn_Meta = zero_ObjectMeta\<lparr>om_Name := runnerName, om_Namespace := wf_Namespace W,
             om_Labels := [(''app.kubernetes.io/name'', ''runner-operator''),
                           (workflow_label, wf_Name W), (step_label, st_Name step)]\<rparr>,
           rn_Spec = spec, rn_Status = zero_RunnerStatus\<rparr>, w))"

definition sharedVolumeName :: string where
  "sharedVolumeName = ''job-shared-volume''"

text \<open>One of the two blocks that mount the job's shared volume.\<close>

definition add_shared_volume :: "SharedVolume \<Rightarrow> VolumeSource \<Rightarrow> RunnerSpec \<Rightarrow> RunnerSpec" where
  "add_shared_volume sv source spec =
     (let mountPath = (if sv_MountPath sv \<noteq> [] then sv_MountPath sv else ''/workspace'');
          spec = spec\<lparr>rs_Volumes := sappend (rs_Volumes spec)
                   [\<lparr>vol_Name = sharedVolumeName, vol_Source = source\<rparr>]\<rparr>
      in spec\<lparr>rs_Mounts := sappend (rs_Mounts spec)
           [\<lparr>vm_Name = sharedVolumeName, vm_MountPath = mountPath, vm_ReadOnly = False, vm_Other = []\<rparr>]\<rparr>)"

text \<open>The assignments of \<open>buildJobStepRunner\<close> to the spec of the Runner, one per \<open>if\<close>.\<close>

definition addJobEnv :: "JobSpec \<Rightarrow> RunnerSpec \<Rightarrow> RunnerSpec" where
  "addJobEnv job spec =
     (if elems (js_Env job) \<noteq> [] then spec\<lparr>rs_Env := sappend (js_Env job) (elems (rs_Env spec))\<rparr> else spec)"

definition addJobGitRepo :: "JobSpec \<Rightarrow> RunnerSpec \<Rightarrow> RunnerSpec" where
  "addJobGitRepo job spec =
     (if js_GitRepo job \<noteq> None \<and> rs_GitRepo spec = None then spec\<lparr>rs_GitRepo := js_GitRepo job\<rparr> else spec)"

definition addJobServiceAccount :: "JobSpec \<Rightarrow> RunnerSpec \<Rightarrow> RunnerSpec" where
  "addJobServiceAccount job spec =
     (if js_ServiceAccountName job \<noteq> [] \<and> rs_ServiceAccountName spec = []
      then spec\<lparr>rs_ServiceAccountName := js_ServiceAccountName job\<rparr> else spec)"

definition addJobVolumes :: "JobSpec \<Rightarrow> RunnerSpec \<Rightarrow> RunnerSpec" where
  "addJobVolumes job spec =
     (if elems (js_Volumes job) \<noteq> [] then spec\<lparr>rs_Volumes := sappend (js_Volumes job) (elems (rs_Volumes spec))\<rparr> else spec)"

definition addJobMounts :: "JobSpec \<Rightarrow> RunnerSpec \<Rightarrow> RunnerSpec" where
  "addJobMounts job spec =
     (if elems (js_Mounts job) \<noteq> [] then spec\<lparr>rs_Mounts := sappend (js_Mounts job) (elems (rs_Mounts spec))\<rparr> else spec)"

definition addSharedEmptyDir :: "JobSpec \<Rightarrow> RunnerSpec \<Rightarrow> RunnerSpec" where
  "addSharedEmptyDir job spec =
     (case js_SharedVolume job of
        None \<Rightarrow> spec
      | Some sv \<Rightarrow> (case sv_EmptyDir sv of None \<Rightarrow> spec | Some d \<Rightarrow> add_shared_volume sv (EmptyDir d) spec))"

definition addSharedClaim :: "JobSpec \<Rightarrow> RunnerSpec \<Rightarrow> RunnerSpec" where
  "addSharedClaim job spec =
     (case js_SharedVolume job of
        None \<Rightarrow> spec
      | Some sv \<Rightarrow> (case sv_PersistentVolumeClaim sv of
          None \<Rightarrow> spec | Some c \<Rightarrow> add_shared_volume sv (PersistentVolumeClaim c) spec))"

definition buildJobStepRunner :: "env \<Rightarrow> JobSpec \<Rightarrow> Workflow \<Rightarrow> WorkflowStep \<Rightarrow> world \<Rightarrow> Runner \<times> world" where
  "buildJobStepRunner e job W step w =
     (let (runner, w) = buildStepRunner e W step w;
          meta = (rn_Meta runner)\<lparr>om_Labels := AList.update job_label (js_Name job) (om_Labels (rn_Meta runner))\<rparr>;
          spec = addJobEnv job (rn_Spec runner);
          spec = addJobGitRepo job spec;
          spec = addJobServiceAccount job spec;
          spec = addJobVolumes job spec;
          spec = addJobMounts job spec;
          spec = addSharedEmptyDir job spec;
          spec = addSharedClaim job spec
      in (runner\<lparr>rn_Meta := meta, rn_Spec := spec\<rparr>, w))"

definition buildRunnerMap :: "Runner list \<Rightarrow> (string, Runner) gomap" where
  "buildRunnerMap runners =
     foldl (\<lambda>m r. case map_of (om_Labels (rn_Meta r)) step_label of
                    None \<Rightarrow> m | Some stepName \<Rightarrow> AList.update stepName r m) [] runners"

definition filterRunnersByJob :: "Runner list \<Rightarrow> string \<Rightarrow> Runner list" where
  "filterRunnersByJob runners jobName =
     filter (\<lambda>r. case map_of (om_Labels (rn_Meta r)) job_label of None \<Rightarrow> False | Some jn \<Rightarrow> jn = jobName) runners"

section \<open>Retries and logs\<close>

definition retryBackoffElapsed :: "env \<Rightarrow> WorkflowStep \<Rightarrow> StepStatus \<Rightarrow> world \<Rightarrow> bool \<times> world" where
  "retryBackoffElapsed e step status w =
     (case st_Retry step of
        None \<Rightarrow> (True, w)
      | Some retry \<Rightarrow>
          (case rp_Backoff retry of
             None \<Rightarrow> (True, w)
           | Some backoff \<Rightarrow>
               (case ss_CompletedAt status of
                  None \<Rightarrow> (True, w)
                | Some completedAt \<Rightarrow>
                    let delay = ((\<lambda>delay. delay * 2) ^^ nat (ss_RetryCount status)) (bc_InitialDelay backoff);
                        delay = (case bc_MaxDelay backoff of
                                   None \<Rightarrow> delay
                                 | Some maxDelay \<Rightarrow> if sint delay > sint maxDelay then maxDelay else delay);
                        (now, w) = Now e w
                    in (sint (time_Sub now completedAt) \<ge> sint delay, w))))"

definition maxLogBytes :: nat where
  "maxLogBytes = 4096"

definition fetchPodLogs :: "env \<Rightarrow> Runner \<Rightarrow> world \<Rightarrow> string" where
  "fetchPodLogs e runner w =
     (let jobName = rn_Name runner @ ''-job''
      in case e_ListPods e w (rn_Namespace runner) [(''job-name'', jobName)] of
           Inl _ \<Rightarrow> []
         | Inr [] \<Rightarrow> []
         | Inr (pod # _) \<Rightarrow>
             (case e_PodLogs e w (rn_Namespace runner) pod ''runner'' 50 of
                Inl _ \<Rightarrow> []
              | Inr logBytes \<Rightarrow>
                  if length logBytes > maxLogBytes then drop (length logBytes - maxLogBytes) logBytes
                  else logBytes))"

section \<open>reconcileStepLoop\<close>

record step_loop =
  lp_wf :: Workflow
  lp_stepStatusMap :: "(string, StepStatus) gomap"
  lp_updated :: bool
  lp_world :: world

text \<open>\<open>updated = true; stepStatusMap = buildStepStatusMap(wf)\<close> after a change of the Workflow.\<close>

definition mark_updated :: "Workflow \<Rightarrow> world \<Rightarrow> step_loop \<Rightarrow> step_loop" where
  "mark_updated W w l = l\<lparr>lp_wf := W, lp_stepStatusMap := buildStepStatusMap W, lp_updated := True, lp_world := w\<rparr>"

text \<open>The cases stepSkip and stepWait: a step without a status gets one.\<close>

definition appendStepStatus :: "StepStatus \<Rightarrow> step_loop \<Rightarrow> step_loop" where
  "appendStepStatus status l =
     mark_updated (wf_setStatus (wst_StepStatuses_update (\<lambda>ss. ss @ [status])) (lp_wf l)) (lp_world l) l"

type_synonym runner_builder = "Workflow \<Rightarrow> WorkflowStep \<Rightarrow> world \<Rightarrow> Runner \<times> world"

text \<open>The case stepRun for a step without a Runner.\<close>

definition startStep :: "env \<Rightarrow> runner_builder \<Rightarrow> string \<Rightarrow> WorkflowStep \<Rightarrow> step_loop \<Rightarrow> step_loop" where
  "startStep e buildRunner jobName step l =
     (let (runner, w) = buildRunner (lp_wf l) step (lp_world l)
      in case e_SetControllerReference e (wf_Meta (lp_wf l)) (rn_Meta runner) of
           Inl _ \<Rightarrow> l\<lparr>lp_world := w\<rparr>
         | Inr meta \<Rightarrow>
             let runner = runner\<lparr>rn_Meta := meta\<rparr>;
                 eventMsg = (if jobName \<noteq> []
                             then ''Created Runner for step '' @ st_Name step @ '' in job '' @ jobName
                             else ''Created Runner for step '' @ st_Name step);
                 w = emit (Event ''Normal'' ''StepRunnerCreated'' eventMsg) w;
                 (err, w) = do_Create e (ORunner runner) w
             in if err \<noteq> None then l\<lparr>lp_world := w\<rparr>
                else
                  let (W, w) = upsertStepStatus e (st_Name step) StepPhasePending (lp_wf l) w;
                      W = wf_setStatus (wst_StepStatuses_update
                            (update_first (\<lambda>s. ss_Name s = st_Name step \<and> ss_Phase s = StepPhasePending \<and> ss_Message s = [])
                               (\<lambda>s. s\<lparr>ss_Message := ''Runner created''\<rparr>))) W
                  in mark_updated W w l)"

text \<open>A failed Runner with retries left.\<close>

definition retryStep :: "env \<Rightarrow> string \<Rightarrow> WorkflowStep \<Rightarrow> RetryPolicy \<Rightarrow> StepStatus \<Rightarrow> Runner \<Rightarrow> step_loop \<Rightarrow> step_loop" where
  "retryStep e jobName step retry status existing l =
     (let (elapsed, w) = retryBackoffElapsed e step status (lp_world l)
      in if \<not> elapsed then l\<lparr>lp_world := w\<rparr>
         else
           let attempt = '' failed, retrying (attempt '' @ show_int (ss_RetryCount status + 1) @ ''/'' @
                           show_int (rp_MaxRetries retry) @ '')'';
               retryMsg = (if jobName \<noteq> [] then ''Step '' @ st_Name step @ '' in job '' @ jobName @ attempt
                           else ''Step '' @ st_Name step @ attempt);
               w = emit (Event ''Normal'' ''StepRetrying'' retryMsg) w;
               w = emit (CounterInc ''step_retries_total'' [wf_Namespace (lp_wf l)]) w;
               (err, w) = do_Delete e (ORunner existing) w;
               (W, w) = upsertStepStatus e (st_Name step) StepPhasePending (lp_wf l) w;
               W = wf_setStatus (wst_StepStatuses_update
                     (update_first (\<lambda>s. ss_Name s = st_Name step) (\<lambda>s. s\<lparr>ss_RetryCount := ss_RetryCount s + 1\<rparr>))) W
           in mark_updated W w l)"

text \<open>The phase of the Runner differs from the phase recorded for the step.\<close>

definition recordStep :: "env \<Rightarrow> WorkflowStep \<Rightarrow> StepPhase \<Rightarrow> Runner \<Rightarrow> step_loop \<Rightarrow> step_loop" where
  "recordStep e step stepPhase existing l =
     (let logs = (if stepPhase = StepPhaseFailed then fetchPodLogs e existing (lp_world l) else []);
          W = (if logs \<noteq> []
               then wf_setStatus (wst_StepStatuses_update
                      (update_first (\<lambda>s. ss_Name s = st_Name step) (\<lambda>s. s\<lparr>ss_Message := logs\<rparr>))) (lp_wf l)
               else lp_wf l);
          (W, w) = upsertStepStatus e (st_Name step) stepPhase W (lp_world l)
      in mark_updated W w l)"

text \<open>The case stepRun for a step with a Runner; \<open>status\<close> is the zero value when there is none.\<close>

definition trackStep :: "env \<Rightarrow> string \<Rightarrow> WorkflowStep \<Rightarrow> StepStatus option \<Rightarrow> Runner \<Rightarrow> step_loop \<Rightarrow> step_loop" where
  "trackStep e jobName step status existing l =
     (let stepPhase = runnerPhaseToStepPhase (rn_Phase existing);
          st = (case status of None \<Rightarrow> zero_StepStatus | Some s \<Rightarrow> s);
          retry = (case st_Retry step of
                     None \<Rightarrow> None
                   | Some rp \<Rightarrow> if stepPhase = StepPhaseFailed \<and> rp_MaxRetries rp > 0 \<and> ss_RetryCount st < rp_MaxRetries rp
                               then Some rp else None)
      in case retry of
           Some rp \<Rightarrow> retryStep e jobName step rp st existing l
         | None \<Rightarrow> if status = None \<or> ss_Phase st \<noteq> stepPhase then recordStep e step stepPhase existing l else l)"

definition terminalStep :: "StepStatus option \<Rightarrow> bool" where
  "terminalStep status \<longleftrightarrow>
     (case status of None \<Rightarrow> False
      | Some s \<Rightarrow> ss_Phase s = StepPhaseSucceeded \<or> ss_Phase s = StepPhaseFailed \<or> ss_Phase s = StepPhaseSkipped)"

definition skipMessage :: "WorkflowStep \<Rightarrow> string" where
  "skipMessage step = ''Dependencies did not meet the required condition (when: '' @ quote (st_When step) @ '')''"

text \<open>The body of the loop.\<close>

definition reconcileStep :: "env \<Rightarrow> runner_builder \<Rightarrow> string \<Rightarrow> (string, Runner) gomap \<Rightarrow> WorkflowStep \<Rightarrow> step_loop \<Rightarrow> step_loop" where
  "reconcileStep e buildRunner jobName runnerMap step l =
     (let existing = map_of runnerMap (st_Name step);
          status = map_of (lp_stepStatusMap l) (st_Name step)
      in if terminalStep status \<and> existing \<noteq> None then l
         else case evaluateStep step (lp_stepStatusMap l) of
           stepSkip \<Rightarrow>
             if status = None
             then appendStepStatus (zero_StepStatus\<lparr>ss_Name := st_Name step, ss_Phase := StepPhaseSkipped,
                    ss_Message := skipMessage step\<rparr>) l
             else l
         | stepWait \<Rightarrow>
             if status = None
             then appendStepStatus (zero_StepStatus\<lparr>ss_Name := st_Name step, ss_Phase := StepPhaseWaiting\<rparr>) l
             else l
         | stepRun \<Rightarrow>
             (case existing of
                None \<Rightarrow> startStep e buildRunner jobName step l
              | Some runner \<Rightarrow> trackStep e jobName step status runner l))"

definition step_loop_init :: "Workflow \<Rightarrow> world \<Rightarrow> step_loop" where
  "step_loop_init W w =
     \<lparr>lp_wf = W, lp_stepStatusMap = buildStepStatusMap W, lp_updated = False, lp_world = w\<rparr>"

definition reconcileStepLoop ::
  "env \<Rightarrow> WorkflowStep list \<Rightarrow> Runner list \<Rightarrow> runner_builder \<Rightarrow> string \<Rightarrow> Workflow \<Rightarrow> world \<Rightarrow>
   bool \<times> Workflow \<times> world" where
  "reconcileStepLoop e steps stepRunners buildRunner jobName W w =
     (let l = foldl (\<lambda>l step. reconcileStep e buildRunner jobName (buildRunnerMap stepRunners) step l)
                (step_loop_init W w) steps
      in (lp_updated l, lp_wf l, lp_world l))"

definition reconcileSteps :: "env \<Rightarrow> Runner list \<Rightarrow> Workflow \<Rightarrow> world \<Rightarrow> bool \<times> Workflow \<times> world" where
  "reconcileSteps e stepRunners W w =
     reconcileStepLoop e (wsp_Steps (wf_Spec W)) stepRunners (buildStepRunner e) [] W w"

section \<open>What one iteration may change\<close>

text \<open>
  \<open>step_update n W W'\<close>: the Workflows differ at most in the status entries of the step \<open>n\<close>, which
  may be changed in place or appended.
\<close>

definition step_update :: "string \<Rightarrow> Workflow \<Rightarrow> Workflow \<Rightarrow> bool" where
  "step_update n W W' \<longleftrightarrow>
     W' = wf_setStatus (wst_StepStatuses_update (\<lambda>_. wf_StepStatuses W')) W \<and>
     filter (\<lambda>s. ss_Name s \<noteq> n) (wf_StepStatuses W') = filter (\<lambda>s. ss_Name s \<noteq> n) (wf_StepStatuses W) \<and>
     (map ss_Name (wf_StepStatuses W') = map ss_Name (wf_StepStatuses W) \<or>
      n \<notin> ss_Name ` set (wf_StepStatuses W) \<and>
      map ss_Name (wf_StepStatuses W') = map ss_Name (wf_StepStatuses W) @ [n])"

lemma step_update_refl [simp]: "step_update n W W"
  by (simp add: step_update_def)

lemma step_update_trans:
  assumes "step_update n U V" "step_update n V W"
  shows "step_update n U W"
proof -
  from assms have "W = wf_setStatus (wst_StepStatuses_update (\<lambda>_. wf_StepStatuses W)) U"
    unfolding step_update_def by (metis (no_types, lifting) Workflow.update_convs(3) Workflow.select_convs(3)
        Workflow.surjective WorkflowStatus.surjective WorkflowStatus.update_convs(4))
  with assms show ?thesis unfolding step_update_def
    by (metis (no_types, lifting) UnCI image_eqI image_set list.set_intros(1) set_append)
qed

lemma filter_update_first:
  "(\<And>x. P x \<Longrightarrow> \<not> Q x \<and> \<not> Q (f x)) \<Longrightarrow> filter Q (update_first P f xs) = filter Q xs"
  by (induction xs) auto

lemma step_update_first:
  assumes "\<And>s. P s \<Longrightarrow> ss_Name s = n" "\<And>s. P s \<Longrightarrow> ss_Name (f s) = n"
  shows "step_update n W (wf_setStatus (wst_StepStatuses_update (update_first P f)) W)"
  unfolding step_update_def using assms by (auto simp: filter_update_first map_update_first)

lemma step_update_append:
  assumes "ss_Name s = n" "n \<notin> ss_Name ` set (wf_StepStatuses W)"
  shows "step_update n W (wf_setStatus (wst_StepStatuses_update (\<lambda>ss. ss @ [s])) W)"
  unfolding step_update_def using assms by auto

lemma step_update_upsert: "step_update n W (fst (upsertStepStatus e n p W w))"
proof (cases "find (\<lambda>s. ss_Name s = n) (wf_StepStatuses W)")
  case None
  then have "n \<notin> ss_Name ` set (wf_StepStatuses W)" by (simp add: find_None_iff_key)
  with None show ?thesis by (simp add: upsertStepStatus_def split_beta step_update_append)
next
  case (Some s)
  then have "ss_Name s = n" by (auto dest: find_SomeD)
  with Some show ?thesis
    by (auto simp: upsertStepStatus_def split_beta intro!: step_update_first)
qed

lemmas step_update_intros = step_update_first step_update_append step_update_upsert

text \<open>The map of the loop is always that of the Workflow.\<close>

definition in_sync :: "step_loop \<Rightarrow> bool" where
  "in_sync l \<longleftrightarrow> lp_stepStatusMap l = buildStepStatusMap (lp_wf l)"

lemma in_sync_lookup: "in_sync l \<Longrightarrow> map_of (lp_stepStatusMap l) n = find (\<lambda>s. ss_Name s = n) (rev (wf_StepStatuses (lp_wf l)))"
  by (simp add: in_sync_def buildStepStatusMap_def map_of_index_by)

lemma in_sync_None: "in_sync l \<Longrightarrow> map_of (lp_stepStatusMap l) n = None \<longleftrightarrow> n \<notin> ss_Name ` set (wf_StepStatuses (lp_wf l))"
  by (simp add: in_sync_lookup find_None_iff_key)

lemma mark_updated_simps [simp]:
  "lp_wf (mark_updated W w l) = W" "lp_world (mark_updated W w l) = w"
  "lp_updated (mark_updated W w l)" "in_sync (mark_updated W w l)"
  "lp_stepStatusMap (mark_updated W w l) = buildStepStatusMap W"
  by (simp_all add: mark_updated_def in_sync_def)

lemma find_filter_rev: "find (\<lambda>s. key s = m) (rev xs) = find (\<lambda>s. key s = m) (rev (filter (\<lambda>s. key s \<noteq> n) xs))" if "m \<noteq> n"
  using that by (induction xs rule: rev_induct) auto

lemma step_update_lookup_other:
  assumes "step_update n W W'" "m \<noteq> n"
  shows "map_of (buildStepStatusMap W') m = map_of (buildStepStatusMap W) m"
proof -
  have "map_of (buildStepStatusMap V) m = find (\<lambda>s. ss_Name s = m) (rev (filter (\<lambda>s. ss_Name s \<noteq> n) (wf_StepStatuses V)))" for V
    unfolding buildStepStatusMap_def map_of_index_by by (rule find_filter_rev [OF assms(2)])
  then show ?thesis using assms(1) by (simp add: step_update_def)
qed

lemma step_update_frame:
  assumes "step_update n W W'"
  shows "wf_Meta W' = wf_Meta W" "wf_Spec W' = wf_Spec W" "wf_JobStatuses W' = wf_JobStatuses W"
    "wf_Phase W' = wf_Phase W" "wst_StartTime (wf_Status W') = wst_StartTime (wf_Status W)"
    "wst_CompletionTime (wf_Status W') = wst_CompletionTime (wf_Status W)"
proof -
  from assms have h: "W' = wf_setStatus (wst_StepStatuses_update (\<lambda>_. wf_StepStatuses W')) W"
    unfolding step_update_def by blast
  show "wf_Meta W' = wf_Meta W" "wf_Spec W' = wf_Spec W" "wf_JobStatuses W' = wf_JobStatuses W"
    "wf_Phase W' = wf_Phase W" "wst_StartTime (wf_Status W') = wst_StartTime (wf_Status W)"
    "wst_CompletionTime (wf_Status W') = wst_CompletionTime (wf_Status W)"
    by (subst h, simp)+
qed

section \<open>One iteration\<close>

lemma startStep_update:
  assumes "in_sync l"
  shows "step_update (st_Name step) (lp_wf l) (lp_wf (startStep e build job step l)) \<and> in_sync (startStep e build job step l)"
proof -
  have "step_update (st_Name step) (lp_wf l)
      (wf_setStatus (wst_StepStatuses_update
         (update_first (\<lambda>s. ss_Name s = st_Name step \<and> ss_Phase s = StepPhasePending \<and> ss_Message s = [])
            (\<lambda>s. s\<lparr>ss_Message := ''Runner created''\<rparr>)))
       (fst (upsertStepStatus e (st_Name step) StepPhasePending (lp_wf l) w)))" for w
    by (rule step_update_trans [OF step_update_upsert step_update_first]) auto
  then show ?thesis using assms
    by (auto simp: startStep_def Let_def split_beta do_request_defs in_sync_def split: sum.split)
qed

lemma retryStep_update:
  assumes "in_sync l"
  shows "step_update (st_Name step) (lp_wf l) (lp_wf (retryStep e job step rp st r l)) \<and> in_sync (retryStep e job step rp st r l)"
proof -
  have "step_update (st_Name step) (lp_wf l)
      (wf_setStatus (wst_StepStatuses_update
         (update_first (\<lambda>s. ss_Name s = st_Name step) (\<lambda>s. s\<lparr>ss_RetryCount := ss_RetryCount s + 1\<rparr>)))
       (fst (upsertStepStatus e (st_Name step) StepPhasePending (lp_wf l) w)))" for w
    by (rule step_update_trans [OF step_update_upsert step_update_first]) auto
  then show ?thesis using assms
    by (auto simp: retryStep_def Let_def split_beta do_request_defs in_sync_def)
qed

lemma recordStep_update:
  "step_update (st_Name step) (lp_wf l) (lp_wf (recordStep e step p r l)) \<and> in_sync (recordStep e step p r l)"
proof -
  have "step_update (st_Name step) (lp_wf l) (fst (upsertStepStatus e (st_Name step) p
      (wf_setStatus (wst_StepStatuses_update
         (update_first (\<lambda>s. ss_Name s = st_Name step) (\<lambda>s. s\<lparr>ss_Message := logs\<rparr>))) (lp_wf l)) w))" for logs w
    by (rule step_update_trans [OF step_update_first step_update_upsert]) auto
  then show ?thesis
    by (auto simp: recordStep_def Let_def split_beta step_update_upsert)
qed

lemma appendStepStatus_update:
  assumes "in_sync l" "map_of (lp_stepStatusMap l) n = None" "ss_Name s = n"
  shows "step_update n (lp_wf l) (lp_wf (appendStepStatus s l)) \<and> in_sync (appendStepStatus s l)"
  using assms by (auto simp: appendStepStatus_def in_sync_None intro!: step_update_append)

lemma reconcileStep_update:
  assumes "in_sync l"
  shows "step_update (st_Name step) (lp_wf l) (lp_wf (reconcileStep e build job rm step l)) \<and>
         in_sync (reconcileStep e build job rm step l)"
proof (cases "evaluateStep step (lp_stepStatusMap l)")
  case stepRun
  with assms startStep_update [OF assms] retryStep_update [OF assms] recordStep_update show ?thesis
    by (auto simp: reconcileStep_def trackStep_def Let_def split: option.split)
qed (auto simp: reconcileStep_def Let_def assms appendStepStatus_update)

section \<open>The contract of a Runner builder\<close>

text \<open>
  What the loop relies on in the closure its caller passes: the Runner carries the name of the
  step and of the Workflow as labels and lives in the Workflow's namespace, and building it sends
  nothing but events.
\<close>

definition silent :: "effect list \<Rightarrow> bool" where
  "silent xs \<longleftrightarrow> list_all (\<lambda>x. case x of Event _ _ _ \<Rightarrow> True | _ \<Rightarrow> False) xs"

lemma silent_classify:
  "silent xs \<Longrightarrow> created_runners xs = []" "silent xs \<Longrightarrow> created_jobs xs = []"
  "silent xs \<Longrightarrow> created_workflows xs = []" "silent xs \<Longrightarrow> deleted xs = []"
  by (induction xs) (auto simp: silent_def split: effect.splits)

definition stepOf :: "Runner \<Rightarrow> string option" where
  "stepOf r = map_of (om_Labels (rn_Meta r)) step_label"

locale step_builder =
  fixes build :: runner_builder
  assumes build_step: "stepOf (fst (build W step w)) = Some (st_Name step)"
    and build_workflow: "map_of (om_Labels (rn_Meta (fst (build W step w)))) workflow_label = Some (wf_Name W)"
    and build_namespace: "rn_Namespace (fst (build W step w)) = wf_Namespace W"
    and build_unowned: "om_OwnerReferences (rn_Meta (fst (build W step w))) = []"
    and build_log: "\<exists>evs. w_log (snd (build W step w)) = w_log w @ evs \<and> silent evs"
begin

lemma build_quiet:
  "created_runners (w_log (snd (build W step w))) = created_runners (w_log w)"
  "deleted (w_log (snd (build W step w))) = deleted (w_log w)"
  using build_log [of W step w] by (auto simp: silent_classify)

text \<open>The Runner a step is given, if it can be owned by the Workflow.\<close>

lemma startStep_created:
  "created_runners (w_log (lp_world (startStep e build job step l))) =
     created_runners (w_log (lp_world l)) @
     (let r = fst (build (lp_wf l) step (lp_world l))
      in case e_SetControllerReference e (wf_Meta (lp_wf l)) (rn_Meta r) of
           Inl _ \<Rightarrow> [] | Inr m \<Rightarrow> [r\<lparr>rn_Meta := m\<rparr>])"
  by (auto simp: startStep_def Let_def split_beta do_request_defs build_quiet split: sum.split)

lemma startStep_deleted:
  "deleted (w_log (lp_world (startStep e build job step l))) = deleted (w_log (lp_world l))"
  by (auto simp: startStep_def Let_def split_beta do_request_defs build_quiet split: sum.split)

end

lemma retryBackoffElapsed_log [simp, log_simps]:
  "w_log (snd (retryBackoffElapsed e step st w)) = w_log w"
  by (simp add: retryBackoffElapsed_def Let_def split_beta split: option.split)

lemma trackStep_created:
  "created_runners (w_log (lp_world (trackStep e job step st r l))) = created_runners (w_log (lp_world l))"
  by (auto simp: trackStep_def retryStep_def recordStep_def Let_def split_beta do_request_defs split: option.split)

lemma appendStepStatus_world [simp]: "lp_world (appendStepStatus s l) = lp_world l"
  by (simp add: appendStepStatus_def)

context step_builder
begin

lemma reconcileStep_created:
  "created_runners (w_log (lp_world (reconcileStep e build job rm step l))) =
     created_runners (w_log (lp_world l)) @
     (if map_of rm (st_Name step) = None \<and> evaluateStep step (lp_stepStatusMap l) = stepRun
      then let r = fst (build (lp_wf l) step (lp_world l))
           in case e_SetControllerReference e (wf_Meta (lp_wf l)) (rn_Meta r) of
                Inl _ \<Rightarrow> [] | Inr m \<Rightarrow> [r\<lparr>rn_Meta := m\<rparr>]
      else [])"
  by (cases "evaluateStep step (lp_stepStatusMap l)"; cases "map_of rm (st_Name step)")
     (simp_all add: reconcileStep_def Let_def trackStep_created startStep_created split: option.split)

end

lemma buildStepRunner_meta:
  "rn_Meta (fst (buildStepRunner e W step w)) =
     zero_ObjectMeta\<lparr>om_Name := wf_Name W @ ''-'' @ sanitizeStepName (st_Name step), om_Namespace := wf_Namespace W,
       om_Labels := [(''app.kubernetes.io/name'', ''runner-operator''),
                     (workflow_label, wf_Name W), (step_label, st_Name step)]\<rparr>"
  by (simp add: buildStepRunner_def Let_def split_beta)

lemma buildStepRunner_log:
  "\<exists>evs. w_log (snd (buildStepRunner e W step w)) = w_log w @ evs \<and> silent evs"
  by (simp add: buildStepRunner_def Let_def split_beta silent_def split: option.split sum.split)

lemma buildJobStepRunner_meta:
  "rn_Meta (fst (buildJobStepRunner e job W step w)) =
     (rn_Meta (fst (buildStepRunner e W step w)))\<lparr>om_Labels :=
        AList.update job_label (js_Name job) (om_Labels (rn_Meta (fst (buildStepRunner e W step w))))\<rparr>"
  "snd (buildJobStepRunner e job W step w) = snd (buildStepRunner e W step w)"
  by (simp_all add: buildJobStepRunner_def Let_def split_beta)

interpretation flat_steps: step_builder "buildStepRunner e" for e
  by unfold_locales (simp_all add: stepOf_def buildStepRunner_meta buildStepRunner_log zero_ObjectMeta_def)

interpretation job_steps: step_builder "buildJobStepRunner e job" for e job
  by unfold_locales
     (simp_all add: stepOf_def buildJobStepRunner_meta buildStepRunner_meta buildStepRunner_log zero_ObjectMeta_def)

section \<open>The loop\<close>

text \<open>A decision depends on nothing but the phases of the step's dependencies.\<close>

lemma evaluateStep_cong:
  assumes "\<And>d. d \<in> set (st_DependsOn step) \<Longrightarrow> map_of m d = map_of m' d"
  shows "evaluateStep step m = evaluateStep step m'"
proof -
  have "list_ex (\<lambda>d. P (map_of m d)) (st_DependsOn step) = list_ex (\<lambda>d. P (map_of m' d)) (st_DependsOn step)"
    "list_all (\<lambda>d. P (map_of m d)) (st_DependsOn step) = list_all (\<lambda>d. P (map_of m' d)) (st_DependsOn step)" for P
    using assms by (auto simp: list_ex_iff list_all_iff)
  then show ?thesis by (simp only: evaluateStep_def)
qed

definition deps_first :: "WorkflowStep list \<Rightarrow> bool" where
  "deps_first steps \<longleftrightarrow> (\<forall>xs s ys. steps = xs @ s # ys \<longrightarrow> set (st_DependsOn s) \<subseteq> st_Name ` set xs)"

lemma deps_first_snoc: "deps_first (xs @ [s]) \<longleftrightarrow> deps_first xs \<and> set (st_DependsOn s) \<subseteq> st_Name ` set xs"
proof
  assume "deps_first (xs @ [s])"
  then show "deps_first xs \<and> set (st_DependsOn s) \<subseteq> st_Name ` set xs"
    unfolding deps_first_def by (metis append_Cons append_assoc)
next
  assume a: "deps_first xs \<and> set (st_DependsOn s) \<subseteq> st_Name ` set xs"
  show "deps_first (xs @ [s])"
    unfolding deps_first_def
  proof (intro allI impI)
    fix as t bs
    assume "xs @ [s] = as @ t # bs"
    then consider "bs = []" "as = xs" "t = s" | cs where "bs = cs @ [s]" "xs = as @ t # cs"
      by (cases bs rule: rev_cases) auto
    then show "set (st_DependsOn t) \<subseteq> st_Name ` set as"
      using a by cases (auto simp: deps_first_def)
  qed
qed

lemma deps_first_subset: "deps_first xs \<Longrightarrow> s \<in> set xs \<Longrightarrow> set (st_DependsOn s) \<subseteq> st_Name ` set xs"
  by (induction xs rule: rev_induct) (auto simp: deps_first_snoc)

lemma deps_first_sorted: "distinct (map st_Name steps) \<Longrightarrow> deps_first (topologicalSortSteps steps)"
  unfolding deps_first_def using topologicalSortSteps_order by blast

definition loop_from :: "env \<Rightarrow> runner_builder \<Rightarrow> string \<Rightarrow> (string, Runner) gomap \<Rightarrow> step_loop \<Rightarrow> WorkflowStep list \<Rightarrow> step_loop" where
  "loop_from e build job rm l steps = foldl (\<lambda>l step. reconcileStep e build job rm step l) l steps"

lemma loop_from_simps [simp]:
  "loop_from e build job rm l [] = l"
  "loop_from e build job rm l (steps @ [s]) = reconcileStep e build job rm s (loop_from e build job rm l steps)"
  by (simp_all add: loop_from_def)

lemma reconcileStepLoop_eq:
  "reconcileStepLoop e steps runners build job W w =
     (let l = loop_from e build job (buildRunnerMap runners) (step_loop_init W w) steps
      in (lp_updated l, lp_wf l, lp_world l))"
  by (simp add: reconcileStepLoop_def loop_from_def)

lemma in_sync_init [simp]: "in_sync (step_loop_init W w)"
  by (simp add: in_sync_def step_loop_init_def)

lemma init_simps [simp]:
  "lp_wf (step_loop_init W w) = W" "lp_world (step_loop_init W w) = w" "\<not> lp_updated (step_loop_init W w)"
  by (simp_all add: step_loop_init_def)

lemma loop_in_sync: "in_sync l \<Longrightarrow> in_sync (loop_from e build job rm l steps)"
  by (induction steps rule: rev_induct) (auto simp: reconcileStep_update)

lemma loop_lookup_other:
  assumes "in_sync l" "n \<notin> st_Name ` set steps"
  shows "map_of (buildStepStatusMap (lp_wf (loop_from e build job rm l steps))) n =
         map_of (buildStepStatusMap (lp_wf l)) n"
  using assms(2)
proof (induction steps rule: rev_induct)
  case (snoc s steps)
  from reconcileStep_update [OF loop_in_sync [OF assms(1)], THEN conjunct1]
  have "step_update (st_Name s) (lp_wf (loop_from e build job rm l steps))
    (lp_wf (reconcileStep e build job rm s (loop_from e build job rm l steps)))" .
  from step_update_lookup_other [OF this, of n] snoc show ?case by simp
qed simp

lemma loop_names:
  assumes "in_sync l" "distinct (map ss_Name (wf_StepStatuses (lp_wf l)))"
  shows "distinct (map ss_Name (wf_StepStatuses (lp_wf (loop_from e build job rm l steps)))) \<and>
    set (map ss_Name (wf_StepStatuses (lp_wf (loop_from e build job rm l steps)))) \<subseteq>
      set (map ss_Name (wf_StepStatuses (lp_wf l))) \<union> set (map st_Name steps)"
proof (induction steps rule: rev_induct)
  case (snoc s steps)
  let ?l = "loop_from e build job rm l steps"
  from reconcileStep_update [OF loop_in_sync [OF assms(1)], THEN conjunct1]
  have "step_update (st_Name s) (lp_wf ?l) (lp_wf (reconcileStep e build job rm s ?l))" .
  then have "map ss_Name (wf_StepStatuses (lp_wf (reconcileStep e build job rm s ?l))) = map ss_Name (wf_StepStatuses (lp_wf ?l)) \<or>
      st_Name s \<notin> set (map ss_Name (wf_StepStatuses (lp_wf ?l))) \<and>
      map ss_Name (wf_StepStatuses (lp_wf (reconcileStep e build job rm s ?l))) = map ss_Name (wf_StepStatuses (lp_wf ?l)) @ [st_Name s]"
    unfolding step_update_def by simp
  with snoc show ?case by (auto simp del: set_map)
qed (simp add: assms)

lemma loop_frame:
  assumes "in_sync l"
  shows "wf_Meta (lp_wf (loop_from e build job rm l steps)) = wf_Meta (lp_wf l)"
    "wf_Spec (lp_wf (loop_from e build job rm l steps)) = wf_Spec (lp_wf l)"
    "wf_JobStatuses (lp_wf (loop_from e build job rm l steps)) = wf_JobStatuses (lp_wf l)"
    "wf_Phase (lp_wf (loop_from e build job rm l steps)) = wf_Phase (lp_wf l)"
    "wst_StartTime (wf_Status (lp_wf (loop_from e build job rm l steps))) = wst_StartTime (wf_Status (lp_wf l))"
    "wst_CompletionTime (wf_Status (lp_wf (loop_from e build job rm l steps))) = wst_CompletionTime (wf_Status (lp_wf l))"
  using step_update_frame [OF reconcileStep_update [OF loop_in_sync [OF assms], THEN conjunct1]]
  by (induction steps rule: rev_induct) simp_all

text \<open>
  With every dependency processed before its dependants, the later iterations do not disturb
  the decisions of the earlier ones: what the final statuses say is what was decided.
\<close>

lemma decision_stable:
  assumes "in_sync l" "distinct (map st_Name (xs @ [s]))" "deps_first (xs @ [s])" "t \<in> set (xs @ [s])"
  shows "evaluateStep t (buildStepStatusMap (lp_wf (loop_from e build job rm l (xs @ [s])))) =
         evaluateStep t (buildStepStatusMap (lp_wf (loop_from e build job rm l xs)))"
proof (rule evaluateStep_cong)
  fix d assume d: "d \<in> set (st_DependsOn t)"
  from assms(3) have "deps_first xs" "set (st_DependsOn s) \<subseteq> st_Name ` set xs" by (auto simp: deps_first_snoc)
  with assms(4) d deps_first_subset have "d \<in> st_Name ` set xs" by auto
  moreover from assms(2) have "st_Name s \<notin> st_Name ` set xs" by simp
  ultimately have "d \<noteq> st_Name s" by blast
  then show "map_of (buildStepStatusMap (lp_wf (loop_from e build job rm l (xs @ [s])))) d =
      map_of (buildStepStatusMap (lp_wf (loop_from e build job rm l xs))) d"
    using step_update_lookup_other [OF reconcileStep_update [OF loop_in_sync [OF assms(1)], THEN conjunct1], of d]
    by simp
qed

definition gate :: "(string, Runner) gomap \<Rightarrow> step_loop \<Rightarrow> WorkflowStep \<Rightarrow> bool" where
  "gate rm l step \<longleftrightarrow> map_of rm (st_Name step) = None \<and> evaluateStep step (buildStepStatusMap (lp_wf l)) = stepRun"

context step_builder
begin

lemma started_step:
  assumes "sets_owner (e_SetControllerReference e)" "in_sync l"
  shows "\<exists>ok. map stepOf (created_runners (w_log (lp_world (reconcileStep e build job rm step l)))) =
      map stepOf (created_runners (w_log (lp_world l))) @
      (if gate rm l step \<and> ok then [Some (st_Name step)] else []) \<and>
      (can_own (e_SetControllerReference e) \<longrightarrow> ok)"
proof (cases "e_SetControllerReference e (wf_Meta (lp_wf l)) (rn_Meta (fst (build (lp_wf l) step (lp_world l))))")
  case (Inl a)
  then have "\<not> can_own (e_SetControllerReference e)"
    using build_namespace [of "lp_wf l" step "lp_world l"] by (auto elim!: can_ownD [OF _ build_unowned])
  with Inl show ?thesis by (intro exI [of _ False]) (simp add: reconcileStep_created)
next
  case (Inr m)
  from sets_ownerD(3) [OF assms(1) Inr] build_step [of "lp_wf l" step "lp_world l"]
  have "map_of (om_Labels m) step_label = Some (st_Name step)" by (simp add: stepOf_def)
  then show ?thesis using assms(2)
    by (intro exI [of _ True]) (simp add: reconcileStep_created Inr stepOf_def gate_def in_sync_def)
qed

lemma loop_created:
  assumes owner: "sets_owner (e_SetControllerReference e)" and sync: "in_sync l"
    and "distinct (map st_Name steps)" "deps_first steps"
  shows "\<exists>ok. map stepOf (created_runners (w_log (lp_world (loop_from e build job rm l steps)))) =
      map stepOf (created_runners (w_log (lp_world l))) @
      map (Some \<circ> st_Name) (filter (\<lambda>s. gate rm (loop_from e build job rm l steps) s \<and> ok (st_Name s)) steps) \<and>
      (can_own (e_SetControllerReference e) \<longrightarrow> (\<forall>n. ok n))"
  using assms(3,4)
proof (induction steps rule: rev_induct)
  case (snoc s xs)
  let ?l = "loop_from e build job rm l xs" and ?l' = "loop_from e build job rm l (xs @ [s])"
  let ?total = "can_own (e_SetControllerReference e)"
  from snoc.prems have pre: "distinct (map st_Name xs)" "deps_first xs" by (auto simp: deps_first_snoc)
  from snoc.IH [OF this] obtain ok where
    IH: "map stepOf (created_runners (w_log (lp_world ?l))) = map stepOf (created_runners (w_log (lp_world l))) @
      map (Some \<circ> st_Name) (filter (\<lambda>s. gate rm ?l s \<and> ok (st_Name s)) xs)" and tot: "?total \<longrightarrow> (\<forall>n. ok n)" by blast
  from started_step [OF owner loop_in_sync [OF sync], of job rm s e build job rm xs] obtain ok1 where
    step: "map stepOf (created_runners (w_log (lp_world ?l'))) = map stepOf (created_runners (w_log (lp_world ?l))) @
      (if gate rm ?l s \<and> ok1 then [Some (st_Name s)] else [])" and tot1: "?total \<longrightarrow> ok1"
    unfolding loop_from_simps by blast
  have stable: "gate rm ?l' t = gate rm ?l t" if "t \<in> set (xs @ [s])" for t
    unfolding gate_def decision_stable [OF sync snoc.prems that] ..
  let ?ok = "ok(st_Name s := ok1)"
  have "filter (\<lambda>s. gate rm ?l' s \<and> ?ok (st_Name s)) xs = filter (\<lambda>s. gate rm ?l s \<and> ok (st_Name s)) xs"
    using stable snoc.prems(1) by (intro filter_cong) (auto simp: image_iff dest: sym)
  with IH step stable [of s] tot tot1 show ?case
    by (intro exI [of _ ?ok]) (auto simp del: loop_from_simps)
qed (auto intro: exI [of _ "\<lambda>_. True"])

end

section \<open>Retries\<close>

lemma buildRunnerMap_Some: "map_of (buildRunnerMap runners) n = Some r \<Longrightarrow> r \<in> set runners \<and> stepOf r = Some n"
  unfolding buildRunnerMap_def
  by (induction runners rule: rev_induct) (auto simp: stepOf_def split: option.splits if_splits)

text \<open>The retries recorded for a step.\<close>

definition retries :: "string \<Rightarrow> Workflow \<Rightarrow> int" where
  "retries n W = (case find (\<lambda>s. ss_Name s = n) (wf_StepStatuses W) of None \<Rightarrow> 0 | Some s \<Rightarrow> ss_RetryCount s)"

lemma retries_upsert [simp]: "retries n (fst (upsertStepStatus e n p W w)) = retries n W"
  by (auto simp: retries_def upsertStepStatus_entry split: option.split)

lemma retries_update_first:
  assumes "\<And>s. ss_Name (f s) = ss_Name s" "\<And>s. ss_RetryCount (f s) = ss_RetryCount s"
  shows "retries n (wf_setStatus (wst_StepStatuses_update (update_first P f)) W) = retries n W"
proof -
  have "map_option ss_RetryCount (find (\<lambda>s. ss_Name s = n) (update_first P f xs)) =
      map_option ss_RetryCount (find (\<lambda>s. ss_Name s = n) xs)" for xs
    using assms by (induction xs) auto
  from this [of "wf_StepStatuses W"] show ?thesis
    by (auto simp: retries_def split: option.splits)
qed

lemma retries_append: "ss_RetryCount s = 0 \<Longrightarrow> retries n (wf_setStatus (wst_StepStatuses_update (\<lambda>ss. ss @ [s])) W) = retries n W"
  by (auto simp: retries_def find_append split: option.split)

lemma retries_other:
  assumes "step_update n W W'" "m \<noteq> n"
  shows "retries m W' = retries m W"
proof -
  have "find (\<lambda>s. ss_Name s = m) xs = find (\<lambda>s. ss_Name s = m) (filter (\<lambda>s. ss_Name s \<noteq> n) xs)" for xs
    using assms(2) by (induction xs) auto
  with assms(1) show ?thesis unfolding retries_def step_update_def by metis
qed

text \<open>The count a decision reads is the one recorded, when names are not duplicated.\<close>

lemma retries_in_sync:
  assumes "in_sync l" "distinct (map ss_Name (wf_StepStatuses (lp_wf l)))"
  shows "ss_RetryCount (case map_of (lp_stepStatusMap l) n of None \<Rightarrow> zero_StepStatus | Some s \<Rightarrow> s) = retries n (lp_wf l)"
  using assms by (simp add: in_sync_lookup find_rev_distinct retries_def zero_StepStatus_def split: option.split)

lemma retryStep_retries:
  "deleted (w_log (lp_world (retryStep e job step rp st r l))) = deleted (w_log (lp_world l)) \<and>
     lp_wf (retryStep e job step rp st r l) = lp_wf l \<or>
   deleted (w_log (lp_world (retryStep e job step rp st r l))) = deleted (w_log (lp_world l)) @ [ORunner r] \<and>
     retries (st_Name step) (lp_wf (retryStep e job step rp st r l)) = retries (st_Name step) (lp_wf l) + 1"
proof -
  have inc: "retries n (wf_setStatus (wst_StepStatuses_update (update_first (\<lambda>s. ss_Name s = n)
      (\<lambda>s. s\<lparr>ss_RetryCount := ss_RetryCount s + 1\<rparr>))) (fst (upsertStepStatus e n p W w))) = retries n W + 1" for n p W w
  proof -
    from step_table.upsert_same [of n e p W w] obtain s where
      s: "find (\<lambda>s. ss_Name s = n) (wf_StepStatuses (fst (upsertStepStatus e n p W w))) = Some s" by blast
    then have "retries n W = ss_RetryCount s"
      unfolding retries_upsert [of n e p W w, symmetric] by (simp add: retries_def)
    with s show ?thesis
      by (simp add: retries_def find_update_first_key [where key = ss_Name])
  qed
  show ?thesis
    by (cases "fst (retryBackoffElapsed e step st (lp_world l))")
       (simp_all add: retryStep_def Let_def split_beta do_request_defs inc)
qed

lemma recordStep_retries:
  "deleted (w_log (lp_world (recordStep e step p r l))) = deleted (w_log (lp_world l))"
  "retries (st_Name step) (lp_wf (recordStep e step p r l)) = retries (st_Name step) (lp_wf l)"
  by (auto simp: recordStep_def Let_def split_beta retries_update_first)

lemma appendStepStatus_retries:
  "ss_RetryCount s = 0 \<Longrightarrow> retries n (lp_wf (appendStepStatus s l)) = retries n (lp_wf l)"
  by (simp add: appendStepStatus_def retries_append)

lemma startStep_retries:
  "retries (st_Name step) (lp_wf (startStep e build job step l)) = retries (st_Name step) (lp_wf l)"
  by (auto simp: startStep_def Let_def split_beta do_request_defs retries_update_first split: sum.split)

text \<open>
  An iteration deletes at most the Runner of its own step, only after that Runner failed and
  while retries are left, and counts the retry.
\<close>

definition may_retry :: "(string, Runner) gomap \<Rightarrow> WorkflowStep \<Rightarrow> int \<Rightarrow> Runner \<Rightarrow> bool" where
  "may_retry rm step k r \<longleftrightarrow>
     map_of rm (st_Name step) = Some r \<and> rn_Phase r = RunnerPhaseFailed \<and>
     (\<exists>rp. st_Retry step = Some rp \<and> k < rp_MaxRetries rp)"

lemma runnerPhaseToStepPhase_Failed: "runnerPhaseToStepPhase p = StepPhaseFailed \<longleftrightarrow> p = RunnerPhaseFailed"
  by (cases p) auto

lemma trackStep_retries:
  assumes "map_of rm (st_Name step) = Some r"
  shows "deleted (w_log (lp_world (trackStep e job step st r l))) = deleted (w_log (lp_world l)) \<and>
     retries (st_Name step) (lp_wf (trackStep e job step st r l)) = retries (st_Name step) (lp_wf l) \<or>
   deleted (w_log (lp_world (trackStep e job step st r l))) = deleted (w_log (lp_world l)) @ [ORunner r] \<and>
     retries (st_Name step) (lp_wf (trackStep e job step st r l)) = retries (st_Name step) (lp_wf l) + 1 \<and>
     may_retry rm step (ss_RetryCount (case st of None \<Rightarrow> zero_StepStatus | Some s \<Rightarrow> s)) r"
proof -
  let ?st = "case st of None \<Rightarrow> zero_StepStatus | Some s \<Rightarrow> s" and ?p = "runnerPhaseToStepPhase (rn_Phase r)"
  let ?c = "\<lambda>rp. ?p = StepPhaseFailed \<and> rp_MaxRetries rp > 0 \<and> ss_RetryCount ?st < rp_MaxRetries rp"
  show ?thesis
  proof (cases "\<exists>rp. st_Retry step = Some rp \<and> ?c rp")
    case True
    then obtain rp where rp: "st_Retry step = Some rp" "?c rp" by blast
    then have eq: "trackStep e job step st r l = retryStep e job step rp ?st r l"
      by (simp add: trackStep_def Let_def)
    from rp assms have "may_retry rm step (ss_RetryCount ?st) r"
      by (simp add: may_retry_def runnerPhaseToStepPhase_Failed)
    then show ?thesis unfolding eq using retryStep_retries [of e job step rp ?st r l] by auto
  next
    case False
    then have none: "(case st_Retry step of None \<Rightarrow> None | Some rp \<Rightarrow> if ?c rp then Some rp else None) = None"
      by (cases "st_Retry step") auto
    have eq: "trackStep e job step st r l = (if st = None \<or> ss_Phase ?st \<noteq> ?p then recordStep e step ?p r l else l)"
      unfolding trackStep_def Let_def none by simp
    show ?thesis unfolding eq by (simp add: recordStep_retries)
  qed
qed

context step_builder
begin

lemma reconcileStep_retries:
  "deleted (w_log (lp_world (reconcileStep e build job rm step l))) = deleted (w_log (lp_world l)) \<and>
     retries (st_Name step) (lp_wf (reconcileStep e build job rm step l)) = retries (st_Name step) (lp_wf l) \<or>
   (\<exists>r. deleted (w_log (lp_world (reconcileStep e build job rm step l))) = deleted (w_log (lp_world l)) @ [ORunner r] \<and>
     retries (st_Name step) (lp_wf (reconcileStep e build job rm step l)) = retries (st_Name step) (lp_wf l) + 1 \<and>
     may_retry rm step (ss_RetryCount (case map_of (lp_stepStatusMap l) (st_Name step) of None \<Rightarrow> zero_StepStatus | Some s \<Rightarrow> s)) r)"
proof (cases "evaluateStep step (lp_stepStatusMap l) = stepRun")
  case True
  then show ?thesis
    using trackStep_retries [of rm step _ e job _ l]
    by (cases "map_of rm (st_Name step)")
       (auto simp: reconcileStep_def Let_def startStep_deleted startStep_retries)
next
  case False
  then show ?thesis
    by (cases "evaluateStep step (lp_stepStatusMap l)")
       (auto simp: reconcileStep_def Let_def appendStepStatus_retries zero_StepStatus_def)
qed

end

definition max_retries :: "WorkflowStep \<Rightarrow> int" where
  "max_retries step = (case st_Retry step of None \<Rightarrow> 0 | Some rp \<Rightarrow> rp_MaxRetries rp)"

lemma loop_step_update:
  "in_sync l \<Longrightarrow> step_update (st_Name s) (lp_wf (loop_from e build job rm l xs)) (lp_wf (loop_from e build job rm l (xs @ [s])))"
  using reconcileStep_update [OF loop_in_sync] by simp

context step_builder
begin

lemma loop_deleted:
  "\<exists>rs. deleted (w_log (lp_world (loop_from e build job rm l steps))) = deleted (w_log (lp_world l)) @ map ORunner rs \<and>
     list_all (\<lambda>r. rn_Phase r = RunnerPhaseFailed \<and>
       list_ex (\<lambda>s. map_of rm (st_Name s) = Some r \<and> st_Retry s \<noteq> None) steps) rs"
proof (induction steps rule: rev_induct)
  case (snoc s xs)
  let ?l = "loop_from e build job rm l xs"
  from snoc obtain rs where rs: "deleted (w_log (lp_world ?l)) = deleted (w_log (lp_world l)) @ map ORunner rs"
    "list_all (\<lambda>r. rn_Phase r = RunnerPhaseFailed \<and> list_ex (\<lambda>s. map_of rm (st_Name s) = Some r \<and> st_Retry s \<noteq> None) (xs @ [s])) rs"
    by (auto simp: list_all_iff)
  from reconcileStep_retries [of e job rm s ?l] consider
      "deleted (w_log (lp_world (reconcileStep e build job rm s ?l))) = deleted (w_log (lp_world ?l))"
    | r where "deleted (w_log (lp_world (reconcileStep e build job rm s ?l))) = deleted (w_log (lp_world ?l)) @ [ORunner r]"
        "rn_Phase r = RunnerPhaseFailed \<and> list_ex (\<lambda>s. map_of rm (st_Name s) = Some r \<and> st_Retry s \<noteq> None) (xs @ [s])"
    by (auto simp: may_retry_def)
  then show ?case
  proof cases
    case 1
    with rs show ?thesis by (intro exI [of _ rs]) (simp add: list_all_iff)
  next
    case 2
    with rs show ?thesis by (intro exI [of _ "rs @ [r]"]) (simp add: list_all_iff)
  qed
qed auto

lemma loop_retries:
  assumes "in_sync l" "distinct (map ss_Name (wf_StepStatuses (lp_wf l)))"
    and "distinct (map st_Name steps)" "s \<in> set steps"
  shows "retries (st_Name s) (lp_wf (loop_from e build job rm l steps)) \<le>
         max (retries (st_Name s) (lp_wf l)) (max_retries s)"
  using assms(3,4)
proof (induction steps rule: rev_induct)
  case (snoc t xs)
  let ?l = "loop_from e build job rm l xs"
  show ?case
  proof (cases "s \<in> set xs")
    case True
    with snoc.prems have "st_Name s \<noteq> st_Name t" by (auto simp: image_iff)
    with retries_other [OF loop_step_update [OF assms(1)]] True snoc show ?thesis by simp
  next
    case False
    with snoc.prems have t: "t = s" and fresh: "st_Name s \<notin> st_Name ` set xs" by auto
    have "retries (st_Name s) (lp_wf ?l) = retries (st_Name s) (lp_wf l)"
      using fresh
    proof (induction xs rule: rev_induct)
      case (snoc u us)
      with retries_other [OF loop_step_update [OF assms(1)]] show ?case by simp
    qed simp
    moreover have "distinct (map ss_Name (wf_StepStatuses (lp_wf ?l)))" using loop_names [OF assms(1,2)] by blast
    from retries_in_sync [OF loop_in_sync [OF assms(1)] this]
    have "ss_RetryCount (case map_of (lp_stepStatusMap ?l) (st_Name s) of None \<Rightarrow> zero_StepStatus | Some s \<Rightarrow> s) =
        retries (st_Name s) (lp_wf ?l)" .
    ultimately show ?thesis using reconcileStep_retries [of e job rm s ?l]
      by (auto simp: t may_retry_def max_retries_def)
  qed
qed simp

end

section \<open>Quiescence and tracking\<close>

text \<open>Every branch that changes the Workflow sets \<open>updated\<close>.\<close>

definition quiet_step :: "step_loop \<Rightarrow> step_loop \<Rightarrow> bool" where
  "quiet_step l l' \<longleftrightarrow> (lp_updated l \<longrightarrow> lp_updated l') \<and> (lp_updated l' \<or> lp_wf l' = lp_wf l)"

lemma quiet_ops:
  "quiet_step l l" "quiet_step l (appendStepStatus s l)" "quiet_step l (recordStep e step p r l)"
  "quiet_step l (retryStep e job step rp st r l)" "quiet_step l (startStep e build job step l)"
  by (simp_all add: quiet_step_def appendStepStatus_def recordStep_def retryStep_def startStep_def Let_def split_beta
      split: sum.split)

lemma reconcileStep_quiet: "quiet_step l (reconcileStep e build job rm step l)"
  by (simp add: reconcileStep_def trackStep_def Let_def quiet_ops split: stepDecision.split option.split)

lemma loop_quiet: "quiet_step l (loop_from e build job rm l steps)"
proof (induction steps rule: rev_induct)
  case (snoc s xs)
  with reconcileStep_quiet [of "loop_from e build job rm l xs" e build job rm s] show ?case
    by (auto simp: quiet_step_def)
qed (simp add: quiet_ops)

lemma finished_untouched:
  assumes "in_sync l" "terminalStep (map_of (buildStepStatusMap (lp_wf l)) n)" "map_of rm n \<noteq> None"
  shows "map_of (buildStepStatusMap (lp_wf (loop_from e build job rm l steps))) n = map_of (buildStepStatusMap (lp_wf l)) n"
proof (induction steps rule: rev_induct)
  case (snoc s xs)
  let ?l = "loop_from e build job rm l xs"
  show ?case
  proof (cases "st_Name s = n")
    case True
    with assms(2,3) snoc loop_in_sync [OF assms(1), of e build job rm xs] have "reconcileStep e build job rm s ?l = ?l"
      unfolding in_sync_def by (simp add: reconcileStep_def)
    with snoc show ?thesis by simp
  next
    case False
    with step_update_lookup_other [OF loop_step_update [OF assms(1)], of n s e build job rm xs] snoc show ?thesis by auto
  qed
qed simp

lemma recordStep_phase:
  assumes "distinct (map ss_Name (wf_StepStatuses (lp_wf l)))"
  shows "map_option ss_Phase (map_of (buildStepStatusMap (lp_wf (recordStep e step p r l))) (st_Name step)) = Some p"
proof -
  let ?logs = "if p = StepPhaseFailed then fetchPodLogs e r (lp_world l) else []"
  let ?W = "if ?logs \<noteq> [] then wf_setStatus (wst_StepStatuses_update
      (update_first (\<lambda>s. ss_Name s = st_Name step) (\<lambda>s. s\<lparr>ss_Message := ?logs\<rparr>))) (lp_wf l) else lp_wf l"
  have W: "lp_wf (recordStep e step p r l) = fst (upsertStepStatus e (st_Name step) p ?W (lp_world l))"
    by (simp add: recordStep_def Let_def split_beta)
  from assms have "distinct (map ss_Name (wf_StepStatuses ?W))"
    by (simp add: map_update_first [where g = ss_Name])
  then have d: "distinct (map ss_Name (wf_StepStatuses (fst (upsertStepStatus e (st_Name step) p ?W (lp_world l)))))"
    by (rule step_table.upsert_distinct)
  from step_table.upsert_same [of "st_Name step" e p ?W "lp_world l"] show ?thesis
    unfolding W buildStepStatusMap_def map_of_index_by_distinct [OF d] by auto
qed

lemma step_follows_runner:
  assumes sync: "in_sync l" and dist: "distinct (map ss_Name (wf_StepStatuses (lp_wf l)))"
    and steps: "distinct (map st_Name steps)" "deps_first steps" "s \<in> set steps"
    and r: "map_of rm (st_Name s) = Some r" "st_Retry s = None \<or> rn_Phase r \<noteq> RunnerPhaseFailed"
    and unfinished: "\<not> terminalStep (map_of (buildStepStatusMap (lp_wf l)) (st_Name s))"
    and run: "evaluateStep s (buildStepStatusMap (lp_wf (loop_from e build job rm l steps))) = stepRun"
  shows "map_option ss_Phase (map_of (buildStepStatusMap (lp_wf (loop_from e build job rm l steps))) (st_Name s)) =
         Some (runnerPhaseToStepPhase (rn_Phase r))"
  using steps run
proof (induction steps rule: rev_induct)
  case (snoc t xs)
  let ?l = "loop_from e build job rm l xs"
  from snoc.prems have pre: "distinct (map st_Name xs)" "deps_first xs" by (auto simp: deps_first_snoc)
  have run: "evaluateStep s (buildStepStatusMap (lp_wf ?l)) = stepRun"
    using decision_stable [OF sync snoc.prems(1-3)] snoc.prems(4) by simp
  have map: "lp_stepStatusMap ?l = buildStepStatusMap (lp_wf ?l)"
    using loop_in_sync [OF sync, of e build job rm xs] by (simp add: in_sync_def)
  show ?case
  proof (cases "s \<in> set xs")
    case True
    with snoc.prems have "st_Name s \<noteq> st_Name t" by (auto simp: image_iff)
    with step_update_lookup_other [OF loop_step_update [OF sync], of "st_Name s" t e build job rm xs]
      snoc.IH [OF pre True run] show ?thesis by simp
  next
    case False
    with snoc.prems have t: "t = s" and fresh: "st_Name s \<notin> st_Name ` set xs" by auto
    have same: "map_of (lp_stepStatusMap ?l) (st_Name s) = map_of (buildStepStatusMap (lp_wf l)) (st_Name s)"
      unfolding map by (rule loop_lookup_other [OF sync fresh])
    have d: "distinct (map ss_Name (wf_StepStatuses (lp_wf ?l)))" using loop_names [OF sync dist] by blast
    let ?p = "runnerPhaseToStepPhase (rn_Phase r)" and ?st = "map_of (lp_stepStatusMap ?l) (st_Name s)"
    have "reconcileStep e build job rm s ?l = trackStep e job s ?st r ?l"
      using unfinished run r same by (simp add: reconcileStep_def map)
    also have "\<dots> = (if map_option ss_Phase ?st = Some ?p then ?l else recordStep e s ?p r ?l)"
      using r(2) by (auto simp: trackStep_def Let_def runnerPhaseToStepPhase_Failed split: option.split)
    finally show ?thesis using recordStep_phase [OF d, of e s ?p r] by (auto simp: t map)
  qed
qed simp

end
