(* ===== verification/Step_Properties.thy ===== *)
theory Step_Properties
  imports Workflow_Steps
begin

text \<open>
  The properties of the step engine: which Runners a pass over the steps creates and deletes,
  what happens to the recorded statuses, the names of the Runners, the retry backoff and the
  excerpt of the logs.  They rest on the lemmas of the locale \<open>step_builder\<close> through its two
  interpretations.
\<close>

section \<open>Names\<close>

definition name_char :: "char \<Rightarrow> bool" where
  "name_char c \<longleftrightarrow> (let n = of_char c :: nat in 97 \<le> n \<and> n \<le> 122 \<or> 48 \<le> n \<and> n \<le> 57 \<or> n = 45)"

lemma sanitize_rune_valid: "name_char (sanitize_rune r)"
  by (auto simp: sanitize_rune_def name_char_def Let_def)

lemma trim_take_hyphen:
  assumes "list_all name_char s"
  shows "list_all name_char (trim_by P s)" "list_all name_char (take n s)"
  using assms trim_by_subset [of P s] by (auto simp: list_all_iff dest: in_set_takeD)

lemma runes_name: "list_all name_char s \<Longrightarrow> runes s = map of_char s"
  unfolding runes_def by (induction s) (auto simp: name_char_def Let_def)

lemma sanitize_rune_id: "name_char c \<Longrightarrow> sanitize_rune (of_char c) = c"
  by (auto simp: sanitize_rune_def name_char_def Let_def) (metis char_of_char)

lemma trim_by_id: "s \<noteq> [] \<Longrightarrow> \<not> P (hd s) \<Longrightarrow> \<not> P (last s) \<Longrightarrow> trim_by P s = s"
proof -
  assume s: "s \<noteq> []" "\<not> P (hd s)" "\<not> P (last s)"
  from s(1,2) have "dropWhile P s = s" by (cases s) auto
  moreover from s(1,3) have "dropWhile P (rev s) = rev s" by (cases s rule: rev_cases) auto
  ultimately show ?thesis by (simp add: trim_by_def)
qed

text \<open>What Kubernetes accepts as the last part of a name, within the 50 characters the controller allows.\<close>

definition usable_name :: "string \<Rightarrow> bool" where
  "usable_name s \<longleftrightarrow> s \<noteq> [] \<and> length s \<le> 50 \<and> list_all name_char s \<and> hd s \<noteq> CHR ''-'' \<and> last s \<noteq> CHR ''-''"

text \<open>
  C37. The name of a Runner is usable: whatever text a step is named, bytes that are not UTF-8 included,
  the suffix \<open>sanitizeStepName\<close> derives from it is not empty, has at most 50 characters, only lower
  case letters, digits and hyphens, and no hyphen at either end; and a name that is so already is
  left as it is, so that the suffix of a sanitized name is the name itself.
\<close>

theorem sanitizeStepName_valid:
  "usable_name (sanitizeStepName name) \<and> (sanitizeStepName name = name \<longleftrightarrow> usable_name name)"
proof -
  let ?hy = "\<lambda>c. c = CHR ''-''"
  define a where "a = trim_by ?hy (map sanitize_rune (runes name))"
  define b where "b = (if length a > 50 then take 50 a else a)"
  have "list_all name_char (map sanitize_rune (runes name))" by (simp add: list_all_iff sanitize_rune_valid)
  then have "list_all name_char b" unfolding b_def a_def using trim_take_hyphen by auto
  moreover have "length b \<le> 50" by (simp add: b_def)
  then have "length (trim_by ?hy b) \<le> 50" using length_trim_by [of ?hy b] by simp
  ultimately have "trim_by ?hy b \<noteq> [] \<Longrightarrow> usable_name (trim_by ?hy b)"
    unfolding usable_name_def using trim_take_hyphen(1) hd_trim_by [of ?hy b] last_trim_by [of ?hy b] by blast
  moreover have "usable_name ''step''" by code_simp
  moreover have eq: "sanitizeStepName name = (if trim_by ?hy b = [] then ''step'' else trim_by ?hy b)"
    by (simp add: sanitizeStepName_def a_def b_def Let_def)
  ultimately have valid: "usable_name (sanitizeStepName name)" by auto
  have "sanitizeStepName name = name" if u: "usable_name name"
  proof -
    have "map sanitize_rune (runes name) = name"
      using u by (simp add: usable_name_def runes_name list_all_iff sanitize_rune_id map_idI)
    moreover have "trim_by ?hy name = name" using u by (intro trim_by_id) (auto simp: usable_name_def)
    ultimately show ?thesis using u by (simp add: eq a_def b_def usable_name_def)
  qed
  with valid show ?thesis by metis
qed

text \<open>
  The suffix does not tell all steps apart: two steps of one Workflow with different names can
  ask for Runners of the same name, so that the second cannot be created while the first exists.
\<close>

lemma sanitizeStepName_collision:
  "''unit test'' \<noteq> ''unit-test'' \<and>
   rn_Name (fst (buildStepRunner e W (s\<lparr>st_Name := ''unit test''\<rparr>) w)) =
   rn_Name (fst (buildStepRunner e W (s\<lparr>st_Name := ''unit-test''\<rparr>) w))"
proof -
  have "sanitizeStepName ''unit test'' = sanitizeStepName ''unit-test''" by code_simp
  then show ?thesis by (simp add: buildStepRunner_meta)
qed

section \<open>Backoff and logs\<close>

lemma double_pow: "((\<lambda>d. d * 2) ^^ n) (d :: duration) = d * 2 ^ n"
  by (induction n) (simp_all add: algebra_simps)

lemma sint_double_pow:
  assumes "0 \<le> sint d" "sint d * 2 ^ n \<le> max_int64"
  shows "sint ((d :: duration) * 2 ^ n) = sint d * 2 ^ n"
proof -
  have "d * 2 ^ n = word_of_int (sint d * 2 ^ n)" by simp
  moreover have "0 \<le> sint d * 2 ^ n" using assms(1) by (rule mult_nonneg_nonneg) simp
  then have "min_int64 \<le> sint d * 2 ^ n" unfolding min_int64_def by linarith
  ultimately show ?thesis using sint_word_of_int_small [OF _ assms(2)] by simp
qed

text \<open>
  As long as the doubled delay fits in 64 bits, the backoff is the documented one: a retry is
  due exactly when the time since the step's completion has reached \<open>InitialDelay * 2^retryCount\<close>,
  capped at \<open>MaxDelay\<close>.
\<close>

lemma retryBackoffElapsed_exact:
  assumes "st_Retry step = Some rp" "rp_Backoff rp = Some b" "ss_CompletedAt status = Some t"
    and "0 \<le> sint (bc_InitialDelay b)" "sint (bc_InitialDelay b) * 2 ^ nat (ss_RetryCount status) \<le> max_int64"
  shows "fst (retryBackoffElapsed e step status w) \<longleftrightarrow>
    (let delay = sint (bc_InitialDelay b) * 2 ^ nat (ss_RetryCount status);
         cap = (case bc_MaxDelay b of None \<Rightarrow> delay | Some m \<Rightarrow> min delay (sint m))
     in cap \<le> sint (time_Sub (e_clock e (w_reads w)) t))"
  using assms sint_double_pow [OF assms(4,5)]
  by (auto simp: retryBackoffElapsed_def Let_def split_beta double_pow split: option.split)

definition backoff_step :: "int \<Rightarrow> WorkflowStep" where
  "backoff_step n = zero_WorkflowStep\<lparr>st_Name := ''flaky'', st_Retry := Some \<lparr>rp_MaxRetries = 100,
     rp_Backoff = Some \<lparr>bc_InitialDelay = seconds 10, bc_MaxDelay = Some (seconds n)\<rparr>\<rparr>\<rparr>"

definition backoff_status :: "int \<Rightarrow> StepStatus" where
  "backoff_status k = zero_StepStatus\<lparr>ss_Name := ''flaky'', ss_Phase := StepPhasePending, ss_RetryCount := k,
     ss_CompletedAt := Some 0\<rparr>"

lemma retryBackoffElapsed_exact_example:
  "\<not> fst (retryBackoffElapsed sample_env (backoff_step 300) (backoff_status 3) sample_world)"
proof -
  have s: "sint (seconds 10) = 10000000000" "sint (seconds 300) = 300000000000"
    by (simp_all add: seconds_def sint_word_of_int_small min_int64_def max_int64_def)
  have "fst (retryBackoffElapsed sample_env (backoff_step 300) (backoff_status 3) sample_world) \<longleftrightarrow>
      (let delay = sint (seconds 10) * 2 ^ nat (ss_RetryCount (backoff_status 3))
       in min delay (sint (seconds 300)) \<le> sint (time_Sub (e_clock sample_env (w_reads sample_world)) 0))"
    using retryBackoffElapsed_exact [of "backoff_step 300" _ _ "backoff_status 3" 0 sample_env sample_world]
    by (simp add: backoff_step_def backoff_status_def zero_WorkflowStep_def zero_StepStatus_def s max_int64_def)
  then show ?thesis
    by (simp add: s backoff_status_def sample_env_def sample_world_def sint_time_Sub min_int64_def max_int64_def)
qed

text \<open>
  Beyond 64 bits the doubling wraps around: after 30 retries of a step with an initial delay of
  ten seconds and a cap of five minutes the delay is negative, so the cap does not apply and a
  retry is due at once.
\<close>

lemma retryBackoffElapsed_wraps:
  "sint (((\<lambda>d. d * 2) ^^ 30) (seconds 10)) < 0 \<and>
   fst (retryBackoffElapsed sample_env (backoff_step 300) (backoff_status 30) sample_world)"
proof -
  have neg: "sint (((\<lambda>d. d * 2) ^^ 30) (seconds 10)) = - 7709325833709551616"
    by code_simp
  have cap: "sint (seconds 300) = 300000000000"
    by (simp add: seconds_def sint_word_of_int_small min_int64_def max_int64_def)
  from neg show ?thesis
    by (simp add: retryBackoffElapsed_def backoff_step_def backoff_status_def zero_WorkflowStep_def
        zero_StepStatus_def sample_env_def sample_world_def split_beta sint_time_Sub min_int64_def max_int64_def cap)
qed

text \<open>
  The excerpt of a Pod's log that goes into a step's status is never longer than 4096 bytes,
  and it is the end of what the server returned.
\<close>

lemma fetchPodLogs_bounded:
  "length (fetchPodLogs e r w) \<le> 4096 \<and>
   (fetchPodLogs e r w = [] \<or>
    (\<exists>pod before. e_PodLogs e w (rn_Namespace r) pod ''runner'' 50 = Inr (before @ fetchPodLogs e r w)))"
proof -
  have "(if length xs > maxLogBytes then drop (length xs - maxLogBytes) xs else xs) = drop (length xs - maxLogBytes) xs"
    for xs :: string by simp
  then have "fetchPodLogs e r w = [] \<or> (\<exists>pod xs. e_PodLogs e w (rn_Namespace r) pod ''runner'' 50 = Inr xs \<and>
      fetchPodLogs e r w = drop (length xs - maxLogBytes) xs)"
    by (auto simp: fetchPodLogs_def Let_def split: sum.split list.split)
  then show ?thesis
  proof (elim disjE exE conjE)
    fix pod xs
    assume a: "e_PodLogs e w (rn_Namespace r) pod ''runner'' 50 = Inr xs"
      "fetchPodLogs e r w = drop (length xs - maxLogBytes) xs"
    then have "e_PodLogs e w (rn_Namespace r) pod ''runner'' 50 =
        Inr (take (length xs - maxLogBytes) xs @ fetchPodLogs e r w)" by simp
    moreover have "length (fetchPodLogs e r w) \<le> 4096" using a(2) by (simp add: maxLogBytes_def)
    ultimately show ?thesis by blast
  qed simp
qed

section \<open>One pass over the steps\<close>

definition flat_pass :: "env \<Rightarrow> Runner list \<Rightarrow> Workflow \<Rightarrow> world \<Rightarrow> step_loop" where
  "flat_pass e runners W w =
     loop_from e (buildStepRunner e) [] (buildRunnerMap runners) (step_loop_init W w) (wsp_Steps (wf_Spec W))"

lemma reconcileSteps_eq:
  "reconcileSteps e runners W w =
     (lp_updated (flat_pass e runners W w), lp_wf (flat_pass e runners W w), lp_world (flat_pass e runners W w))"
  by (simp add: reconcileSteps_def reconcileStepLoop_eq flat_pass_def Let_def)

text \<open>
  When a step is due, as the specification has it, on the phases recorded for its dependencies: all of
  them are recorded and none is Pending, Running or Waiting, and the condition of the step holds:
  \<open>always\<close> in any case, \<open>on_failure\<close> if one of them has failed, otherwise if all have succeeded.
\<close>

definition stepPhaseIn :: "Workflow \<Rightarrow> string \<Rightarrow> StepPhase option" where
  "stepPhaseIn W n = map_option ss_Phase (map_of (buildStepStatusMap W) n)"

definition step_due :: "Workflow \<Rightarrow> WorkflowStep \<Rightarrow> bool" where
  "step_due W s \<longleftrightarrow>
     (\<forall>d \<in> set (st_DependsOn s).
        stepPhaseIn W d \<notin> {None, Some StepPhasePending, Some StepPhaseRunning, Some StepPhaseWaiting}) \<and>
     (if TrimSpace (st_When s) = ''always'' then True
      else if TrimSpace (st_When s) = ''on_failure''
        then \<exists>d \<in> set (st_DependsOn s). stepPhaseIn W d = Some StepPhaseFailed
      else \<forall>d \<in> set (st_DependsOn s). stepPhaseIn W d = Some StepPhaseSucceeded)"

text \<open>
  The comment on \<open>evaluateStep\<close> and its code agree on a step unless it is to run on failure and one
  of its dependencies was skipped (or is recorded without a phase).
\<close>

definition when_undisputed :: "Workflow \<Rightarrow> WorkflowStep \<Rightarrow> bool" where
  "when_undisputed W s \<longleftrightarrow>
     TrimSpace (st_When s) \<noteq> ''on_failure'' \<or>
     (\<forall>d \<in> set (st_DependsOn s). stepPhaseIn W d \<noteq> Some StepPhaseSkipped \<and> stepPhaseIn W d \<noteq> Some StepPhaseUnset)"

lemma finished_phase:
  "p \<notin> {None, Some StepPhasePending, Some StepPhaseRunning, Some StepPhaseWaiting} \<longleftrightarrow>
   p \<in> {Some StepPhaseSucceeded, Some StepPhaseFailed, Some StepPhaseSkipped, Some StepPhaseUnset}"
  by (cases p; cases "the p") auto

lemma evaluateStep_run_iff:
  assumes "when_undisputed W s"
  shows "evaluateStep s (buildStepStatusMap W) = stepRun \<longleftrightarrow> step_due W s"
proof -
  let ?m = "buildStepStatusMap W" and ?p = "stepPhaseIn W" and ?ds = "st_DependsOn s"
  have wait: "(case map_of ?m d of None \<Rightarrow> True
      | Some status \<Rightarrow> ss_Phase status = StepPhasePending \<or> ss_Phase status = StepPhaseRunning \<or> ss_Phase status = StepPhaseWaiting) \<longleftrightarrow>
      ?p d \<in> {None, Some StepPhasePending, Some StepPhaseRunning, Some StepPhaseWaiting}" for d
    by (cases "map_of ?m d") (auto simp: stepPhaseIn_def)
  have succ: "(case map_of ?m d of None \<Rightarrow> False | Some status \<Rightarrow> ss_Phase status = StepPhaseSucceeded) \<longleftrightarrow>
      ?p d = Some StepPhaseSucceeded" for d
    by (cases "map_of ?m d") (auto simp: stepPhaseIn_def)
  have "evaluateStep s ?m = stepRun \<longleftrightarrow>
      (\<forall>d \<in> set ?ds. ?p d \<notin> {None, Some StepPhasePending, Some StepPhaseRunning, Some StepPhaseWaiting}) \<and>
      (if TrimSpace (st_When s) = ''always'' then True
       else if TrimSpace (st_When s) = ''on_failure'' then \<not> (\<forall>d \<in> set ?ds. ?p d = Some StepPhaseSucceeded)
       else \<forall>d \<in> set ?ds. ?p d = Some StepPhaseSucceeded)"
    unfolding evaluateStep_def wait succ list_ex_iff list_all_iff by (simp add: Let_def defaultWhen_def)
  then show ?thesis
    using assms unfolding step_due_def when_undisputed_def finished_phase by (auto split: if_splits)
qed

lemma buildRunnerMap_None: "map_of (buildRunnerMap runners) n = None \<longleftrightarrow> Some n \<notin> stepOf ` set runners"
  unfolding buildRunnerMap_def
  by (induction runners rule: rev_induct) (auto simp: stepOf_def update_conv' split: option.splits)

text \<open>
  C5. One pass over the sorted steps asks for exactly the Runners that are due: in the order of the
  steps, one for every step that has no Runner, whose dependencies are all recorded and none Pending,
  Running or Waiting, on the statuses the pass leaves behind, and whose \<open>when\<close> condition holds
  (\<open>always\<close>; \<open>on_failure\<close> after a failed dependency; otherwise after success of all), and for no other
  step.  A step that is to run on failure after a skipped dependency is left aside: there the code
  does not follow its comment (\<open>on_failure_runs_after_skip\<close>).
\<close>

theorem reconcileSteps_starts_exactly_ready:
  assumes "distinct (map st_Name steps)" "wsp_Steps (wf_Spec W) = topologicalSortSteps steps"
    and "sets_owner (e_SetControllerReference e)" "can_own (e_SetControllerReference e)"
    and "reconcileSteps e runners W w = (updated, W', w')" "list_all (when_undisputed W') steps"
  shows "map stepOf (created_runners (w_log w')) = map stepOf (created_runners (w_log w)) @
      map (Some \<circ> st_Name)
        (filter (\<lambda>s. (\<forall>r \<in> set runners. stepOf r \<noteq> Some (st_Name s)) \<and> step_due W' s) (wsp_Steps (wf_Spec W)))"
proof -
  let ?ss = "wsp_Steps (wf_Spec W)" and ?rm = "buildRunnerMap runners"
  let ?l = "loop_from e (buildStepRunner e) [] ?rm (step_loop_init W w) ?ss"
  have sorted: "distinct (map st_Name ?ss)" "deps_first ?ss"
    unfolding assms(2) using assms(1) by (rule topologicalSortSteps_distinct, rule deps_first_sorted)
  from flat_steps.loop_created [OF assms(3) in_sync_init this, of e "[]" ?rm W w] assms(4)
  have created: "map stepOf (created_runners (w_log (lp_world ?l))) = map stepOf (created_runners (w_log w)) @
      map (Some \<circ> st_Name) (filter (gate ?rm ?l) ?ss)" by auto
  have res: "W' = lp_wf ?l" "w' = lp_world ?l" using assms(5) by (simp_all add: reconcileSteps_eq flat_pass_def)
  have "set ?ss \<subseteq> set steps" unfolding assms(2) using assms(1) by (rule topologicalSortSteps_subset)
  then have "filter (gate ?rm ?l) ?ss = filter (\<lambda>s. (\<forall>r \<in> set runners. stepOf r \<noteq> Some (st_Name s)) \<and> step_due W' s) ?ss"
    using assms(6) evaluateStep_run_iff [of W']
    by (intro filter_cong) (auto simp: gate_def buildRunnerMap_None res(1) list_all_iff image_iff)
  with created show ?thesis by (simp add: res(2))
qed

definition sample_workflow :: "WorkflowStep list \<Rightarrow> StepStatus list \<Rightarrow> Workflow" where
  "sample_workflow steps statuses =
     \<lparr>wf_Meta = zero_ObjectMeta\<lparr>om_Name := ''build'', om_Namespace := ''ci'', om_Generation := 1\<rparr>,
      wf_Spec = \<lparr>wsp_Jobs = [], wsp_Steps = steps, wsp_Timeout = None\<rparr>,
      wf_Status = zero_WorkflowStatus\<lparr>wst_StepStatuses := statuses\<rparr>\<rparr>"

definition sample_status :: "string \<Rightarrow> StepPhase \<Rightarrow> StepStatus" where
  "sample_status n p = zero_StepStatus\<lparr>ss_Name := n, ss_Phase := p\<rparr>"

definition sample_runner :: "string \<Rightarrow> RunnerPhase \<Rightarrow> Runner" where
  "sample_runner n p =
     \<lparr>rn_Meta = zero_ObjectMeta\<lparr>om_Name := ''build-'' @ n, om_Namespace := ''ci'', om_Labels := [(step_label, n)]\<rparr>,
      rn_Spec = zero_RunnerSpec, rn_Status = zero_RunnerStatus\<lparr>rst_Phase := p\<rparr>\<rparr>"

theorem reconcileSteps_starts_exactly_ready_witness:
  "map stepOf (created_runners (w_log (snd (snd (reconcileSteps sample_env [sample_runner ''a'' RunnerPhaseSucceeded]
        (sample_workflow (topologicalSortSteps diamond) [sample_status ''a'' StepPhaseRunning]) sample_world))))) = [Some ''b'']"
proof -
  let ?r = "[sample_runner ''a'' RunnerPhaseSucceeded]"
  let ?W = "sample_workflow (topologicalSortSteps diamond) [sample_status ''a'' StepPhaseRunning]"
  let ?res = "reconcileSteps sample_env ?r ?W sample_world"
  have d: "distinct (map st_Name diamond)" by code_simp
  have W: "wsp_Steps (wf_Spec ?W) = topologicalSortSteps diamond" by (simp add: sample_workflow_def)
  have res: "?res = (fst ?res, fst (snd ?res), snd (snd ?res))" by simp
  have un: "list_all (when_undisputed (fst (snd ?res))) diamond" by code_simp
  have "map (Some \<circ> st_Name) (filter (\<lambda>s. (\<forall>r \<in> set ?r. stepOf r \<noteq> Some (st_Name s)) \<and> step_due (fst (snd ?res)) s)
      (wsp_Steps (wf_Spec ?W))) = [Some ''b'']"
    by code_simp
  with reconcileSteps_starts_exactly_ready [OF d W sample_env_ok(2,3) res un] show ?thesis by (simp add: sample_world_def)
qed

text \<open>
  A pass deletes nothing but failed Runners of the Workflow whose step has a retry policy; a
  Runner that is pending, running or succeeded is never deleted.
\<close>

lemma reconcileSteps_deletes_only_failed:
  "case reconcileSteps e runners W w of (updated, W', w') \<Rightarrow>
     \<exists>rs. deleted (w_log w') = deleted (w_log w) @ map ORunner rs \<and>
       list_all (\<lambda>r. r \<in> set runners \<and> rn_Phase r = RunnerPhaseFailed \<and>
         list_ex (\<lambda>s. stepOf r = Some (st_Name s) \<and> st_Retry s \<noteq> None) (wsp_Steps (wf_Spec W))) rs"
proof -
  from flat_steps.loop_deleted [of e e "[]" "buildRunnerMap runners" "step_loop_init W w" "wsp_Steps (wf_Spec W)"]
  obtain rs where rs: "deleted (w_log (lp_world (flat_pass e runners W w))) = deleted (w_log w) @ map ORunner rs"
    "list_all (\<lambda>r. rn_Phase r = RunnerPhaseFailed \<and>
       list_ex (\<lambda>s. map_of (buildRunnerMap runners) (st_Name s) = Some r \<and> st_Retry s \<noteq> None) (wsp_Steps (wf_Spec W))) rs"
    unfolding flat_pass_def by auto
  from rs(2) have "list_all (\<lambda>r. r \<in> set runners \<and> rn_Phase r = RunnerPhaseFailed \<and>
      list_ex (\<lambda>s. stepOf r = Some (st_Name s) \<and> st_Retry s \<noteq> None) (wsp_Steps (wf_Spec W))) rs"
    by (fastforce simp: list_all_iff list_ex_iff dest: buildRunnerMap_Some)
  with rs(1) show ?thesis by (auto simp: reconcileSteps_eq)
qed

text \<open>
  C28. The retry budget is never exceeded: in a pass over steps with distinct names, the retry count
  of a step ends at most at the \<open>maxRetries\<close> of its policy (0 without a policy), or where it was
  if it was higher already.
\<close>

theorem reconcileSteps_retry_bounded:
  assumes "distinct (map ss_Name (wf_StepStatuses W))" "distinct (map st_Name (wsp_Steps (wf_Spec W)))"
    and "s \<in> set (wsp_Steps (wf_Spec W))"
  shows "case reconcileSteps e runners W w of (updated, W', w') \<Rightarrow>
    retries (st_Name s) W' \<le> max (retries (st_Name s) W) (max_retries s)"
  using flat_steps.loop_retries [of "step_loop_init W w", OF in_sync_init _ assms(2,3)] assms(1)
  by (simp add: reconcileSteps_eq flat_pass_def)

definition retry_step :: WorkflowStep where
  "retry_step = zero_WorkflowStep\<lparr>st_Name := ''a'', st_Retry := Some \<lparr>rp_MaxRetries = 2, rp_Backoff = None\<rparr>\<rparr>"

theorem reconcileSteps_retry_bounded_witness:
  "case reconcileSteps sample_env [sample_runner ''a'' RunnerPhaseFailed]
       (sample_workflow [retry_step] [(sample_status ''a'' StepPhaseRunning)\<lparr>ss_RetryCount := 1\<rparr>]) sample_world
     of (updated, W', w') \<Rightarrow> retries ''a'' W' = 2 \<and> retries ''a'' W' \<le> max_retries retry_step"
proof -
  let ?W = "sample_workflow [retry_step] [(sample_status ''a'' StepPhaseRunning)\<lparr>ss_RetryCount := 1\<rparr>]"
  let ?r = "[sample_runner ''a'' RunnerPhaseFailed]"
  have "retries ''a'' (fst (snd (reconcileSteps sample_env ?r ?W sample_world))) = 2" by code_simp
  moreover have "retries ''a'' ?W = 1" "max_retries retry_step = 2" "st_Name retry_step = ''a''" by code_simp+
  moreover have "distinct (map ss_Name (wf_StepStatuses ?W))" "distinct (map st_Name (wsp_Steps (wf_Spec ?W)))"
    "retry_step \<in> set (wsp_Steps (wf_Spec ?W))" by (simp_all add: sample_workflow_def)
  from reconcileSteps_retry_bounded [OF this, of sample_env ?r sample_world]
  have "case reconcileSteps sample_env ?r ?W sample_world of (updated, W', w') \<Rightarrow>
    retries (st_Name retry_step) W' \<le> max (retries (st_Name retry_step) ?W) (max_retries retry_step)" .
  ultimately show ?thesis by (simp add: split_beta)
qed

lemma loop_only_statuses:
  "in_sync l \<Longrightarrow> lp_wf (loop_from e build job rm l steps) =
     wf_setStatus (wst_StepStatuses_update (\<lambda>_. wf_StepStatuses (lp_wf (loop_from e build job rm l steps)))) (lp_wf l)"
proof (induction steps rule: rev_induct)
  case (snoc s xs)
  have set: "V = wf_setStatus (wst_StepStatuses_update (\<lambda>_. wf_StepStatuses V)) W'"
    if "V = wf_setStatus (wst_StepStatuses_update (\<lambda>_. wf_StepStatuses V)) U"
       "U = wf_setStatus (wst_StepStatuses_update (\<lambda>_. ss)) W'" for U V W' :: Workflow and ss
  proof -
    have "V = wf_setStatus (wst_StepStatuses_update (\<lambda>_. wf_StepStatuses V)) (wf_setStatus (wst_StepStatuses_update (\<lambda>_. ss)) W')"
      using that by simp
    then show ?thesis by simp
  qed
  show ?case
    by (rule set [OF _ snoc.IH [OF snoc.prems]])
       (rule loop_step_update [OF snoc.prems, unfolded step_update_def, THEN conjunct1])
qed simp

lemma loop_appends_names:
  assumes "in_sync l"
  shows "\<exists>new. map ss_Name (wf_StepStatuses (lp_wf (loop_from e build job rm l steps))) =
      map ss_Name (wf_StepStatuses (lp_wf l)) @ new \<and> distinct new \<and>
      set new \<inter> set (map ss_Name (wf_StepStatuses (lp_wf l))) = {} \<and> set new \<subseteq> set (map st_Name steps)"
proof (induction steps rule: rev_induct)
  case (snoc s xs)
  then obtain new where new: "map ss_Name (wf_StepStatuses (lp_wf (loop_from e build job rm l xs))) =
      map ss_Name (wf_StepStatuses (lp_wf l)) @ new" "distinct new"
      "set new \<inter> set (map ss_Name (wf_StepStatuses (lp_wf l))) = {}" "set new \<subseteq> set (map st_Name xs)" by blast
  from loop_step_update [OF assms, of s e build job rm xs] consider
      "map ss_Name (wf_StepStatuses (lp_wf (loop_from e build job rm l (xs @ [s])))) =
       map ss_Name (wf_StepStatuses (lp_wf (loop_from e build job rm l xs)))"
    | "st_Name s \<notin> set (map ss_Name (wf_StepStatuses (lp_wf (loop_from e build job rm l xs))))"
      "map ss_Name (wf_StepStatuses (lp_wf (loop_from e build job rm l (xs @ [s])))) =
       map ss_Name (wf_StepStatuses (lp_wf (loop_from e build job rm l xs))) @ [st_Name s]"
    unfolding step_update_def by auto
  then show ?case
  proof cases
    case 1
    with new show ?thesis by (intro exI [of _ new]) auto
  next
    case 2
    with new show ?thesis by (intro exI [of _ "new @ [st_Name s]"]) auto
  qed
qed simp

text \<open>
  A pass changes nothing of the Workflow but its step statuses, and of these it only edits the
  entries or appends one entry for a step of the spec that had none; when it reports no update the
  Workflow is exactly as before, so nothing is lost when the status is not written.
\<close>

lemma reconcileSteps_only_statuses:
  "case reconcileSteps e runners W w of (updated, W', w') \<Rightarrow>
     (updated \<or> W' = W) \<and>
     W' = wf_setStatus (wst_StepStatuses_update (\<lambda>_. wf_StepStatuses W')) W \<and>
     (\<exists>new. map ss_Name (wf_StepStatuses W') = map ss_Name (wf_StepStatuses W) @ new \<and> distinct new \<and>
        set new \<inter> set (map ss_Name (wf_StepStatuses W)) = {} \<and> set new \<subseteq> set (map st_Name (wsp_Steps (wf_Spec W))))"
  using loop_quiet [of "step_loop_init W w" e "buildStepRunner e" "[]" "buildRunnerMap runners" "wsp_Steps (wf_Spec W)"]
    loop_only_statuses [OF in_sync_init, of e "buildStepRunner e" "[]" "buildRunnerMap runners" W w "wsp_Steps (wf_Spec W)"]
    loop_appends_names [OF in_sync_init, of e "buildStepRunner e" "[]" "buildRunnerMap runners" W w "wsp_Steps (wf_Spec W)"]
  by (simp add: reconcileSteps_eq flat_pass_def quiet_step_def)

text \<open>
  A finished step stays finished: the entry of a step that has succeeded, failed or been skipped
  and still has its Runner is the same after a pass as before it.
\<close>

lemma reconcileSteps_keeps_finished:
  assumes "terminalStep (map_of (buildStepStatusMap W) n)" "map_of (buildRunnerMap runners) n \<noteq> None"
  shows "case reconcileSteps e runners W w of (updated, W', w') \<Rightarrow>
    map_of (buildStepStatusMap W') n = map_of (buildStepStatusMap W) n"
  using finished_untouched [of "step_loop_init W w" n "buildRunnerMap runners"] assms
  by (simp add: reconcileSteps_eq flat_pass_def)

lemma reconcileSteps_keeps_finished_example:
  "case reconcileSteps sample_env [sample_runner ''a'' RunnerPhaseRunning]
       (sample_workflow [retry_step] [sample_status ''a'' StepPhaseSucceeded]) sample_world
     of (updated, W', w') \<Rightarrow> map_of (buildStepStatusMap W') ''a'' = Some (sample_status ''a'' StepPhaseSucceeded)"
proof -
  let ?W = "sample_workflow [retry_step] [sample_status ''a'' StepPhaseSucceeded]"
  have m: "map_of (buildStepStatusMap ?W) ''a'' = Some (sample_status ''a'' StepPhaseSucceeded)" by code_simp
  have "terminalStep (map_of (buildStepStatusMap ?W) ''a'')" "map_of (buildRunnerMap [sample_runner ''a'' RunnerPhaseRunning]) ''a'' \<noteq> None"
    by code_simp+
  from reconcileSteps_keeps_finished [OF this, of sample_env sample_world] show ?thesis by (simp add: m)
qed

text \<open>
  C31. The status of a step follows its Runner: after a pass, a step that was not finished, is due and
  has a Runner is recorded with the phase the Runner reports: Running, Succeeded or Failed if the
  Runner is, otherwise Pending.  The case of a failed Runner of a step with a retry policy is left
  out (the step may be retried), as is a step that runs on failure after a skipped dependency.
\<close>

theorem reconcileSteps_follows_runner:
  assumes "distinct (map ss_Name (wf_StepStatuses W))"
    and "distinct (map st_Name steps)" "wsp_Steps (wf_Spec W) = topologicalSortSteps steps"
    and "s \<in> set (wsp_Steps (wf_Spec W))" "map_of (buildRunnerMap runners) (st_Name s) = Some r"
      "st_Retry s = None \<or> rn_Phase r \<noteq> RunnerPhaseFailed"
    and "stepPhaseIn W (st_Name s) \<notin> {Some StepPhaseSucceeded, Some StepPhaseFailed, Some StepPhaseSkipped}"
    and "reconcileSteps e runners W w = (updated, W', w')" "when_undisputed W' s" "step_due W' s"
  shows "stepPhaseIn W' (st_Name s) =
    Some (case rn_Phase r of RunnerPhaseRunning \<Rightarrow> StepPhaseRunning
          | RunnerPhaseSucceeded \<Rightarrow> StepPhaseSucceeded
          | RunnerPhaseFailed \<Rightarrow> StepPhaseFailed
          | _ \<Rightarrow> StepPhasePending)"
proof -
  have "distinct (map st_Name (wsp_Steps (wf_Spec W)))" "deps_first (wsp_Steps (wf_Spec W))"
    unfolding assms(3) using assms(2) by (rule topologicalSortSteps_distinct, rule deps_first_sorted)
  moreover have W': "W' = lp_wf (flat_pass e runners W w)" using assms(8) by (simp add: reconcileSteps_eq)
  moreover have "\<not> terminalStep (map_of (buildStepStatusMap W) (st_Name s))"
    using assms(7) by (auto simp: terminalStep_def stepPhaseIn_def split: option.splits)
  moreover have "evaluateStep s (buildStepStatusMap W') = stepRun" using evaluateStep_run_iff [OF assms(9)] assms(10) by simp
  ultimately have "stepPhaseIn W' (st_Name s) = Some (runnerPhaseToStepPhase (rn_Phase r))"
    using assms(1,4-6) step_follows_runner [of "step_loop_init W w" "wsp_Steps (wf_Spec W)" s "buildRunnerMap runners" r]
    by (simp add: W' flat_pass_def stepPhaseIn_def)
  then show ?thesis by (cases "rn_Phase r") simp_all
qed

theorem reconcileSteps_follows_runner_witness:
  "stepPhaseIn (fst (snd (reconcileSteps sample_env [sample_runner ''a'' RunnerPhaseRunning]
     (sample_workflow (topologicalSortSteps diamond) [sample_status ''a'' StepPhasePending]) sample_world))) ''a'' =
   Some StepPhaseRunning"
proof -
  let ?r = "sample_runner ''a'' RunnerPhaseRunning" and ?s = "zero_WorkflowStep\<lparr>st_Name := ''a''\<rparr>"
  let ?W = "sample_workflow (topologicalSortSteps diamond) [sample_status ''a'' StepPhasePending]"
  let ?res = "reconcileSteps sample_env [?r] ?W sample_world"
  have "distinct (map ss_Name (wf_StepStatuses ?W))" "distinct (map st_Name diamond)" by code_simp+
  moreover have "wsp_Steps (wf_Spec ?W) = topologicalSortSteps diamond" by (simp add: sample_workflow_def)
  moreover have "?s \<in> set (wsp_Steps (wf_Spec ?W))" "map_of (buildRunnerMap [?r]) (st_Name ?s) = Some ?r"
    "st_Retry ?s = None \<or> rn_Phase ?r \<noteq> RunnerPhaseFailed"
    "stepPhaseIn ?W (st_Name ?s) \<notin> {Some StepPhaseSucceeded, Some StepPhaseFailed, Some StepPhaseSkipped}" by code_simp+
  moreover have "?res = (fst ?res, fst (snd ?res), snd (snd ?res))" by simp
  moreover have "when_undisputed (fst (snd ?res)) ?s" "step_due (fst (snd ?res)) ?s" by code_simp+
  ultimately have "stepPhaseIn (fst (snd ?res)) (st_Name ?s) =
      Some (case rn_Phase ?r of RunnerPhaseRunning \<Rightarrow> StepPhaseRunning | RunnerPhaseSucceeded \<Rightarrow> StepPhaseSucceeded
            | RunnerPhaseFailed \<Rightarrow> StepPhaseFailed | _ \<Rightarrow> StepPhasePending)"
    by (rule reconcileSteps_follows_runner)
  then show ?thesis by (simp add: sample_runner_def zero_WorkflowStep_def zero_RunnerStatus_def)
qed

section \<open>Where the code departs from its documentation\<close>

lemma skip_keeps_status:
  assumes sync: "in_sync l" and steps: "distinct (map st_Name steps)" "deps_first steps" "s \<in> set steps"
    and st: "map_of (buildStepStatusMap (lp_wf l)) (st_Name s) = Some st"
    and skip: "evaluateStep s (buildStepStatusMap (lp_wf (loop_from e build job rm l steps))) = stepSkip"
  shows "map_of (buildStepStatusMap (lp_wf (loop_from e build job rm l steps))) (st_Name s) = Some st"
  using steps skip
proof (induction steps rule: rev_induct)
  case (snoc t xs)
  let ?l = "loop_from e build job rm l xs"
  from snoc.prems have pre: "distinct (map st_Name xs)" "deps_first xs" by (auto simp: deps_first_snoc)
  have skip: "evaluateStep s (buildStepStatusMap (lp_wf ?l)) = stepSkip"
    using decision_stable [OF sync snoc.prems(1-3)] snoc.prems(4) by simp
  show ?case
  proof (cases "s \<in> set xs")
    case True
    with snoc.prems have "st_Name s \<noteq> st_Name t" by (auto simp: image_iff)
    with step_update_lookup_other [OF loop_step_update [OF sync], of "st_Name s" t e build job rm xs]
      snoc.IH [OF pre True skip] show ?thesis by simp
  next
    case False
    with snoc.prems have t: "t = s" and fresh: "st_Name s \<notin> st_Name ` set xs" by auto
    from loop_lookup_other [OF sync fresh] st
    have same: "map_of (buildStepStatusMap (lp_wf ?l)) (st_Name s) = Some st" by simp
    then have "reconcileStep e build job rm s ?l = ?l"
      using loop_in_sync [OF sync, of e build job rm xs] skip by (simp add: in_sync_def reconcileStep_def Let_def)
    with same show ?thesis by (simp add: t)
  qed
qed simp

text \<open>
  A step that was recorded as Waiting is never marked Skipped: when its dependencies finish in a
  way that makes the decision skip, the pass leaves the entry Waiting, and the Workflow does not
  reach a terminal phase.  (The documented behaviour is that such a step is skipped.)
\<close>

lemma waiting_step_is_never_skipped:
  assumes "distinct (map ss_Name (wf_StepStatuses W))"
    and "distinct (map st_Name steps)" "wsp_Steps (wf_Spec W) = topologicalSortSteps steps"
    and "s \<in> set (wsp_Steps (wf_Spec W))"
    and "map_of (buildStepStatusMap W) (st_Name s) = Some st" "ss_Phase st = StepPhaseWaiting"
    and "reconcileSteps e runners W w = (updated, W', w')" "evaluateStep s (buildStepStatusMap W') = stepSkip"
  shows "map_of (buildStepStatusMap W') (st_Name s) = Some st \<and> \<not> isWorkflowTerminal (computeFlatWorkflowPhase W')"
proof -
  let ?ss = "wsp_Steps (wf_Spec W)"
  have "distinct (map st_Name ?ss)" "deps_first ?ss"
    unfolding assms(3) using assms(2) by (rule topologicalSortSteps_distinct, rule deps_first_sorted)
  moreover have W': "W' = lp_wf (flat_pass e runners W w)" using assms(7) by (simp add: reconcileSteps_eq)
  ultimately have st: "map_of (buildStepStatusMap W') (st_Name s) = Some st"
    using skip_keeps_status [of "step_loop_init W w" ?ss s st] assms(4,5,8) by (simp add: W' flat_pass_def)
  from loop_names [of "step_loop_init W w"] assms(1) have "distinct (map ss_Name (wf_StepStatuses W'))"
    by (simp add: W' flat_pass_def)
  with st have "findStepStatus (wf_StepStatuses W') (st_Name s) = Some st"
    by (simp add: findStepStatus_def buildStepStatusMap_def map_of_index_by_distinct)
  moreover have "wf_Spec W' = wf_Spec W" using loop_frame(2) [of "step_loop_init W w"] by (simp add: W' flat_pass_def)
  ultimately have "\<not> isWorkflowTerminal (computeFlatWorkflowPhase W')"
    using assms(4,6) unfolding computeFlatWorkflowPhase_def step_kind.terminal_iff
    by (fastforce simp: getSpecStepNames_def isActiveStepPhase_def)
  with st show ?thesis ..
qed

definition chain :: "WorkflowStep list" where
  "chain = [zero_WorkflowStep\<lparr>st_Name := ''a''\<rparr>, zero_WorkflowStep\<lparr>st_Name := ''b'', st_DependsOn := [''a'']\<rparr>]"

lemma waiting_step_is_never_skipped_example:
  "map_of (buildStepStatusMap (fst (snd (reconcileSteps sample_env [sample_runner ''a'' RunnerPhaseFailed]
       (sample_workflow (topologicalSortSteps chain) [sample_status ''a'' StepPhaseRunning, sample_status ''b'' StepPhaseWaiting])
       sample_world)))) ''b'' = Some (sample_status ''b'' StepPhaseWaiting)"
proof -
  let ?r = "[sample_runner ''a'' RunnerPhaseFailed]" and ?s = "zero_WorkflowStep\<lparr>st_Name := ''b'', st_DependsOn := [''a'']\<rparr>"
  let ?W = "sample_workflow (topologicalSortSteps chain) [sample_status ''a'' StepPhaseRunning, sample_status ''b'' StepPhaseWaiting]"
  let ?res = "reconcileSteps sample_env ?r ?W sample_world"
  have "distinct (map ss_Name (wf_StepStatuses ?W))" "distinct (map st_Name chain)" by code_simp+
  moreover have "wsp_Steps (wf_Spec ?W) = topologicalSortSteps chain" by (simp add: sample_workflow_def)
  moreover have "?s \<in> set (wsp_Steps (wf_Spec ?W))"
    "map_of (buildStepStatusMap ?W) (st_Name ?s) = Some (sample_status ''b'' StepPhaseWaiting)"
    "ss_Phase (sample_status ''b'' StepPhaseWaiting) = StepPhaseWaiting" by code_simp+
  moreover have "?res = (fst ?res, fst (snd ?res), snd (snd ?res))" by simp
  moreover have "evaluateStep ?s (buildStepStatusMap (fst (snd ?res))) = stepSkip" by code_simp
  ultimately have "map_of (buildStepStatusMap (fst (snd ?res))) (st_Name ?s) = Some (sample_status ''b'' StepPhaseWaiting) \<and>
      \<not> isWorkflowTerminal (computeFlatWorkflowPhase (fst (snd ?res)))"
    by (rule waiting_step_is_never_skipped)
  then show ?thesis by (simp add: zero_WorkflowStep_def)
qed

text \<open>
  The timeout of a step with an explicit image is dropped: the Runner built for it has no
  \<open>TimeoutAfter\<close>, whatever the step's \<open>timeout\<close> says.
\<close>

lemma image_step_timeout_dropped:
  "rs_TimeoutAfter (rn_Spec (fst (buildStepRunner e W (s\<lparr>st_Image := c # cs, st_Timeout := Some t\<rparr>) w))) = None"
  by (simp add: buildStepRunner_def Let_def zero_RunnerSpec_def)

text \<open>
  \<open>when: on_failure\<close> does not ask for a failure: such a step runs as soon as one of its finished
  dependencies has not succeeded, so also when the dependency was only skipped.
\<close>

lemma on_failure_runs_after_skip:
  "evaluateStep (s\<lparr>st_When := ''on_failure'', st_DependsOn := [''a'']\<rparr>)
     (buildStepStatusMap (sample_workflow steps [sample_status ''a'' StepPhaseSkipped])) = stepRun"
proof -
  have "TrimSpace ''on_failure'' = ''on_failure''" by code_simp
  then show ?thesis
    by (simp add: evaluateStep_def buildStepStatusMap_def sample_workflow_def sample_status_def
        zero_WorkflowStatus_def zero_StepStatus_def index_by_def)
qed

end
