(* ===== verification/Workflow_Controller.thy ===== *)
theory Workflow_Controller
  imports Step_Properties
begin

text \<open>
  The Workflow controller of \<open>internal/controller/workflow_controller.go\<close>: \<open>Reconcile\<close> with its two
  modes (flat steps and jobs), the timeout handlers, the namespace quota, and the reconciliation of
  one job.  A handler takes the environment, the Workflow it works on and the log of the requests
  so far, and returns its result and the log; what it writes back is the \<open>PatchStatus\<close> it sends.
  The blocks that both modes spell out the same way are one definition used twice.
\<close>

section \<open>Namespace quota\<close>

definition listStepRunners :: "env \<Rightarrow> Workflow \<Rightarrow> world \<Rightarrow> apierr + Runner list" where
  "listStepRunners e W w = e_ListRunners e w (wf_Namespace W) [(workflow_label, wf_Name W)]"

fun wrap_err :: "string \<Rightarrow> apierr \<Rightarrow> apierr" where
  "wrap_err p (NotFound s) = NotFound (p @ s)"
| "wrap_err p (AlreadyExists s) = AlreadyExists (p @ s)"
| "wrap_err p (OtherErr s) = OtherErr (p @ s)"

definition maxConcurrentWorkflowsForNS :: "env \<Rightarrow> string \<Rightarrow> world \<Rightarrow> apierr + int" where
  "maxConcurrentWorkflowsForNS e ns w =
     (case e_GetNamespaceAnnotations e w ns of
        Inl err \<Rightarrow> Inl (wrap_err (''failed to get namespace '' @ ns @ '': '') err)
      | Inr annotations \<Rightarrow>
          (case map_of annotations MaxWorkflowsAnnotation of
             None \<Rightarrow> Inr 0
           | Some val \<Rightarrow>
               if val = [] then Inr 0
               else (case Sscanf_d val of None \<Rightarrow> Inr 0 | Some limit \<Rightarrow> Inr limit)))"

definition checkNamespaceQuota :: "env \<Rightarrow> string \<Rightarrow> world \<Rightarrow> apierr + bool" where
  "checkNamespaceQuota e ns w =
     (case maxConcurrentWorkflowsForNS e ns w of
        Inl err \<Rightarrow> Inl err
      | Inr limit \<Rightarrow>
          if limit \<le> 0 then Inr True
          else (case e_ListWorkflows e w ns of
                  Inl err \<Rightarrow> Inl err
                | Inr items \<Rightarrow>
                    let active = foldl (\<lambda>n W. if \<not> isWorkflowTerminal (wf_Phase W) then n + 1 else n) (0::int) items
                    in Inr (active < limit)))"

section \<open>Writing the status\<close>

text \<open>\<open>if err := r.Status().Patch(ctx, wf, patchBase); err != nil { return ..., err }\<close>\<close>

definition patchWorkflow :: "env \<Rightarrow> Workflow \<Rightarrow> Result \<Rightarrow> Workflow \<Rightarrow> world \<Rightarrow> Result \<times> world" where
  "patchWorkflow e patchBase result W w =
     (let (res, w) = do_PatchWorkflow e patchBase W w
      in (case res of Inl err \<Rightarrow> Error err | Inr _ \<Rightarrow> result, w))"

definition observeGeneration :: "Workflow \<Rightarrow> Workflow" where
  "observeGeneration W = wf_setStatus (wst_ObservedGeneration_update (\<lambda>_. om_Generation (wf_Meta W))) W"

text \<open>The early exits: a Ready=False condition, the observed generation and a status patch.\<close>

definition reportNotReady :: "env \<Rightarrow> string \<Rightarrow> string \<Rightarrow> Result \<Rightarrow> Workflow \<Rightarrow> world \<Rightarrow> Result \<times> world" where
  "reportNotReady e reason msg result W w =
     (let patchBase = W;
          (W, w) = setWorkflowCondition e ConditionFalse reason msg W w
      in patchWorkflow e patchBase result (observeGeneration W) w)"

section \<open>Timeouts\<close>

text \<open>The end of both handlers: the Workflow is failed and completed now.\<close>

definition failTimedOut :: "env \<Rightarrow> Workflow \<Rightarrow> Workflow \<Rightarrow> world \<Rightarrow> Result \<times> world" where
  "failTimedOut e patchBase W w =
     (let W = wf_setStatus (wst_Phase_update (\<lambda>_. WorkflowPhaseFailed)) W;
          (now, w) = Now e w;
          W = wf_setStatus (wst_CompletionTime_update (\<lambda>_. Some now)) W;
          W = observeGeneration W;
          (W, w) = setWorkflowCondition e ConditionFalse ReasonWorkflowTimedOut ''Workflow timed out'' W w
      in patchWorkflow e patchBase Done W w)"

definition handleTimeoutFlat :: "env \<Rightarrow> Workflow \<Rightarrow> world \<Rightarrow> Result \<times> world" where
  "handleTimeoutFlat e W w =
     (let w = emit (Event ''Warning'' ''TimedOut'' ''Workflow timed out'') w;
          patchBase = W;
          (W, w) = foldl (\<lambda>(W, w) n. upsertStepStatus e n StepPhaseFailed W w) (W, w)
                     (map st_Name (wsp_Steps (wf_Spec W)))
      in failTimedOut e patchBase W w)"

definition handleTimeoutJobs :: "env \<Rightarrow> Workflow \<Rightarrow> world \<Rightarrow> Result \<times> world" where
  "handleTimeoutJobs e W w =
     (let w = emit (Event ''Warning'' ''TimedOut'' ''Workflow timed out'') w;
          patchBase = W;
          (W, w) = foldl (\<lambda>(W, w) job.
                     let (W, w) = upsertJobStatus e (js_Name job) JobPhaseFailed W w
                     in foldl (\<lambda>(W, w) n. upsertStepStatus e n StepPhaseFailed W w) (W, w) (map st_Name (js_Steps job)))
                   (W, w) (wsp_Jobs (wf_Spec W))
      in failTimedOut e patchBase W w)"

section \<open>The common frame of both modes\<close>

text \<open>
  The timeout and the quota are checked first; \<open>proceed\<close> is the rest of the function, entered with
  the Workflow's Runners.
\<close>

definition timeoutElapsed :: "env \<Rightarrow> Workflow \<Rightarrow> world \<Rightarrow> bool \<times> world" where
  "timeoutElapsed e W w =
     (case (wsp_Timeout (wf_Spec W), wst_StartTime (wf_Status W)) of
        (Some timeout, Some start) \<Rightarrow>
          if \<not> isWorkflowTerminal (wf_Phase W)
          then (let (now, w) = Now e w in (sint (time_Sub now start) > sint timeout, w))
          else (False, w)
      | _ \<Rightarrow> (False, w))"

definition quotaExceeded :: "env \<Rightarrow> Workflow \<Rightarrow> world \<Rightarrow> bool" where
  "quotaExceeded e W w \<longleftrightarrow>
     wst_StartTime (wf_Status W) = None \<and> checkNamespaceQuota e (wf_Namespace W) w = Inr False"

definition guardWorkflow ::
  "env \<Rightarrow> (Workflow \<Rightarrow> world \<Rightarrow> Result \<times> world) \<Rightarrow>
   (Runner list \<Rightarrow> Workflow \<Rightarrow> world \<Rightarrow> Result \<times> world) \<Rightarrow> Workflow \<Rightarrow> world \<Rightarrow> Result \<times> world" where
  "guardWorkflow e handleTimeout proceed W w =
     (let (timedOut, w) = timeoutElapsed e W w
      in if timedOut then handleTimeout W w
         else if quotaExceeded e W w
           then reportNotReady e ''QuotaExceeded'' ''Namespace has too many active workflows''
                  (RequeueAfter (seconds 30)) W w
         else case listStepRunners e W w of
           Inl err \<Rightarrow> (Error err, w)
         | Inr runners \<Rightarrow> proceed runners W w)"

text \<open>\<open>if wf.Status.StartTime == nil { ... }\<close>\<close>

definition startWorkflow :: "env \<Rightarrow> Workflow \<Rightarrow> world \<Rightarrow> bool \<times> Workflow \<times> world" where
  "startWorkflow e W w =
     (if wst_StartTime (wf_Status W) = None
      then (let (now, w) = Now e w
            in (True, wf_setStatus (wst_StartTime_update (\<lambda>_. Some now)) W, w))
      else (False, W, w))"

text \<open>The change of the phase, with its event, metric and condition.\<close>

definition changePhase :: "env \<Rightarrow> string \<Rightarrow> WorkflowPhase \<Rightarrow> bool \<Rightarrow> Workflow \<Rightarrow> world \<Rightarrow> bool \<times> Workflow \<times> world" where
  "changePhase e doneMsg newPhase updated W w =
     (if newPhase = wf_Phase W then (updated, W, w)
      else
        let w = emit (Event ''Normal'' ''PhaseChanged'' (''Workflow phase changed to '' @ WorkflowPhase_text newPhase)) w;
            W = wf_setStatus (wst_Phase_update (\<lambda>_. newPhase)) W;
            w = emit (CounterInc ''workflow_phase_transitions_total'' [wf_Namespace W, WorkflowPhase_text newPhase]) w;
            (W, w) =
              (case newPhase of
                 WorkflowPhaseRunning \<Rightarrow> setWorkflowCondition e ConditionFalse ReasonWorkflowRunning ''Workflow is running'' W w
               | WorkflowPhaseSucceeded \<Rightarrow> setWorkflowCondition e ConditionTrue ReasonWorkflowSucceeded doneMsg W w
               | WorkflowPhaseFailed \<Rightarrow> setWorkflowCondition e ConditionFalse ReasonWorkflowFailed ''Workflow failed'' W w
               | _ \<Rightarrow> (W, w))
        in (True, W, w))"

definition completeWorkflow :: "env \<Rightarrow> bool \<Rightarrow> Workflow \<Rightarrow> world \<Rightarrow> bool \<times> Workflow \<times> world" where
  "completeWorkflow e updated W w =
     (if isWorkflowTerminal (wf_Phase W) \<and> wst_CompletionTime (wf_Status W) = None
      then
        let (now, w) = Now e w;
            W = wf_setStatus (wst_CompletionTime_update (\<lambda>_. Some now)) W;
            w = (case wst_StartTime (wf_Status W) of
                   None \<Rightarrow> w
                 | Some start \<Rightarrow> emit (Observe ''workflow_duration_seconds'' [wf_Namespace W] (time_Sub now start)) w)
        in (True, W, w)
      else (updated, W, w))"

definition requeueForTimeout :: "env \<Rightarrow> Workflow \<Rightarrow> world \<Rightarrow> Result \<times> world" where
  "requeueForTimeout e W w =
     (case (wsp_Timeout (wf_Spec W), wst_StartTime (wf_Status W)) of
        (Some timeout, Some start) \<Rightarrow>
          if \<not> isWorkflowTerminal (wf_Phase W)
          then (let (now, w) = Now e w;
                    remaining = timeout - time_Sub now start
                in (if sint remaining > 0 then RequeueAfter remaining else Done, w))
          else (Done, w)
      | _ \<Rightarrow> (Done, w))"

definition finishWorkflow ::
  "env \<Rightarrow> string \<Rightarrow> Workflow \<Rightarrow> WorkflowPhase \<Rightarrow> bool \<Rightarrow> Workflow \<Rightarrow> world \<Rightarrow> Result \<times> world" where
  "finishWorkflow e doneMsg patchBase newPhase updated W w =
     (let (updated, W, w) = changePhase e doneMsg newPhase updated W w;
          (updated, W, w) = completeWorkflow e updated W w
      in if updated
         then (let (res, w) = do_PatchWorkflow e patchBase (observeGeneration W) w
               in case res of Inl err \<Rightarrow> (Error err, w) | Inr W \<Rightarrow> requeueForTimeout e W w)
         else requeueForTimeout e W w)"

section \<open>Flat Workflows\<close>

definition runFlatWorkflow :: "env \<Rightarrow> Runner list \<Rightarrow> Workflow \<Rightarrow> world \<Rightarrow> Result \<times> world" where
  "runFlatWorkflow e stepRunners W w =
     (let patchBase = W;
          (started, W, w) = startWorkflow e W w;
          W = W\<lparr>wf_Spec := (wf_Spec W)\<lparr>wsp_Steps := topologicalSortSteps (wsp_Steps (wf_Spec W))\<rparr>\<rparr>;
          (stepsUpdated, W, w) = reconcileSteps e stepRunners W w
      in finishWorkflow e ''All steps completed successfully'' patchBase
           (computeFlatWorkflowPhase W) (stepsUpdated \<or> started) W w)"

definition reconcileFlatWorkflow :: "env \<Rightarrow> Workflow \<Rightarrow> world \<Rightarrow> Result \<times> world" where
  "reconcileFlatWorkflow e W w =
     (if wsp_Steps (wf_Spec W) = []
      then reportNotReady e ReasonWorkflowNoSteps ''Workflow has no steps defined'' Done W
             (emit (Event ''Warning'' ''NoSteps'' ''Workflow has no steps defined'') w)
      else
        let cycle = detectCycle (wsp_Steps (wf_Spec W))
        in if cycle \<noteq> []
           then reportNotReady e ReasonWorkflowCycleDetected (''Dependency cycle detected: '' @ cycle) Done W
                  (emit (Event ''Warning'' ''CycleDetected'' (''Dependency cycle detected: '' @ cycle)) w)
           else guardWorkflow e (handleTimeoutFlat e) (runFlatWorkflow e) W w)"

section \<open>Jobs\<close>

datatype jobDecision = jobSkip | jobWait | jobRun

definition evaluateJobWhen :: "JobSpec \<Rightarrow> (string, JobStatus) gomap \<Rightarrow> jobDecision" where
  "evaluateJobWhen job jobStatusMap =
     (if list_ex (\<lambda>need. case map_of jobStatusMap need of
                           None \<Rightarrow> True
                         | Some js \<Rightarrow> jst_Phase js = JobPhasePending
                             \<or> jst_Phase js = JobPhaseRunning \<or> jst_Phase js = JobPhaseWaiting)
           (js_Needs job)
      then jobWait
      else
        let when = TrimSpace (js_When job);
            when = (if when = [] then defaultWhen else when);
            allSucceeded =
              list_all (\<lambda>need. jst_Phase (mget zero_JobStatus jobStatusMap need) = JobPhaseSucceeded) (js_Needs job)
        in if when = ''always'' then jobRun
           else if when = ''on_failure'' then (if \<not> allSucceeded then jobRun else jobSkip)
           else (if allSucceeded then jobRun else jobSkip))"

definition reconcileJobSteps ::
  "env \<Rightarrow> JobSpec \<Rightarrow> Runner list \<Rightarrow> Workflow \<Rightarrow> world \<Rightarrow> bool \<times> Workflow \<times> world" where
  "reconcileJobSteps e job stepRunners W w =
     reconcileStepLoop e (js_Steps job) stepRunners (buildJobStepRunner e job) (js_Name job) W w"

text \<open>The two flags, \<open>allDone\<close> and \<open>hasFailed\<close>, of the loop over the steps of a job.\<close>

definition job_flags :: "(string, StepStatus) gomap \<Rightarrow> WorkflowStep list \<Rightarrow> bool \<times> bool" where
  "job_flags stepStatusMap steps =
     foldl (\<lambda>(allDone, hasFailed) step.
       case map_of stepStatusMap (st_Name step) of
         None \<Rightarrow> (False, hasFailed)
       | Some st \<Rightarrow>
           if ss_Phase st = StepPhasePending \<or> ss_Phase st = StepPhaseWaiting \<or> ss_Phase st = StepPhaseRunning
           then (False, hasFailed)
           else if ss_Phase st = StepPhaseFailed then (allDone, True)
           else (allDone, hasFailed)) (True, False) steps"

definition terminalJob :: "JobStatus option \<Rightarrow> bool" where
  "terminalJob js \<longleftrightarrow>
     (case js of None \<Rightarrow> False
      | Some j \<Rightarrow> jst_Phase j = JobPhaseSucceeded \<or> jst_Phase j = JobPhaseFailed \<or> jst_Phase j = JobPhaseSkipped)"

text \<open>The case jobRun; \<open>i\<close> is the job's position in the spec, whose steps are sorted in place.\<close>

definition runJob ::
  "env \<Rightarrow> nat \<Rightarrow> Runner list \<Rightarrow> JobStatus option \<Rightarrow> Workflow \<Rightarrow> world \<Rightarrow> bool \<times> Workflow \<times> world" where
  "runJob e i allRunners js W w =
     (let job = wsp_Jobs (wf_Spec W) ! i;
          (updated, W, w) =
            (if map_option jst_Phase js \<noteq> Some JobPhaseRunning
             then (let (W, w) = upsertJobStatus e (js_Name job) JobPhaseRunning W w in (True, W, w))
             else (False, W, w));
          stepRunners = filterRunnersByJob allRunners (js_Name job);
          job = job\<lparr>js_Steps := topologicalSortSteps (js_Steps job)\<rparr>;
          W = W\<lparr>wf_Spec := (wf_Spec W)\<lparr>wsp_Jobs := (wsp_Jobs (wf_Spec W))[i := job]\<rparr>\<rparr>;
          (stepUpdated, W, w) = reconcileJobSteps e job stepRunners W w;
          (allDone, hasFailed) = job_flags (buildStepStatusMap W) (js_Steps job)
      in if allDone
         then (let (W, w) = upsertJobStatus e (js_Name job)
                              (if hasFailed then JobPhaseFailed else JobPhaseSucceeded) W w
               in (True, W, w))
         else (updated \<or> stepUpdated, W, w))"

definition reconcileJob ::
  "env \<Rightarrow> nat \<Rightarrow> Runner list \<Rightarrow> (string, JobStatus) gomap \<Rightarrow> Workflow \<Rightarrow> world \<Rightarrow> bool \<times> Workflow \<times> world" where
  "reconcileJob e i allRunners jobStatusMap W w =
     (let job = wsp_Jobs (wf_Spec W) ! i;
          js = map_of jobStatusMap (js_Name job)
      in if terminalJob js then (False, W, w)
         else case evaluateJobWhen job jobStatusMap of
           jobSkip \<Rightarrow>
             if js = None
             then (let (W, w) = upsertJobStatus e (js_Name job) JobPhaseSkipped W w in (True, W, w))
             else (False, W, w)
         | jobWait \<Rightarrow>
             if map_option jst_Phase js \<noteq> Some JobPhaseWaiting
             then (let (W, w) = upsertJobStatus e (js_Name job) JobPhaseWaiting W w in (True, W, w))
             else (False, W, w)
         | jobRun \<Rightarrow> runJob e i allRunners js W w)"

text \<open>\<open>for i := range wf.Spec.Jobs { ... }\<close>; every job is decided on the map built before the loop.\<close>

definition reconcileJobs ::
  "env \<Rightarrow> Runner list \<Rightarrow> bool \<Rightarrow> Workflow \<Rightarrow> world \<Rightarrow> bool \<times> Workflow \<times> world" where
  "reconcileJobs e allRunners updated W w =
     (let jobStatusMap = buildJobStatusMap W
      in foldl (\<lambda>(updated, W, w) i.
           let (jobUpdated, W, w) = reconcileJob e i allRunners jobStatusMap W w
           in (updated \<or> jobUpdated, W, w)) (updated, W, w) [0..<length (wsp_Jobs (wf_Spec W))])"

definition runJobWorkflow :: "env \<Rightarrow> Runner list \<Rightarrow> Workflow \<Rightarrow> world \<Rightarrow> Result \<times> world" where
  "runJobWorkflow e allRunners W w =
     (let patchBase = W;
          (started, W, w) = startWorkflow e W w;
          (updated, W, w) = reconcileJobs e allRunners started W w
      in finishWorkflow e ''All jobs completed successfully'' patchBase
           (computeJobWorkflowPhase W) updated W w)"

definition reconcileJobWorkflow :: "env \<Rightarrow> Workflow \<Rightarrow> world \<Rightarrow> Result \<times> world" where
  "reconcileJobWorkflow e W w =
     (if wsp_Jobs (wf_Spec W) = []
      then reportNotReady e ReasonWorkflowNoSteps ''Workflow has no jobs defined'' Done W
             (emit (Event ''Warning'' ''NoJobs'' ''Workflow has no jobs defined'') w)
      else
        let cycle = detectJobCycle (wsp_Jobs (wf_Spec W))
        in if cycle \<noteq> []
           then reportNotReady e ReasonWorkflowCycleDetected (''Job dependency cycle detected: '' @ cycle) Done W
                  (emit (Event ''Warning'' ''CycleDetected'' (''Job dependency cycle detected: '' @ cycle)) w)
           else guardWorkflow e (handleTimeoutJobs e) (runJobWorkflow e) W w)"

section \<open>Reconcile\<close>

definition Reconcile_Workflow :: "env \<Rightarrow> NamespacedName \<Rightarrow> world \<Rightarrow> Result \<times> world" where
  "Reconcile_Workflow e req w =
     (case e_GetWorkflow e w req of
        Inl err \<Rightarrow> (IgnoreNotFound err, w)
      | Inr W \<Rightarrow>
          if om_DeletionTimestamp (wf_Meta W) \<noteq> None then (Done, w)
          else if wsp_Jobs (wf_Spec W) \<noteq> [] then reconcileJobWorkflow e W w
          else reconcileFlatWorkflow e W w)"

end
