(* ===== verification/Workflow_Properties.thy ===== *)
theory Workflow_Properties
  imports Workflow_Controller
begin

text \<open>
  The properties of the Workflow controller: what is rejected before anything is started, what a
  timeout leaves behind, the quota, the invariants of the status over any history of passes, and
  the gates between jobs.
\<close>

section \<open>What the handlers send\<close>

text \<open>The Workflows a log writes back.\<close>

definition written :: "effect list \<Rightarrow> Workflow list" where
  "written l = concat (map (\<lambda>x. case x of PatchStatus _ (OWorkflow W) \<Rightarrow> [W] | _ \<Rightarrow> []) l)"

lemma written_simps [simp]:
  "written [] = []" "written (a @ b) = written a @ written b"
  "written (x # l) = (case x of PatchStatus _ (OWorkflow W) \<Rightarrow> [W] | _ \<Rightarrow> []) @ written l"
  by (simp_all add: written_def)

lemma observeGeneration_frame [simp, frame_simps]:
  "wf_Meta (observeGeneration W) = wf_Meta W" "wf_Spec (observeGeneration W) = wf_Spec W"
  "wf_StepStatuses (observeGeneration W) = wf_StepStatuses W" "wf_JobStatuses (observeGeneration W) = wf_JobStatuses W"
  "wf_Phase (observeGeneration W) = wf_Phase W" "wst_Conditions (wf_Status (observeGeneration W)) = wst_Conditions (wf_Status W)"
  "wst_StartTime (wf_Status (observeGeneration W)) = wst_StartTime (wf_Status W)"
  "wst_CompletionTime (wf_Status (observeGeneration W)) = wst_CompletionTime (wf_Status W)"
  "wst_ObservedGeneration (wf_Status (observeGeneration W)) = om_Generation (wf_Meta W)"
  by (simp_all add: observeGeneration_def)

lemma reportNotReady_log:
  "w_log (snd (reportNotReady e reason msg res W w)) =
     w_log w @ [PatchStatus (OWorkflow W) (OWorkflow (observeGeneration (fst (setWorkflowCondition e ConditionFalse reason msg W w))))]"
  by (simp add: reportNotReady_def patchWorkflow_def do_request_defs Let_def split_beta)

lemma reportNotReady_result:
  "fst (reportNotReady e reason msg res W w) = res \<or> (\<exists>err. fst (reportNotReady e reason msg res W w) = Error err)"
  by (simp add: reportNotReady_def patchWorkflow_def do_request_defs Let_def split_beta split: sum.split)

text \<open>
  C21. A flat Workflow whose steps name an unknown dependency or form a cycle is rejected as a whole:
  the controller sends one warning event and one status patch, which reports Ready=False with
  reason CycleDetected for the current generation and touches neither the phase nor the step
  statuses; no Runner is created or deleted.
\<close>

theorem cyclic_workflow_rejected:
  assumes "sets_condition (e_SetStatusCondition e)" "e_GetWorkflow e w req = Inr W"
    and "om_DeletionTimestamp (wf_Meta W) = None" "wsp_Jobs (wf_Spec W) = []" "wsp_Steps (wf_Spec W) \<noteq> []"
    and "\<not> (set (concat (map st_DependsOn (wsp_Steps (wf_Spec W)))) \<subseteq> set (map st_Name (wsp_Steps (wf_Spec W))) \<and>
             acyclic (dep_rel st_Name st_DependsOn (wsp_Steps (wf_Spec W))))"
  shows "\<exists>msg W' c. w_log (snd (Reconcile_Workflow e req w)) =
       w_log w @ [Event ''Warning'' ''CycleDetected'' msg, PatchStatus (OWorkflow W) (OWorkflow W')] \<and>
     ready_of (wst_Conditions (wf_Status W')) = Some c \<and> cond_Status c = ConditionFalse \<and>
     cond_Reason c = ReasonWorkflowCycleDetected \<and>
     wst_ObservedGeneration (wf_Status W') = om_Generation (wf_Meta W) \<and>
     wf_Phase W' = wf_Phase W \<and> wf_StepStatuses W' = wf_StepStatuses W"
proof -
  let ?cycle = "detectCycle (wsp_Steps (wf_Spec W))"
  let ?msg = "''Dependency cycle detected: '' @ ?cycle"
  let ?w = "emit (Event ''Warning'' ''CycleDetected'' ?msg) w"
  let ?W' = "observeGeneration (fst (setWorkflowCondition e ConditionFalse ReasonWorkflowCycleDetected ?msg W ?w))"
  from assms(6) have "?cycle \<noteq> []" by (auto simp: detectCycle_def cycleDetector_empty_iff)
  with assms(2-5) have "w_log (snd (Reconcile_Workflow e req w)) =
      w_log w @ [Event ''Warning'' ''CycleDetected'' ?msg, PatchStatus (OWorkflow W) (OWorkflow ?W')]"
    by (simp add: Reconcile_Workflow_def reconcileFlatWorkflow_def Let_def reportNotReady_log)
  moreover from setWorkflowCondition_ready [OF assms(1), of ConditionFalse ReasonWorkflowCycleDetected ?msg W ?w]
  obtain c where "ready_of (wst_Conditions (wf_Status ?W')) = Some c" "cond_Status c = ConditionFalse"
    "cond_Reason c = ReasonWorkflowCycleDetected" by auto
  ultimately show ?thesis by fastforce
qed

definition loop_steps :: "WorkflowStep list" where
  "loop_steps = [zero_WorkflowStep\<lparr>st_Name := ''a'', st_DependsOn := [''b'']\<rparr>,
                 zero_WorkflowStep\<lparr>st_Name := ''b'', st_DependsOn := [''a'']\<rparr>]"

definition env_with :: "Workflow \<Rightarrow> env" where
  "env_with W = sample_env\<lparr>e_GetWorkflow := (\<lambda>w req. Inr W)\<rparr>"

lemma env_with_simps [simp]:
  "e_GetWorkflow (env_with W) = (\<lambda>w req. Inr W)"
  "e_SetStatusCondition (env_with W) = e_SetStatusCondition sample_env"
  "e_SetControllerReference (env_with W) = e_SetControllerReference sample_env"
  by (simp_all add: env_with_def)

theorem cyclic_workflow_rejected_witness:
  "created_runners (w_log (snd (Reconcile_Workflow (env_with (sample_workflow loop_steps []))
     \<lparr>nn_Namespace = ''ci'', nn_Name = ''build''\<rparr> sample_world))) = []"
proof -
  let ?W = "sample_workflow loop_steps []"
  have "detectCycle loop_steps \<noteq> []" by code_simp
  then have cyc: "\<not> (set (concat (map st_DependsOn (wsp_Steps (wf_Spec ?W)))) \<subseteq> set (map st_Name (wsp_Steps (wf_Spec ?W))) \<and>
      acyclic (dep_rel st_Name st_DependsOn (wsp_Steps (wf_Spec ?W))))"
    by (simp add: detectCycle_def cycleDetector_empty_iff sample_workflow_def UN_subset_iff)
  have "om_DeletionTimestamp (wf_Meta ?W) = None" "wsp_Jobs (wf_Spec ?W) = []" "wsp_Steps (wf_Spec ?W) \<noteq> []"
    by (simp_all add: sample_workflow_def loop_steps_def zero_ObjectMeta_def)
  from cyclic_workflow_rejected [of "env_with ?W" sample_world _ ?W, OF _ _ this cyc] sample_env_ok(1)
  have "\<exists>msg W'. w_log (snd (Reconcile_Workflow (env_with ?W) \<lparr>nn_Namespace = ''ci'', nn_Name = ''build''\<rparr> sample_world)) =
      w_log sample_world @ [Event ''Warning'' ''CycleDetected'' msg, PatchStatus (OWorkflow ?W) (OWorkflow W')]"
    by (simp; blast)
  then show ?thesis by (auto simp: sample_world_def)
qed

section \<open>Timeouts\<close>

abbreviation fail_steps :: "env \<Rightarrow> string list \<Rightarrow> Workflow \<Rightarrow> world \<Rightarrow> Workflow \<times> world" where
  "fail_steps e ns W w \<equiv> foldl (\<lambda>(W, w) n. upsertStepStatus e n StepPhaseFailed W w) (W, w) ns"

lemma fail_steps_frame:
  "wf_Meta (fst (fail_steps e ns W w)) = wf_Meta W \<and> wf_Spec (fst (fail_steps e ns W w)) = wf_Spec W \<and>
   wst_StartTime (wf_Status (fst (fail_steps e ns W w))) = wst_StartTime (wf_Status W)"
proof (induction ns arbitrary: W w)
  case (Cons n ns)
  then show ?case using Cons.IH [of "fst (upsertStepStatus e n StepPhaseFailed W w)" "snd (upsertStepStatus e n StepPhaseFailed W w)"]
    by simp
qed simp

lemma failTimedOut_log:
  "\<exists>W'. w_log (snd (failTimedOut e base W w)) = w_log w @ [PatchStatus (OWorkflow base) (OWorkflow W')] \<and>
     wf_Phase W' = WorkflowPhaseFailed \<and> wst_CompletionTime (wf_Status W') = Some (e_clock e (w_reads w)) \<and>
     wf_StepStatuses W' = wf_StepStatuses W \<and> wf_JobStatuses W' = wf_JobStatuses W \<and> wf_Spec W' = wf_Spec W \<and> wf_Meta W' = wf_Meta W"
  by (simp add: failTimedOut_def patchWorkflow_def do_request_defs Let_def split_beta)

lemma guardWorkflow_timeout:
  assumes "wsp_Timeout (wf_Spec W) = Some t" "wst_StartTime (wf_Status W) = Some start" "\<not> isWorkflowTerminal (wf_Phase W)"
    and "sint t < sint (time_Sub (e_clock e (w_reads w)) start)"
  shows "guardWorkflow e handle proceed W w = handle W (snd (Now e w))"
  using assms by (simp add: guardWorkflow_def timeoutElapsed_def split_beta)

text \<open>
  C22. A flat Workflow with a valid graph that has not finished and has run longer than its timeout is
  failed as a whole, whatever its Runners do: the pass creates and deletes nothing, and the status it writes has phase Failed, a completion
  time and the phase Failed for every step, so that the aggregation of the steps is Failed too.
\<close>

theorem timeout_fails_every_step:
  assumes "e_GetWorkflow e w req = Inr W" "om_DeletionTimestamp (wf_Meta W) = None"
    and "wsp_Jobs (wf_Spec W) = []" "wsp_Steps (wf_Spec W) \<noteq> []" "detectCycle (wsp_Steps (wf_Spec W)) = []"
    and "wsp_Timeout (wf_Spec W) = Some t" "wst_StartTime (wf_Status W) = Some start" "\<not> isWorkflowTerminal (wf_Phase W)"
    and "sint t < sint (time_Sub (e_clock e (w_reads w)) start)"
  shows "\<exists>W'. w_log (snd (Reconcile_Workflow e req w)) =
       w_log w @ [Event ''Warning'' ''TimedOut'' ''Workflow timed out'', PatchStatus (OWorkflow W) (OWorkflow W')] \<and>
     wf_Phase W' = WorkflowPhaseFailed \<and> wst_CompletionTime (wf_Status W') \<noteq> None \<and>
     list_all (\<lambda>s. map_option ss_Phase (findStepStatus (wf_StepStatuses W') (st_Name s)) = Some StepPhaseFailed)
       (wsp_Steps (wf_Spec W)) \<and>
     computeFlatWorkflowPhase W' = WorkflowPhaseFailed"
proof -
  let ?ns = "map st_Name (wsp_Steps (wf_Spec W))"
  let ?w = "emit (Event ''Warning'' ''TimedOut'' ''Workflow timed out'') (snd (Now e w))"
  let ?f = "fail_steps e ?ns W ?w"
  from failTimedOut_log [of e W "fst ?f" "snd ?f"] obtain W' where
    log: "w_log (snd (failTimedOut e W (fst ?f) (snd ?f))) = w_log (snd ?f) @ [PatchStatus (OWorkflow W) (OWorkflow W')]" and
    W': "wf_Phase W' = WorkflowPhaseFailed" "wst_CompletionTime (wf_Status W') \<noteq> None"
      "wf_StepStatuses W' = wf_StepStatuses (fst ?f)" "wf_Spec W' = wf_Spec (fst ?f)" by auto
  have "snd (Reconcile_Workflow e req w) = snd (failTimedOut e W (fst ?f) (snd ?f))"
    using assms by (simp add: Reconcile_Workflow_def reconcileFlatWorkflow_def guardWorkflow_timeout handleTimeoutFlat_def Let_def split_beta)
  moreover have "w_log (snd ?f) = w_log ?w" by (rule step_table.upsert_all_log)
  ultimately have "w_log (snd (Reconcile_Workflow e req w)) =
       w_log w @ [Event ''Warning'' ''TimedOut'' ''Workflow timed out'', PatchStatus (OWorkflow W) (OWorkflow W')]"
    using log by simp
  moreover have all: "\<exists>s. find (\<lambda>s. ss_Name s = n) (wf_StepStatuses W') = Some s \<and> ss_Phase s = StepPhaseFailed" if "n \<in> set ?ns" for n
    unfolding W'(3) using that by (rule step_table.upsert_all_phase)
  moreover have "computeFlatWorkflowPhase W' = WorkflowPhaseFailed"
    unfolding computeFlatWorkflowPhase_def getSpecStepNames_def W'(4) conjunct1 [OF conjunct2 [OF fail_steps_frame]]
    using all assms(4) by (intro step_kind.all_failed) (auto simp: isFailedStepPhase_def)
  moreover have "list_all (\<lambda>s. map_option ss_Phase (findStepStatus (wf_StepStatuses W') (st_Name s)) = Some StepPhaseFailed)
      (wsp_Steps (wf_Spec W))"
    using all by (fastforce simp: list_all_iff findStepStatus_def)
  ultimately show ?thesis using W'(1,2) by blast
qed

definition timed_workflow :: Workflow where
  "timed_workflow =
     (let W = sample_workflow chain [sample_status ''a'' StepPhaseRunning]
      in W\<lparr>wf_Spec := (wf_Spec W)\<lparr>wsp_Timeout := Some (seconds 60)\<rparr>,
           wf_Status := (wf_Status W)\<lparr>wst_StartTime := Some 0, wst_Phase := WorkflowPhaseRunning\<rparr>\<rparr>)"

definition late_env :: env where
  "late_env = (env_with timed_workflow)\<lparr>e_clock := (\<lambda>n. 61000000000 + int n)\<rparr>"

theorem timeout_fails_every_step_witness:
  "list_all (\<lambda>W'. wf_Phase W' = WorkflowPhaseFailed)
     (written (w_log (snd (Reconcile_Workflow late_env \<lparr>nn_Namespace = ''ci'', nn_Name = ''build''\<rparr> sample_world))))"
proof -
  let ?req = "\<lparr>nn_Namespace = ''ci'', nn_Name = ''build''\<rparr>"
  have "e_GetWorkflow late_env sample_world ?req = Inr timed_workflow" by (simp add: late_env_def)
  moreover have "om_DeletionTimestamp (wf_Meta timed_workflow) = None" "wsp_Jobs (wf_Spec timed_workflow) = []"
    "wsp_Steps (wf_Spec timed_workflow) \<noteq> []" "wsp_Timeout (wf_Spec timed_workflow) = Some (seconds 60)"
    "wst_StartTime (wf_Status timed_workflow) = Some 0"
    by (simp_all add: timed_workflow_def sample_workflow_def chain_def zero_ObjectMeta_def Let_def)
  moreover have "detectCycle (wsp_Steps (wf_Spec timed_workflow)) = []" by code_simp
  moreover have "\<not> isWorkflowTerminal (wf_Phase timed_workflow)" by code_simp
  moreover have "sint (seconds 60) < sint (time_Sub (e_clock late_env (w_reads sample_world)) 0)"
    by (simp add: late_env_def sample_world_def sint_time_Sub seconds_def sint_word_of_int_small min_int64_def max_int64_def)
  ultimately obtain W' where "w_log (snd (Reconcile_Workflow late_env ?req sample_world)) =
      w_log sample_world @ [Event ''Warning'' ''TimedOut'' ''Workflow timed out'', PatchStatus (OWorkflow timed_workflow) (OWorkflow W')]"
    "wf_Phase W' = WorkflowPhaseFailed"
    using timeout_fails_every_step [of late_env sample_world ?req timed_workflow "seconds 60" 0] by blast
  then show ?thesis by (simp add: sample_world_def)
qed

section \<open>The namespace quota\<close>

lemma active_count:
  "foldl (\<lambda>n W. if \<not> isWorkflowTerminal (wf_Phase W) then n + 1 else n) k items =
     k + int (length (filter (\<lambda>W. \<not> isWorkflowTerminal (wf_Phase W)) items))"
  by (induction items arbitrary: k) auto

lemma checkNamespaceQuota_eq:
  assumes "maxConcurrentWorkflowsForNS e ns w = Inr limit" "e_ListWorkflows e w ns = Inr items"
  shows "checkNamespaceQuota e ns w =
    Inr (limit \<le> 0 \<or> int (length (filter (\<lambda>W. \<not> isWorkflowTerminal (wf_Phase W)) items)) < limit)"
  using assms by (simp add: checkNamespaceQuota_def active_count)

lemma guardWorkflow_deferred:
  assumes "quotaExceeded e W w"
  shows "guardWorkflow e handle proceed W w =
    reportNotReady e ''QuotaExceeded'' ''Namespace has too many active workflows'' (RequeueAfter (seconds 30)) W w"
  using assms by (auto simp: guardWorkflow_def timeoutElapsed_def quotaExceeded_def split: option.split)

text \<open>
  The quota counts the Workflow that asks for admission: when the listing of the namespace holds
  at least as many unfinished Workflows as the limit, the asking one included, it is deferred.  With
  a limit of one and the Workflow itself in the listing that is always so: its Runners are never
  created, and every pass only asks to be repeated in 30 seconds (or reports a failed patch).
\<close>

lemma quota_of_one_never_admits:
  assumes "e_GetWorkflow e w req = Inr W" "om_DeletionTimestamp (wf_Meta W) = None"
    and "wsp_Jobs (wf_Spec W) = []" "wsp_Steps (wf_Spec W) \<noteq> []" "detectCycle (wsp_Steps (wf_Spec W)) = []"
    and "wst_StartTime (wf_Status W) = None" "\<not> isWorkflowTerminal (wf_Phase W)"
    and "e_GetNamespaceAnnotations e w (wf_Namespace W) = Inr [(MaxWorkflowsAnnotation, ''1'')]"
    and "e_ListWorkflows e w (wf_Namespace W) = Inr items" "W \<in> set items"
  shows "created_runners (w_log (snd (Reconcile_Workflow e req w))) = created_runners (w_log w) \<and>
    (fst (Reconcile_Workflow e req w) = RequeueAfter (seconds 30) \<or>
     (\<exists>err. fst (Reconcile_Workflow e req w) = Error err))"
proof -
  have "Sscanf_d ''1'' = Some 1" by code_simp
  with assms(8) have lim: "maxConcurrentWorkflowsForNS e (wf_Namespace W) w = Inr 1"
    by (simp add: maxConcurrentWorkflowsForNS_def)
  from assms(7,10) have "filter (\<lambda>W. \<not> isWorkflowTerminal (wf_Phase W)) items \<noteq> []" by (auto simp: filter_empty_conv)
  then have "0 < length (filter (\<lambda>W. \<not> isWorkflowTerminal (wf_Phase W)) items)" by simp
  with checkNamespaceQuota_eq [OF lim assms(9)] have "quotaExceeded e W w"
    using assms(6) by (auto simp: quotaExceeded_def)
  with assms(1-5) show ?thesis
    using reportNotReady_result [of e "''QuotaExceeded''" "''Namespace has too many active workflows''" "RequeueAfter (seconds 30)" W w]
    by (simp add: Reconcile_Workflow_def reconcileFlatWorkflow_def guardWorkflow_deferred reportNotReady_log)
qed

definition quota_env :: env where
  "quota_env = (let W = sample_workflow chain []
     in (env_with W)\<lparr>e_GetNamespaceAnnotations := (\<lambda>w ns. Inr [(MaxWorkflowsAnnotation, ''1'')]),
                     e_ListWorkflows := (\<lambda>w ns. Inr [W])\<rparr>)"

lemma quota_of_one_never_admits_example:
  "created_runners (w_log (snd (Reconcile_Workflow quota_env \<lparr>nn_Namespace = ''ci'', nn_Name = ''build''\<rparr> sample_world))) = []"
proof -
  let ?W = "sample_workflow chain []" and ?req = "\<lparr>nn_Namespace = ''ci'', nn_Name = ''build''\<rparr>"
  have "e_GetWorkflow quota_env sample_world ?req = Inr ?W" "om_DeletionTimestamp (wf_Meta ?W) = None"
    "wsp_Jobs (wf_Spec ?W) = []" "wsp_Steps (wf_Spec ?W) \<noteq> []" "wst_StartTime (wf_Status ?W) = None"
    "e_GetNamespaceAnnotations quota_env sample_world (wf_Namespace ?W) = Inr [(MaxWorkflowsAnnotation, ''1'')]"
    "e_ListWorkflows quota_env sample_world (wf_Namespace ?W) = Inr [?W]" "?W \<in> set [?W]"
    "\<not> isWorkflowTerminal (wf_Phase ?W)"
    by (simp_all add: quota_env_def Let_def sample_workflow_def chain_def zero_ObjectMeta_def zero_WorkflowStatus_def isWorkflowTerminal_def)
  moreover have "detectCycle (wsp_Steps (wf_Spec ?W)) = []" by code_simp
  ultimately show ?thesis using quota_of_one_never_admits [of quota_env sample_world ?req ?W "[?W]"]
    by (simp add: sample_world_def)
qed

section \<open>Histories of passes\<close>

text \<open>
  One pass after another over the same flat Workflow, in environments that may differ each time:
  the server keeps the spec and takes over the status that a pass writes.
\<close>

definition persist :: "Workflow \<Rightarrow> Workflow \<Rightarrow> Workflow" where
  "persist W W' = W\<lparr>wf_Status := wf_Status W'\<rparr>"

inductive flat_run :: "Workflow \<Rightarrow> Workflow \<Rightarrow> bool" for W0 where
  start: "flat_run W0 W0"
| pass: "flat_run W0 W \<Longrightarrow> W' \<in> set (written (w_log (snd (reconcileFlatWorkflow e W w)))) \<Longrightarrow> w_log w = [] \<Longrightarrow>
    flat_run W0 (persist W W')"

definition flat_inv :: "Workflow \<Rightarrow> bool" where
  "flat_inv W \<longleftrightarrow>
     distinct (map ss_Name (wf_StepStatuses W)) \<and>
     set (map ss_Name (wf_StepStatuses W)) \<subseteq> set (map st_Name (wsp_Steps (wf_Spec W))) \<and>
     (\<forall>s \<in> set (wsp_Steps (wf_Spec W)). retries (st_Name s) W \<le> max 0 (max_retries s)) \<and>
     (isWorkflowTerminal (wf_Phase W) \<longrightarrow> wst_CompletionTime (wf_Status W) \<noteq> None)"

lemma retries_cong: "wf_StepStatuses W = wf_StepStatuses W' \<Longrightarrow> retries n W = retries n W'"
  by (simp add: retries_def)

lemma flat_inv_same:
  assumes "flat_inv W" "wf_StepStatuses W' = wf_StepStatuses W" "wf_Phase W' = wf_Phase W"
    "wst_CompletionTime (wf_Status W') = wst_CompletionTime (wf_Status W)"
  shows "flat_inv (persist W W')"
  using assms by (auto simp: flat_inv_def persist_def retries_def)

lemma flat_inv_fail_steps:
  assumes "flat_inv W" "wf_StepStatuses W' = wf_StepStatuses (fst (fail_steps e (map st_Name (wsp_Steps (wf_Spec W))) W w))"
    "wst_CompletionTime (wf_Status W') \<noteq> None"
  shows "flat_inv (persist W W')"
proof -
  let ?names = "set (map st_Name (wsp_Steps (wf_Spec W)))"
  have "distinct (map ss_Name (wf_StepStatuses V)) \<and> set (map ss_Name (wf_StepStatuses V)) \<subseteq> ?names \<longrightarrow>
      set ns \<subseteq> ?names \<longrightarrow>
      distinct (map ss_Name (wf_StepStatuses (fst (fail_steps e ns V w)))) \<and>
      set (map ss_Name (wf_StepStatuses (fst (fail_steps e ns V w)))) \<subseteq> ?names \<and>
      (\<forall>n. retries n (fst (fail_steps e ns V w)) = retries n V)" for ns V w
  proof (induction ns arbitrary: V w)
    case (Cons n ns)
    let ?V = "fst (upsertStepStatus e n StepPhaseFailed V w)" and ?w = "snd (upsertStepStatus e n StepPhaseFailed V w)"
    have "retries m ?V = retries m V" for m
      using retries_other [OF step_update_upsert, of m n] by (cases "m = n") auto
    with Cons.IH [of ?V ?w] show ?case
      using step_table.upsert_distinct [of V e n StepPhaseFailed w] step_table.upsert_dom [of e n StepPhaseFailed V w] by auto
  qed simp
  from this [of W "map st_Name (wsp_Steps (wf_Spec W))" w] assms show ?thesis
    by (auto simp: flat_inv_def persist_def retries_def)
qed

text \<open>The loop over the steps writes nothing itself.\<close>

lemma silent_written: "silent xs \<Longrightarrow> written xs = []"
  by (induction xs) (auto simp: silent_def split: effect.splits)

context step_builder
begin

lemma build_written: "written (w_log (snd (build W step w))) = written (w_log w)"
  using build_log [of W step w] by (auto simp: silent_written)

lemma startStep_written: "written (w_log (lp_world (startStep e build job step l))) = written (w_log (lp_world l))"
  by (auto simp: startStep_def Let_def split_beta do_request_defs build_written split: sum.split)

end

lemma trackStep_written: "written (w_log (lp_world (trackStep e job step st r l))) = written (w_log (lp_world l))"
  by (auto simp: trackStep_def retryStep_def recordStep_def Let_def split_beta do_request_defs split: option.split)

context step_builder
begin

lemma reconcileStep_written:
  "written (w_log (lp_world (reconcileStep e build job rm step l))) = written (w_log (lp_world l))"
  by (cases "evaluateStep step (lp_stepStatusMap l)"; cases "map_of rm (st_Name step)")
     (simp_all add: reconcileStep_def Let_def trackStep_written startStep_written)

lemma loop_written: "written (w_log (lp_world (loop_from e build job rm l steps))) = written (w_log (lp_world l))"
  by (induction steps rule: rev_induct) (simp_all add: reconcileStep_written)

end

lemma reconcileSteps_written:
  "written (w_log (snd (snd (reconcileSteps e runners W w)))) = written (w_log w)"
  using flat_steps.loop_written [of e e "[]" "buildRunnerMap runners" "step_loop_init W w" "wsp_Steps (wf_Spec W)"]
  by (simp add: reconcileSteps_eq flat_pass_def)

lemma requeueForTimeout_log [simp, log_simps]: "w_log (snd (requeueForTimeout e W w)) = w_log w"
  by (simp add: requeueForTimeout_def Let_def split_beta split: option.split)

lemma changePhase_facts:
  fixes e m ph u W w
  defines "r \<equiv> changePhase e m ph u W w"
  shows "wf_Phase (fst (snd r)) = ph" "wf_StepStatuses (fst (snd r)) = wf_StepStatuses W"
    "wf_JobStatuses (fst (snd r)) = wf_JobStatuses W" "wf_Spec (fst (snd r)) = wf_Spec W" "wf_Meta (fst (snd r)) = wf_Meta W"
    "wst_CompletionTime (wf_Status (fst (snd r))) = wst_CompletionTime (wf_Status W)"
    "wst_StartTime (wf_Status (fst (snd r))) = wst_StartTime (wf_Status W)"
    "written (w_log (snd (snd r))) = written (w_log w)" "created_runners (w_log (snd (snd r))) = created_runners (w_log w)"
    "fst r \<longleftrightarrow> u \<or> ph \<noteq> wf_Phase W"
  by (cases "ph = wf_Phase W"; cases ph; simp add: r_def changePhase_def Let_def split_beta)+

lemma completeWorkflow_facts:
  fixes e u W w
  defines "r \<equiv> completeWorkflow e u W w"
  shows "wf_Phase (fst (snd r)) = wf_Phase W" "wf_StepStatuses (fst (snd r)) = wf_StepStatuses W"
    "wf_JobStatuses (fst (snd r)) = wf_JobStatuses W" "wf_Spec (fst (snd r)) = wf_Spec W" "wf_Meta (fst (snd r)) = wf_Meta W"
    "isWorkflowTerminal (wf_Phase W) \<Longrightarrow> wst_CompletionTime (wf_Status (fst (snd r))) \<noteq> None"
    "wst_StartTime (wf_Status (fst (snd r))) = wst_StartTime (wf_Status W)"
    "written (w_log (snd (snd r))) = written (w_log w)" "created_runners (w_log (snd (snd r))) = created_runners (w_log w)"
    "u \<Longrightarrow> fst r"
  by (auto simp: r_def completeWorkflow_def Let_def split_beta split: option.split)

lemma finishWorkflow_written:
  "\<exists>xs. written (w_log (snd (finishWorkflow e m base ph u W w))) = written (w_log w) @ xs \<and>
     list_all (\<lambda>W'. wf_StepStatuses W' = wf_StepStatuses W \<and> wf_JobStatuses W' = wf_JobStatuses W \<and> wf_Phase W' = ph \<and>
       wst_StartTime (wf_Status W') = wst_StartTime (wf_Status W) \<and> wf_Spec W' = wf_Spec W \<and> wf_Meta W' = wf_Meta W \<and>
       (isWorkflowTerminal ph \<longrightarrow> wst_CompletionTime (wf_Status W') \<noteq> None)) xs \<and>
     created_runners (w_log (snd (finishWorkflow e m base ph u W w))) = created_runners (w_log w) \<and>
     (u \<or> ph \<noteq> wf_Phase W \<longrightarrow> length xs = 1)"
proof -
  let ?a = "changePhase e m ph u W w"
  let ?b = "completeWorkflow e (fst ?a) (fst (snd ?a)) (snd (snd ?a))"
  let ?W = "observeGeneration (fst (snd ?b))"
  note a = changePhase_facts [where e = e and m = m and ph = ph and u = u and W = W and w = w]
  note b = completeWorkflow_facts [where e = e and u = "fst ?a" and W = "fst (snd ?a)" and w = "snd (snd ?a)"]
  have eq: "w_log (snd (finishWorkflow e m base ph u W w)) =
      (if fst ?b then w_log (snd (snd ?b)) @ [PatchStatus (OWorkflow base) (OWorkflow ?W)] else w_log (snd (snd ?b)))"
    by (simp add: finishWorkflow_def Let_def split_beta do_request_defs split: sum.split)
  have W: "wf_StepStatuses ?W = wf_StepStatuses W \<and> wf_JobStatuses ?W = wf_JobStatuses W \<and> wf_Phase ?W = ph \<and>
       wst_StartTime (wf_Status ?W) = wst_StartTime (wf_Status W) \<and> wf_Spec ?W = wf_Spec W \<and> wf_Meta ?W = wf_Meta W \<and>
       (isWorkflowTerminal ph \<longrightarrow> wst_CompletionTime (wf_Status ?W) \<noteq> None)"
    using a b by simp
  show ?thesis
  proof (cases "fst ?b")
    case True
    with W a(8,9) b(8,9) show ?thesis unfolding eq by (intro exI [of _ "[?W]"]) simp
  next
    case False
    with a(8-10) b(8-10) show ?thesis unfolding eq by (intro exI [of _ "[]"]) auto
  qed
qed

lemma startWorkflow_facts:
  fixes e W w
  defines "r \<equiv> startWorkflow e W w"
  shows "wf_StepStatuses (fst (snd r)) = wf_StepStatuses W" "wf_JobStatuses (fst (snd r)) = wf_JobStatuses W"
    "wf_Spec (fst (snd r)) = wf_Spec W" "wf_Meta (fst (snd r)) = wf_Meta W" "w_log (snd (snd r)) = w_log w"
    "wst_StartTime (wf_Status (fst (snd r))) \<noteq> None"
  by (auto simp: r_def startWorkflow_def split_beta)

text \<open>The Workflow a flat pass works on: started, with its steps sorted.\<close>

definition prepared :: "env \<Rightarrow> Workflow \<Rightarrow> world \<Rightarrow> Workflow" where
  "prepared e W w =
     (let W1 = fst (snd (startWorkflow e W w))
      in W1\<lparr>wf_Spec := (wf_Spec W1)\<lparr>wsp_Steps := topologicalSortSteps (wsp_Steps (wf_Spec W1))\<rparr>\<rparr>)"

lemma prepared_facts:
  "wf_StepStatuses (prepared e W w) = wf_StepStatuses W"
  "wsp_Steps (wf_Spec (prepared e W w)) = topologicalSortSteps (wsp_Steps (wf_Spec W))"
  by (simp_all add: prepared_def startWorkflow_facts)

lemma runFlatWorkflow_eq:
  "runFlatWorkflow e runners W w =
     (let r = reconcileSteps e runners (prepared e W w) (snd (snd (startWorkflow e W w)))
      in finishWorkflow e ''All steps completed successfully'' W (computeFlatWorkflowPhase (fst (snd r)))
           (fst r \<or> fst (startWorkflow e W w)) (fst (snd r)) (snd (snd r)))"
  by (simp add: runFlatWorkflow_def prepared_def Let_def split_beta)

lemma runFlatWorkflow_inv:
  assumes inv: "flat_inv W" and dist: "distinct (map st_Name (wsp_Steps (wf_Spec W)))"
    and ok: "detectCycle (wsp_Steps (wf_Spec W)) = []" and log: "w_log w = []"
    and W': "W' \<in> set (written (w_log (snd (runFlatWorkflow e runners W w))))"
  shows "flat_inv (persist W W')"
proof -
  let ?P = "prepared e W w" and ?w = "snd (snd (startWorkflow e W w))"
  let ?r = "reconcileSteps e runners ?P ?w" and ?ss = "wsp_Steps (wf_Spec W)"
  let ?l = "flat_pass e runners ?P ?w"
  have r: "fst (snd ?r) = lp_wf ?l" by (simp add: reconcileSteps_eq)
  from finishWorkflow_written [of e "''All steps completed successfully''" W "computeFlatWorkflowPhase (fst (snd ?r))"
      "fst ?r \<or> fst (startWorkflow e W w)" "fst (snd ?r)" "snd (snd ?r)"] W'
  have st: "wf_StepStatuses W' = wf_StepStatuses (lp_wf ?l)"
    and fin: "isWorkflowTerminal (wf_Phase W') \<longrightarrow> wst_CompletionTime (wf_Status W') \<noteq> None"
    by (auto simp: runFlatWorkflow_eq Let_def reconcileSteps_written startWorkflow_facts(5) log list_all_iff r)
  have sorted: "distinct (map st_Name (wsp_Steps (wf_Spec ?P)))" "set (wsp_Steps (wf_Spec ?P)) = set ?ss"
    using topologicalSortSteps_distinct [OF dist] topologicalSortSteps_complete [OF dist ok]
    by (auto simp: prepared_facts dest: mset_eq_setD)
  have dP: "distinct (map ss_Name (wf_StepStatuses (lp_wf (step_loop_init ?P ?w))))"
    using inv by (simp add: flat_inv_def prepared_facts)
  have "distinct (map ss_Name (wf_StepStatuses (lp_wf ?l))) \<and> set (map ss_Name (wf_StepStatuses (lp_wf ?l))) \<subseteq> set (map st_Name ?ss)"
    using loop_names [OF in_sync_init dP, of e "buildStepRunner e" "[]" "buildRunnerMap runners" "wsp_Steps (wf_Spec ?P)"] inv
    by (auto simp: flat_pass_def sorted(2) flat_inv_def prepared_facts(1))
  moreover have "retries (st_Name s) (lp_wf ?l) \<le> max 0 (max_retries s)" if "s \<in> set ?ss" for s
  proof -
    from that have "s \<in> set (wsp_Steps (wf_Spec ?P))" by (simp add: sorted(2))
    from flat_steps.loop_retries [OF in_sync_init dP sorted(1) this, of e e "[]" "buildRunnerMap runners"]
    have "retries (st_Name s) (lp_wf ?l) \<le> max (retries (st_Name s) W) (max_retries s)"
      by (simp add: flat_pass_def retries_cong [OF prepared_facts(1)])
    with inv that show ?thesis by (fastforce simp: flat_inv_def)
  qed
  ultimately show ?thesis using fin by (auto simp: flat_inv_def persist_def st retries_def)
qed

lemma reconcileFlatWorkflow_inv:
  assumes inv: "flat_inv W" and dist: "distinct (map st_Name (wsp_Steps (wf_Spec W)))" and log: "w_log w = []"
    and W': "W' \<in> set (written (w_log (snd (reconcileFlatWorkflow e W w))))"
  shows "flat_inv (persist W W')"
proof -
  have report: "flat_inv (persist W W')" if "W' \<in> set (written (w_log (snd (reportNotReady e reason msg res W v))))" "written (w_log v) = []"
    for reason msg res v
    using that inv by (auto simp: reportNotReady_log intro: flat_inv_same)
  show ?thesis
  proof (cases "wsp_Steps (wf_Spec W) = [] \<or> detectCycle (wsp_Steps (wf_Spec W)) \<noteq> []")
    case True
    with W' report log show ?thesis by (auto simp: reconcileFlatWorkflow_def Let_def split: if_splits)
  next
    case False
    let ?t = "timeoutElapsed e W w"
    have tlog: "w_log (snd ?t) = []" by (simp add: timeoutElapsed_def split_beta log split: option.split)
    from False W' have g: "W' \<in> set (written (w_log (snd (guardWorkflow e (handleTimeoutFlat e) (runFlatWorkflow e) W w))))"
      by (simp add: reconcileFlatWorkflow_def)
    show ?thesis
    proof (cases "fst ?t")
      case True
      let ?w = "emit (Event ''Warning'' ''TimedOut'' ''Workflow timed out'') (snd ?t)"
      let ?f = "fail_steps e (map st_Name (wsp_Steps (wf_Spec W))) W ?w"
      from True g have "W' \<in> set (written (w_log (snd (failTimedOut e W (fst ?f) (snd ?f)))))"
        by (simp add: guardWorkflow_def handleTimeoutFlat_def Let_def split_beta)
      with failTimedOut_log [of e W "fst ?f" "snd ?f"] step_table.upsert_all_log [of e StepPhaseFailed W ?w]
      have "wf_StepStatuses W' = wf_StepStatuses (fst ?f)" "wst_CompletionTime (wf_Status W') \<noteq> None"
        by (auto simp: tlog)
      with inv show ?thesis by (rule flat_inv_fail_steps)
    next
      case no: False
      with g tlog report False inv dist runFlatWorkflow_inv [OF inv dist _ tlog] show ?thesis
        by (auto simp: guardWorkflow_def split_beta split: if_splits sum.splits)
    qed
  qed
qed

lemma persist_spec [simp]: "wf_Spec (persist W W') = wf_Spec W"
  by (simp add: persist_def)

lemma flat_run_spec: "flat_run W0 W \<Longrightarrow> wf_Spec W = wf_Spec W0"
  by (induction rule: flat_run.induct) simp_all

lemma flat_run_keeps:
  assumes "flat_run W0 W" "distinct (map st_Name (wsp_Steps (wf_Spec W0)))" "wf_Status W0 = zero_WorkflowStatus"
  shows "flat_inv W"
  using assms(1)
proof (induction rule: flat_run.induct)
  case start
  show ?case by (simp add: flat_inv_def assms(3) retries_def zero_WorkflowStatus_def isWorkflowTerminal_def)
next
  case (pass W W' e w)
  from assms(2) flat_run_spec [OF pass.hyps(1)] have "distinct (map st_Name (wsp_Steps (wf_Spec W)))" by simp
  from reconcileFlatWorkflow_inv [OF pass.IH this pass.hyps(3,2)] show ?case .
qed

text \<open>
  C2. The status of a flat Workflow is well formed at every point of every history of passes, in any
  sequence of environments, clocks and failures: no step has two entries, every entry belongs to a
  step of the spec, no step has been retried more often than its policy allows, and a Succeeded or
  Failed Workflow has a completion time.
\<close>

theorem flat_run_invariant:
  assumes "flat_run W0 W" "distinct (map st_Name (wsp_Steps (wf_Spec W0)))" "wf_Status W0 = zero_WorkflowStatus"
  shows "flat_inv W"
  by (rule flat_run_keeps [OF assms])

theorem flat_run_invariant_witness:
  "flat_inv (persist (sample_workflow chain [])
     (hd (written (w_log (snd (reconcileFlatWorkflow sample_env (sample_workflow chain []) sample_world))))))"
proof -
  let ?W = "sample_workflow chain []" and ?ws = "written (w_log (snd (reconcileFlatWorkflow sample_env (sample_workflow chain []) sample_world)))"
  have "length ?ws = 1" by code_simp
  then have "hd ?ws \<in> set ?ws" by (intro hd_in_set) auto
  then have "flat_run ?W (persist ?W (hd ?ws))"
    by (rule flat_run.pass [OF flat_run.start]) (simp only: sample_world_def world.select_convs)
  moreover have "distinct (map st_Name (wsp_Steps (wf_Spec ?W)))" by code_simp
  moreover have "wf_Status ?W = zero_WorkflowStatus" by (simp add: sample_workflow_def zero_WorkflowStatus_def)
  ultimately show ?thesis by (rule flat_run_invariant)
qed

definition cleanup_workflow :: Workflow where
  "cleanup_workflow =
     (let W = sample_workflow
                [zero_WorkflowStep\<lparr>st_Name := ''a''\<rparr>,
                 zero_WorkflowStep\<lparr>st_Name := ''cleanup'', st_DependsOn := [''a''], st_When := ''on_failure''\<rparr>]
                [sample_status ''a'' StepPhaseFailed, sample_status ''cleanup'' StepPhaseFailed]
      in W\<lparr>wf_Status := (wf_Status W)\<lparr>wst_StartTime := Some 0, wst_CompletionTime := Some 1, wst_Phase := WorkflowPhaseFailed\<rparr>\<rparr>)"

definition cleanup_env :: env where
  "cleanup_env = (env_with cleanup_workflow)\<lparr>e_ListRunners := (\<lambda>w ns ls. Inr [sample_runner ''a'' RunnerPhaseRunning])\<rparr>"

text \<open>
  A Workflow that timed out is not finished for good: a pass does not look at the phase before it
  starts steps, so for a step that never had a Runner and is to run \<open>on_failure\<close> the next pass after
  the timeout creates a Runner and sets the phase of the Workflow from Failed back to Running.
\<close>

lemma timed_out_workflow_resumes:
  "let w' = snd (Reconcile_Workflow cleanup_env \<lparr>nn_Namespace = ''ci'', nn_Name = ''build''\<rparr> sample_world)
   in wf_Phase cleanup_workflow = WorkflowPhaseFailed \<and>
      map stepOf (created_runners (w_log w')) = [Some ''cleanup''] \<and>
      map wf_Phase (written (w_log w')) = [WorkflowPhaseRunning]"
proof -
  let ?W = cleanup_workflow and ?e = cleanup_env and ?w = sample_world
  let ?rs = "[sample_runner ''a'' RunnerPhaseRunning]" and ?P = "prepared cleanup_env cleanup_workflow sample_world"
  let ?r = "reconcileSteps ?e ?rs ?P (snd (snd (startWorkflow ?e ?W ?w)))"
  have W: "om_DeletionTimestamp (wf_Meta ?W) = None" "wsp_Jobs (wf_Spec ?W) = []" "wsp_Steps (wf_Spec ?W) \<noteq> []"
    "wsp_Timeout (wf_Spec ?W) = None" "wst_StartTime (wf_Status ?W) = Some 0" "wf_Phase ?W = WorkflowPhaseFailed"
    by (simp_all add: cleanup_workflow_def sample_workflow_def zero_ObjectMeta_def Let_def)
  have "detectCycle (wsp_Steps (wf_Spec ?W)) = []" by code_simp
  moreover have "listStepRunners ?e ?W v = Inr ?rs" for v by (simp add: listStepRunners_def cleanup_env_def)
  ultimately have eq: "Reconcile_Workflow ?e \<lparr>nn_Namespace = ''ci'', nn_Name = ''build''\<rparr> ?w = runFlatWorkflow ?e ?rs ?W ?w"
    using W by (simp add: Reconcile_Workflow_def reconcileFlatWorkflow_def guardWorkflow_def timeoutElapsed_def
        quotaExceeded_def cleanup_env_def)
  have "map stepOf (created_runners (w_log (snd (snd ?r)))) = [Some ''cleanup'']" by code_simp
  moreover have "computeFlatWorkflowPhase (fst (snd ?r)) = WorkflowPhaseRunning" by code_simp
  moreover have "fst ?r" by code_simp
  moreover have "written (w_log (snd (snd ?r))) = []"
    by (simp add: reconcileSteps_written startWorkflow_facts(5)) (simp add: sample_world_def)
  ultimately show ?thesis
    using finishWorkflow_written [of ?e "''All steps completed successfully''" ?W "computeFlatWorkflowPhase (fst (snd ?r))"
        "fst ?r \<or> fst (startWorkflow ?e ?W ?w)" "fst (snd ?r)" "snd (snd ?r)"]
    by (auto simp: eq runFlatWorkflow_eq Let_def W(6) length_Suc_conv)
qed

end
