(* ===== verification/Job_Properties.thy ===== *)
theory Job_Properties
  imports Workflow_Properties
begin

text \<open>
  The properties of job-based Workflows: which jobs may start Runners, how a Runner of a job is
  decorated, when a job is recorded as finished, and what a timeout does to jobs.
\<close>

section \<open>Where the Runners of a pass come from\<close>

context step_builder
begin

text \<open>Every Runner the loop asks for was built for one of its steps.\<close>

lemma loop_created_from:
  assumes "sets_owner (e_SetControllerReference e)"
  shows "\<exists>rs. created_runners (w_log (lp_world (loop_from e build job rm l steps))) = created_runners (w_log (lp_world l)) @ rs \<and>
    (\<forall>r \<in> set rs. \<exists>W s w. s \<in> set steps \<and> om_Labels (rn_Meta r) = om_Labels (rn_Meta (fst (build W s w))))"
proof (induction steps rule: rev_induct)
  case (snoc s xs)
  let ?l = "loop_from e build job rm l xs"
  from snoc obtain rs where rs: "created_runners (w_log (lp_world ?l)) = created_runners (w_log (lp_world l)) @ rs"
    "\<forall>r \<in> set rs. \<exists>W t w. t \<in> set (xs @ [s]) \<and> om_Labels (rn_Meta r) = om_Labels (rn_Meta (fst (build W t w)))" by fastforce
  let ?b = "fst (build (lp_wf ?l) s (lp_world ?l))"
  consider "created_runners (w_log (lp_world (reconcileStep e build job rm s ?l))) = created_runners (w_log (lp_world ?l))"
    | m where "created_runners (w_log (lp_world (reconcileStep e build job rm s ?l))) =
        created_runners (w_log (lp_world ?l)) @ [?b\<lparr>rn_Meta := m\<rparr>]" "om_Labels m = om_Labels (rn_Meta ?b)"
    using reconcileStep_created [of e job rm s ?l] sets_ownerD(3) [OF assms]
    by (auto simp: Let_def split: if_splits sum.splits)
  then show ?case
  proof cases
    case 1
    with rs show ?thesis by (intro exI [of _ rs]) simp
  next
    case 2
    have "\<forall>r \<in> set (rs @ [?b\<lparr>rn_Meta := m\<rparr>]). \<exists>W t w. t \<in> set (xs @ [s]) \<and>
        om_Labels (rn_Meta r) = om_Labels (rn_Meta (fst (build W t w)))"
      using rs(2) 2(2) by auto
    with 2(1) rs(1) show ?thesis by (intro exI [of _ "rs @ [?b\<lparr>rn_Meta := m\<rparr>]"]) simp
  qed
qed auto

end

definition jobOf :: "Runner \<Rightarrow> string option" where
  "jobOf r = map_of (om_Labels (rn_Meta r)) job_label"

lemma reconcileStepLoop_job_created:
  assumes "sets_owner (e_SetControllerReference e)"
  shows "\<exists>rs. created_runners (w_log (snd (snd (reconcileStepLoop e steps runners (buildJobStepRunner e job) (js_Name job) W w)))) =
      created_runners (w_log w) @ rs \<and>
    list_all (\<lambda>r. jobOf r = Some (js_Name job) \<and> stepOf r \<in> (Some \<circ> st_Name) ` set steps) rs"
proof -
  have lab: "jobOf r = Some (js_Name job) \<and> stepOf r = Some (st_Name s)"
    if "om_Labels (rn_Meta r) = om_Labels (rn_Meta (fst (buildJobStepRunner e job W s w)))" for r W s w
    using that by (simp add: jobOf_def stepOf_def buildJobStepRunner_meta buildStepRunner_meta zero_ObjectMeta_def)
  from job_steps.loop_created_from [OF assms, of e job "js_Name job" "buildRunnerMap runners" "step_loop_init W w" steps]
  obtain rs where "created_runners (w_log (snd (snd (reconcileStepLoop e steps runners (buildJobStepRunner e job) (js_Name job) W w)))) =
      created_runners (w_log w) @ rs"
    "\<forall>r \<in> set rs. \<exists>W s w. s \<in> set steps \<and> om_Labels (rn_Meta r) = om_Labels (rn_Meta (fst (buildJobStepRunner e job W s w)))"
    by (auto simp: reconcileStepLoop_eq Let_def)
  with lab show ?thesis by (intro exI [of _ rs]) (fastforce simp: list_all_iff)
qed

lemma reconcileStepLoop_frame [simp]:
  "wf_Spec (fst (snd (reconcileStepLoop e steps runners build job W w))) = wf_Spec W"
  "wf_JobStatuses (fst (snd (reconcileStepLoop e steps runners build job W w))) = wf_JobStatuses W"
  by (simp_all add: reconcileStepLoop_eq Let_def loop_frame)

abbreviation job_at :: "Workflow \<Rightarrow> nat \<Rightarrow> JobSpec" where
  "job_at W i \<equiv> wsp_Jobs (wf_Spec W) ! i"

lemma runJob_facts:
  fixes e i rs js W w
  defines "r \<equiv> runJob e i rs js W w"
  shows "wsp_Jobs (wf_Spec (fst (snd r))) =
      (wsp_Jobs (wf_Spec W))[i := (job_at W i)\<lparr>js_Steps := topologicalSortSteps (js_Steps (job_at W i))\<rparr>]"
    and "sets_owner (e_SetControllerReference e) \<Longrightarrow>
      \<exists>new. created_runners (w_log (snd (snd r))) = created_runners (w_log w) @ new \<and>
        list_all (\<lambda>x. jobOf x = Some (js_Name (job_at W i))) new"
proof -
  let ?job = "(job_at W i)\<lparr>js_Steps := topologicalSortSteps (js_Steps (job_at W i))\<rparr>"
  let ?u = "if map_option jst_Phase js \<noteq> Some JobPhaseRunning
      then upsertJobStatus e (js_Name (job_at W i)) JobPhaseRunning W w else (W, w)"
  let ?W = "(fst ?u)\<lparr>wf_Spec := (wf_Spec W)\<lparr>wsp_Jobs := (wsp_Jobs (wf_Spec W))[i := ?job]\<rparr>\<rparr>"
  let ?l = "reconcileJobSteps e ?job (filterRunnersByJob rs (js_Name (job_at W i))) ?W (snd ?u)"
  show "wsp_Jobs (wf_Spec (fst (snd r))) = (wsp_Jobs (wf_Spec W))[i := ?job]"
    by (simp add: r_def runJob_def reconcileJobSteps_def Let_def split_beta)
  assume "sets_owner (e_SetControllerReference e)"
  from reconcileStepLoop_job_created [OF this, of "js_Steps ?job" "filterRunnersByJob rs (js_Name (job_at W i))" ?job ?W "snd ?u"]
  obtain new where "created_runners (w_log (snd (snd ?l))) = created_runners (w_log w) @ new"
    "list_all (\<lambda>x. jobOf x = Some (js_Name (job_at W i))) new"
    by (auto simp: reconcileJobSteps_def list_all_iff)
  moreover have "w_log (snd (snd r)) = w_log (snd (snd ?l))"
    by (cases "map_option jst_Phase js = Some JobPhaseRunning")
       (simp_all add: r_def runJob_def reconcileJobSteps_def Let_def split_beta del: map_option_eq_Some)
  ultimately show "\<exists>new. created_runners (w_log (snd (snd r))) = created_runners (w_log w) @ new \<and>
        list_all (\<lambda>x. jobOf x = Some (js_Name (job_at W i))) new" by auto
qed

text \<open>A job may start Runners when its needs are met and it is not finished.\<close>

definition job_open :: "(string, JobStatus) gomap \<Rightarrow> JobSpec \<Rightarrow> bool" where
  "job_open m job \<longleftrightarrow> evaluateJobWhen job m = jobRun \<and> \<not> terminalJob (map_of m (js_Name job))"

lemma reconcileJob_facts:
  fixes e i rs m W w
  defines "r \<equiv> reconcileJob e i rs m W w"
  shows "length (wsp_Jobs (wf_Spec (fst (snd r)))) = length (wsp_Jobs (wf_Spec W))"
    and "j \<noteq> i \<Longrightarrow> job_at (fst (snd r)) j = job_at W j"
    and "sets_owner (e_SetControllerReference e) \<Longrightarrow>
      \<exists>new. created_runners (w_log (snd (snd r))) = created_runners (w_log w) @ new \<and>
        list_all (\<lambda>x. jobOf x = Some (js_Name (job_at W i)) \<and> job_open m (job_at W i)) new"
  using runJob_facts [of e i rs "map_of m (js_Name (job_at W i))" W w]
  by (auto simp: r_def reconcileJob_def Let_def split_beta job_open_def split: jobDecision.split)

lemma reconcileJobs_gated:
  assumes "sets_owner (e_SetControllerReference e)"
  shows "\<exists>new. created_runners (w_log (snd (snd (reconcileJobs e rs u W w)))) = created_runners (w_log w) @ new \<and>
    list_all (\<lambda>x. list_ex (\<lambda>job. jobOf x = Some (js_Name job) \<and> job_open (buildJobStatusMap W) job) (wsp_Jobs (wf_Spec W))) new"
proof -
  let ?m = "buildJobStatusMap W" and ?n = "length (wsp_Jobs (wf_Spec W))"
  let ?f = "\<lambda>(updated, W, w) i. let (jobUpdated, W, w) = reconcileJob e i rs ?m W w in (updated \<or> jobUpdated, W, w)"
  let ?P = "\<lambda>k. \<exists>new. created_runners (w_log (snd (snd (foldl ?f (u, W, w) [0..<k])))) = created_runners (w_log w) @ new \<and>
      list_all (\<lambda>x. list_ex (\<lambda>job. jobOf x = Some (js_Name job) \<and> job_open ?m job) (wsp_Jobs (wf_Spec W))) new"
  have "?P k \<and> (\<forall>j \<ge> k. job_at (fst (snd (foldl ?f (u, W, w) [0..<k]))) j = job_at W j)" if "k \<le> ?n" for k
    using that
  proof (induction k)
    case (Suc k)
    let ?s = "foldl ?f (u, W, w) [0..<k]"
    let ?V = "fst (snd ?s)" and ?v = "snd (snd ?s)"
    have step: "snd (foldl ?f (u, W, w) [0..<Suc k]) = snd (reconcileJob e k rs ?m ?V ?v)"
      by (simp add: split_beta)
    from Suc obtain new where IH: "created_runners (w_log ?v) = created_runners (w_log w) @ new"
      "list_all (\<lambda>x. list_ex (\<lambda>job. jobOf x = Some (js_Name job) \<and> job_open ?m job) (wsp_Jobs (wf_Spec W))) new"
      and same: "\<forall>j \<ge> k. job_at ?V j = job_at W j" by auto
    from reconcileJob_facts(3) [OF assms, of k rs ?m ?V ?v] obtain more where
      more: "created_runners (w_log (snd (snd (reconcileJob e k rs ?m ?V ?v)))) = created_runners (w_log ?v) @ more"
      "list_all (\<lambda>x. jobOf x = Some (js_Name (job_at ?V k)) \<and> job_open ?m (job_at ?V k)) more" by blast
    from Suc.prems have "job_at W k \<in> set (wsp_Jobs (wf_Spec W))" by simp
    with more(2) same have "list_all (\<lambda>x. list_ex (\<lambda>job. jobOf x = Some (js_Name job) \<and> job_open ?m job) (wsp_Jobs (wf_Spec W))) more"
      by (auto simp: list_all_iff list_ex_iff)
    with IH more(1) have "?P (Suc k)" unfolding step by (intro exI [of _ "new @ more"]) simp
    moreover have "\<forall>j \<ge> Suc k. job_at (fst (snd (foldl ?f (u, W, w) [0..<Suc k]))) j = job_at W j"
      unfolding step using same reconcileJob_facts(2) [of _ k e rs ?m ?V ?v] by auto
    ultimately show ?case ..
  qed simp
  from this [of ?n] show ?thesis by (simp add: reconcileJobs_def Let_def)
qed

section \<open>Properties\<close>

text \<open>
  When a job may start, as the specification has it, on the phases recorded for its needs: all of them
  are recorded and none is Pending, Running or Waiting, and its condition holds: \<open>always\<close> in any
  case, \<open>on_failure\<close> if one of them has failed, otherwise if all have succeeded.
\<close>

definition jobPhaseIn :: "Workflow \<Rightarrow> string \<Rightarrow> JobPhase option" where
  "jobPhaseIn W n = map_option jst_Phase (map_of (buildJobStatusMap W) n)"

definition job_due :: "Workflow \<Rightarrow> JobSpec \<Rightarrow> bool" where
  "job_due W job \<longleftrightarrow>
     (\<forall>n \<in> set (js_Needs job). jobPhaseIn W n \<notin> {None, Some JobPhasePending, Some JobPhaseRunning, Some JobPhaseWaiting}) \<and>
     (if TrimSpace (js_When job) = ''always'' then True
      else if TrimSpace (js_When job) = ''on_failure''
        then \<exists>n \<in> set (js_Needs job). jobPhaseIn W n = Some JobPhaseFailed
      else \<forall>n \<in> set (js_Needs job). jobPhaseIn W n = Some JobPhaseSucceeded)"

text \<open>As for steps, the case of a job that is to run on failure after a skipped need is left aside.\<close>

definition job_when_undisputed :: "Workflow \<Rightarrow> JobSpec \<Rightarrow> bool" where
  "job_when_undisputed W job \<longleftrightarrow>
     TrimSpace (js_When job) \<noteq> ''on_failure'' \<or>
     (\<forall>n \<in> set (js_Needs job). jobPhaseIn W n \<noteq> Some JobPhaseSkipped \<and> jobPhaseIn W n \<noteq> Some JobPhaseUnset)"

lemma finished_job_phase:
  "p \<notin> {None, Some JobPhasePending, Some JobPhaseRunning, Some JobPhaseWaiting} \<longleftrightarrow>
   p \<in> {Some JobPhaseSucceeded, Some JobPhaseFailed, Some JobPhaseSkipped, Some JobPhaseUnset}"
  by (cases p; cases "the p") auto

lemma evaluateJobWhen_run_iff:
  assumes "job_when_undisputed W job"
  shows "evaluateJobWhen job (buildJobStatusMap W) = jobRun \<longleftrightarrow> job_due W job"
proof -
  let ?m = "buildJobStatusMap W" and ?p = "jobPhaseIn W" and ?ns = "js_Needs job"
  have wait: "(case map_of ?m n of None \<Rightarrow> True
      | Some js \<Rightarrow> jst_Phase js = JobPhasePending \<or> jst_Phase js = JobPhaseRunning \<or> jst_Phase js = JobPhaseWaiting) \<longleftrightarrow>
      ?p n \<in> {None, Some JobPhasePending, Some JobPhaseRunning, Some JobPhaseWaiting}" for n
    by (cases "map_of ?m n") (auto simp: jobPhaseIn_def)
  have succ: "jst_Phase (mget zero_JobStatus ?m n) = JobPhaseSucceeded \<longleftrightarrow> ?p n = Some JobPhaseSucceeded" for n
    by (cases "map_of ?m n") (auto simp: jobPhaseIn_def mget_def zero_JobStatus_def)
  have "evaluateJobWhen job ?m = jobRun \<longleftrightarrow>
      (\<forall>n \<in> set ?ns. ?p n \<notin> {None, Some JobPhasePending, Some JobPhaseRunning, Some JobPhaseWaiting}) \<and>
      (if TrimSpace (js_When job) = ''always'' then True
       else if TrimSpace (js_When job) = ''on_failure'' then \<not> (\<forall>n \<in> set ?ns. ?p n = Some JobPhaseSucceeded)
       else \<forall>n \<in> set ?ns. ?p n = Some JobPhaseSucceeded)"
    unfolding evaluateJobWhen_def wait succ list_ex_iff list_all_iff by (simp add: Let_def defaultWhen_def)
  then show ?thesis
    using assms unfolding job_due_def job_when_undisputed_def finished_job_phase by (auto split: if_splits)
qed

text \<open>
  C16. Jobs are gated by their needs: every Runner a pass over the jobs asks for carries the label of
  a job of the spec that is not finished, whose needs, on the job statuses the pass began with, are
  all recorded and none Pending, Running or Waiting, and whose \<open>when\<close> condition holds (\<open>always\<close>;
  \<open>on_failure\<close> after a failed need; otherwise after success of all).  Jobs that are to run on failure
  after a skipped need are left aside.
\<close>

theorem reconcileJobs_respect_needs:
  assumes "sets_owner (e_SetControllerReference e)" "list_all (job_when_undisputed W) (wsp_Jobs (wf_Spec W))"
  shows "case reconcileJobs e runners updated W w of (updated', W', w') \<Rightarrow>
    \<exists>new. created_runners (w_log w') = created_runners (w_log w) @ new \<and>
      list_all (\<lambda>r. list_ex (\<lambda>job. map_of (om_Labels (rn_Meta r)) job_label = Some (js_Name job) \<and> job_due W job \<and>
        jobPhaseIn W (js_Name job) \<notin> {Some JobPhaseSucceeded, Some JobPhaseFailed, Some JobPhaseSkipped})
          (wsp_Jobs (wf_Spec W))) new"
proof -
  have "job_open (buildJobStatusMap W) job \<longleftrightarrow> job_due W job \<and>
      jobPhaseIn W (js_Name job) \<notin> {Some JobPhaseSucceeded, Some JobPhaseFailed, Some JobPhaseSkipped}"
    if "job \<in> set (wsp_Jobs (wf_Spec W))" for job
    using evaluateJobWhen_run_iff [of W job] assms(2) that
    by (cases "map_of (buildJobStatusMap W) (js_Name job)") (auto simp: job_open_def list_all_iff terminalJob_def jobPhaseIn_def)
  then show ?thesis
    using reconcileJobs_gated [OF assms(1), of runners updated W w]
    by (fastforce simp: split_beta jobOf_def list_all_iff list_ex_iff)
qed

definition two_jobs :: "WorkflowStep list \<Rightarrow> WorkflowStep list \<Rightarrow> JobSpec list" where
  "two_jobs xs ys =
     [\<lparr>js_Name = ''build'', js_Needs = [], js_When = [], js_Env = None, js_GitRepo = None, js_SharedVolume = None,
       js_ServiceAccountName = [], js_Volumes = None, js_Mounts = None, js_Steps = xs\<rparr>,
      \<lparr>js_Name = ''deploy'', js_Needs = [''build''], js_When = [], js_Env = None, js_GitRepo = None, js_SharedVolume = None,
       js_ServiceAccountName = [], js_Volumes = None, js_Mounts = None, js_Steps = ys\<rparr>]"

definition job_workflow :: "JobSpec list \<Rightarrow> JobStatus list \<Rightarrow> StepStatus list \<Rightarrow> Workflow" where
  "job_workflow jobs js ss =
     (let W = sample_workflow [] ss
      in W\<lparr>wf_Spec := (wf_Spec W)\<lparr>wsp_Jobs := jobs\<rparr>, wf_Status := (wf_Status W)\<lparr>wst_JobStatuses := js\<rparr>\<rparr>)"

theorem reconcileJobs_respect_needs_witness:
  "case reconcileJobs sample_env [] False (job_workflow (two_jobs chain diamond) [] []) sample_world of (updated', W', w') \<Rightarrow>
     map jobOf (created_runners (w_log w')) = [Some ''build''] \<and>
     list_all (\<lambda>r. list_ex (\<lambda>job. map_of (om_Labels (rn_Meta r)) job_label = Some (js_Name job) \<and>
       job_due (job_workflow (two_jobs chain diamond) [] []) job) (two_jobs chain diamond)) (created_runners (w_log w'))"
proof -
  let ?W = "job_workflow (two_jobs chain diamond) [] []"
  let ?r = "reconcileJobs sample_env [] False ?W sample_world"
  have jobs: "wsp_Jobs (wf_Spec ?W) = two_jobs chain diamond" by (simp add: job_workflow_def Let_def)
  have "map jobOf (created_runners (w_log (snd (snd ?r)))) = [Some ''build'']" by code_simp
  moreover have un: "list_all (job_when_undisputed ?W) (wsp_Jobs (wf_Spec ?W))" by code_simp
  from reconcileJobs_respect_needs [OF sample_env_ok(2) un, where runners = "[]" and updated = False and w = sample_world]
  obtain new where "created_runners (w_log (snd (snd ?r))) = created_runners (w_log sample_world) @ new"
    "list_all (\<lambda>r. list_ex (\<lambda>job. map_of (om_Labels (rn_Meta r)) job_label = Some (js_Name job) \<and> job_due ?W job) (two_jobs chain diamond)) new"
    unfolding jobs split_beta list_all_iff list_ex_iff by blast
  moreover have "created_runners (w_log sample_world) = []" by (simp add: sample_world_def)
  ultimately show ?thesis by (simp add: split_beta)
qed

lemma job_flags_spec:
  "job_flags m steps = (\<forall>s \<in> set steps. \<exists>st. map_of m (st_Name s) = Some st \<and>
      ss_Phase st \<notin> {StepPhasePending, StepPhaseWaiting, StepPhaseRunning},
    \<exists>s \<in> set steps. \<exists>st. map_of m (st_Name s) = Some st \<and> ss_Phase st = StepPhaseFailed)"
proof -
  let ?f = "\<lambda>(allDone, hasFailed) step. case map_of m (st_Name step) of None \<Rightarrow> (False, hasFailed)
      | Some st \<Rightarrow> if ss_Phase st = StepPhasePending \<or> ss_Phase st = StepPhaseWaiting \<or> ss_Phase st = StepPhaseRunning
           then (False, hasFailed) else if ss_Phase st = StepPhaseFailed then (allDone, True) else (allDone, hasFailed)"
  have "foldl ?f (d, f) steps = (d \<and> (\<forall>s \<in> set steps. \<exists>st. map_of m (st_Name s) = Some st \<and>
      ss_Phase st \<notin> {StepPhasePending, StepPhaseWaiting, StepPhaseRunning}),
    f \<or> (\<exists>s \<in> set steps. \<exists>st. map_of m (st_Name s) = Some st \<and> ss_Phase st = StepPhaseFailed))" for d f
    by (induction steps arbitrary: d f) (auto split: option.split)
  then show ?thesis by (simp add: job_flags_def)
qed

lemma runJob_phase:
  fixes e i rs js W w
  defines "r \<equiv> runJob e i rs js W w"
  assumes "i < length (wsp_Jobs (wf_Spec W))"
  shows "map_option jst_Phase (findJobStatus (wf_JobStatuses (fst (snd r))) (js_Name (job_at W i))) =
      (case job_flags (buildStepStatusMap (fst (snd r))) (topologicalSortSteps (js_Steps (job_at W i))) of
         (allDone, hasFailed) \<Rightarrow>
           if allDone then Some (if hasFailed then JobPhaseFailed else JobPhaseSucceeded)
           else if map_option jst_Phase js \<noteq> Some JobPhaseRunning then Some JobPhaseRunning
           else map_option jst_Phase (findJobStatus (wf_JobStatuses W) (js_Name (job_at W i))))"
proof -
  have up: "map_option jst_Phase (find (\<lambda>j. jst_Name j = n) (wf_JobStatuses (fst (upsertJobStatus e n p V v)))) = Some p" for n p V v
    using job_table.upsert_same [of n e p V v] by auto
  have map: "buildStepStatusMap (fst (upsertJobStatus e n p V v)) = buildStepStatusMap V" for n p V v
    by (simp add: buildStepStatusMap_def)
  show ?thesis
    by (cases "map_option jst_Phase js = Some JobPhaseRunning")
       (auto simp: r_def runJob_def reconcileJobSteps_def Let_def split_beta findJobStatus_def up map
          simp del: map_option_eq_Some)
qed

text \<open>
  C27. For a job whose steps form a valid graph, Succeeded means what it says: when a pass turns the
  job Succeeded, every step the spec lists for it has a status, and none is active or failed.
\<close>

theorem job_success_is_sound:
  assumes "i < length (wsp_Jobs (wf_Spec W))" "job = wsp_Jobs (wf_Spec W) ! i"
    and "distinct (map st_Name (js_Steps job))" "detectCycle (js_Steps job) = []"
    and "runJob e i runners js W w = (updated, W', w')"
    and "map_option jst_Phase (findJobStatus (wf_JobStatuses W) (js_Name job)) \<noteq> Some JobPhaseSucceeded"
    and "map_option jst_Phase (findJobStatus (wf_JobStatuses W') (js_Name job)) = Some JobPhaseSucceeded"
    and "s \<in> set (js_Steps job)"
  shows "\<exists>st. map_of (buildStepStatusMap W') (st_Name s) = Some st \<and> \<not> isActiveStepPhase st \<and> \<not> isFailedStepPhase st"
proof -
  have W': "W' = fst (snd (runJob e i runners js W w))" using assms(5) by simp
  have "s \<in> set (topologicalSortSteps (js_Steps job))"
    using topologicalSortSteps_complete [OF assms(3,4)] assms(8) by (metis mset_eq_setD)
  moreover have "job_flags (buildStepStatusMap W') (topologicalSortSteps (js_Steps job)) = (True, False)"
    using runJob_phase [OF assms(1), of e runners js w] assms(2,6,7)
    by (auto simp: W' split: prod.splits if_splits simp del: map_option_eq_Some)
  ultimately show ?thesis
    unfolding job_flags_spec by (fastforce simp: isActiveStepPhase_def isFailedStepPhase_def)
qed

definition one_job :: "WorkflowStep list \<Rightarrow> JobSpec list" where
  "one_job steps = [hd (two_jobs steps [])]"

definition job_runner :: "string \<Rightarrow> string \<Rightarrow> RunnerPhase \<Rightarrow> Runner" where
  "job_runner j n p =
     (let r = sample_runner n p
      in r\<lparr>rn_Meta := (rn_Meta r)\<lparr>om_Labels := [(step_label, n), (job_label, j)]\<rparr>\<rparr>)"

theorem job_success_is_sound_witness:
  "\<exists>st. map_of (buildStepStatusMap (fst (snd (runJob sample_env 0 [job_runner ''build'' ''a'' RunnerPhaseSucceeded] None
      (job_workflow (one_job [zero_WorkflowStep\<lparr>st_Name := ''a''\<rparr>]) [] [sample_status ''a'' StepPhaseRunning]) sample_world)))) ''a'' = Some st \<and>
    \<not> isActiveStepPhase st \<and> \<not> isFailedStepPhase st"
proof -
  let ?s = "zero_WorkflowStep\<lparr>st_Name := ''a''\<rparr>" and ?rs = "[job_runner ''build'' ''a'' RunnerPhaseSucceeded]"
  let ?W = "job_workflow (one_job [?s]) [] [sample_status ''a'' StepPhaseRunning]"
  let ?job = "wsp_Jobs (wf_Spec ?W) ! 0" and ?r = "runJob sample_env 0 ?rs None ?W sample_world"
  have "0 < length (wsp_Jobs (wf_Spec ?W))" "distinct (map st_Name (js_Steps ?job))" "detectCycle (js_Steps ?job) = []"
    "map_option jst_Phase (findJobStatus (wf_JobStatuses ?W) (js_Name ?job)) \<noteq> Some JobPhaseSucceeded"
    "map_option jst_Phase (findJobStatus (wf_JobStatuses (fst (snd ?r))) (js_Name ?job)) = Some JobPhaseSucceeded"
    by code_simp+
  moreover have "?s \<in> set (js_Steps ?job)" "st_Name ?s = ''a''"
    by (simp_all add: job_workflow_def one_job_def two_jobs_def Let_def)
  moreover have "?r = (fst ?r, fst (snd ?r), snd (snd ?r))" by simp
  ultimately show ?thesis using job_success_is_sound [of 0 ?W ?job sample_env ?rs None sample_world] by metis
qed

text \<open>
  The graph of the steps inside a job is never validated: a job in which every step depends on
  something (a cycle, or an unknown name) loses all its steps in the sort and is recorded as
  Succeeded at once, without a Runner for any of them.
\<close>

lemma blocked_job_succeeds:
  assumes "i < length (wsp_Jobs (wf_Spec W))" "list_all (\<lambda>s. st_DependsOn s \<noteq> []) (js_Steps (wsp_Jobs (wf_Spec W) ! i))"
  shows "case runJob e i runners js W w of (updated, W', w') \<Rightarrow>
    map_option jst_Phase (findJobStatus (wf_JobStatuses W') (js_Name (wsp_Jobs (wf_Spec W) ! i))) = Some JobPhaseSucceeded \<and>
    created_runners (w_log w') = created_runners (w_log w)"
proof -
  have none: "topologicalSortSteps (js_Steps (job_at W i)) = []" using assms(2) by (rule topologicalSortSteps_all_waiting)
  have "job_flags m [] = (True, False)" for m by (simp add: job_flags_def)
  with runJob_phase [OF assms(1), of e runners js w] none
  have "map_option jst_Phase (findJobStatus (wf_JobStatuses (fst (snd (runJob e i runners js W w)))) (js_Name (job_at W i))) =
      Some JobPhaseSucceeded" by (simp del: map_option_eq_Some)
  moreover have "created_runners (w_log (snd (snd (runJob e i runners js W w)))) = created_runners (w_log w)"
    by (simp add: runJob_def reconcileJobSteps_def reconcileStepLoop_def none Let_def split_beta)
  ultimately show ?thesis by (simp add: split_beta)
qed

lemma blocked_job_succeeds_example:
  "case runJob sample_env 0 [] None (job_workflow (one_job loop_steps) [] []) sample_world of (updated, W', w') \<Rightarrow>
     map_option jst_Phase (findJobStatus (wf_JobStatuses W') ''build'') = Some JobPhaseSucceeded"
proof -
  let ?W = "job_workflow (one_job loop_steps) [] []"
  have "0 < length (wsp_Jobs (wf_Spec ?W))" "list_all (\<lambda>s. st_DependsOn s \<noteq> []) (js_Steps (wsp_Jobs (wf_Spec ?W) ! 0))"
    "js_Name (wsp_Jobs (wf_Spec ?W) ! 0) = ''build''"
    by (simp_all add: job_workflow_def one_job_def two_jobs_def loop_steps_def Let_def)
  with blocked_job_succeeds [where i = 0 and W = ?W and e = sample_env and runners = "[]" and js = None and w = sample_world] show ?thesis by (auto simp: split_beta)
qed

section \<open>Timeouts of jobs\<close>

definition failed_step :: "string \<Rightarrow> Workflow \<Rightarrow> bool" where
  "failed_step n W \<longleftrightarrow> map_option ss_Phase (findStepStatus (wf_StepStatuses W) n) = Some StepPhaseFailed"

definition failed_job :: "string \<Rightarrow> Workflow \<Rightarrow> bool" where
  "failed_job n W \<longleftrightarrow> map_option jst_Phase (findJobStatus (wf_JobStatuses W) n) = Some JobPhaseFailed"

lemma failed_upsert:
  "failed_step m (fst (upsertStepStatus e n StepPhaseFailed W w)) \<longleftrightarrow> m = n \<or> failed_step m W"
  "failed_job m (fst (upsertJobStatus e n JobPhaseFailed W w)) \<longleftrightarrow> m = n \<or> failed_job m W"
  "failed_step m (fst (upsertJobStatus e n p W w)) \<longleftrightarrow> failed_step m W"
  "failed_job m (fst (upsertStepStatus e n q W w)) \<longleftrightarrow> failed_job m W"
  using step_table.upsert_same [of n e StepPhaseFailed W w] job_table.upsert_same [of n e JobPhaseFailed W w]
  by (auto simp: failed_step_def failed_job_def findStepStatus_def findJobStatus_def
      step_table.upsert_other job_table.upsert_other, (cases "m = n", auto simp: step_table.upsert_other job_table.upsert_other)+)

lemma failed_fail_steps:
  "failed_step m (fst (fail_steps e ns W w)) \<longleftrightarrow> m \<in> set ns \<or> failed_step m W"
  "failed_job m (fst (fail_steps e ns W w)) \<longleftrightarrow> failed_job m W"
proof (induction ns arbitrary: W w)
  case (Cons n ns)
  {
    case 1
    then show ?case using Cons(1) [of "fst (upsertStepStatus e n StepPhaseFailed W w)" "snd (upsertStepStatus e n StepPhaseFailed W w)"]
      by (auto simp: failed_upsert)
  next
    case 2
    then show ?case using Cons(2) [of "fst (upsertStepStatus e n StepPhaseFailed W w)" "snd (upsertStepStatus e n StepPhaseFailed W w)"]
      by (auto simp: failed_upsert)
  }
qed simp_all

lemmas fail_steps_pair =
  failed_fail_steps [where W = "fst s" and w = "snd s" for s, unfolded prod.collapse]
  step_table.upsert_all_log [of e StepPhaseFailed "fst s" "snd s" ns for e ns s, unfolded prod.collapse]

definition fail_jobs :: "env \<Rightarrow> JobSpec list \<Rightarrow> Workflow \<times> world \<Rightarrow> Workflow \<times> world" where
  "fail_jobs e jobs s = foldl (\<lambda>(W, w) job. let (W, w) = upsertJobStatus e (js_Name job) JobPhaseFailed W w
     in fail_steps e (map st_Name (js_Steps job)) W w) s jobs"

lemma fail_jobs_snoc:
  "fail_jobs e (jobs @ [job]) s =
     (let s = fail_jobs e jobs s; u = upsertJobStatus e (js_Name job) JobPhaseFailed (fst s) (snd s)
      in fail_steps e (map st_Name (js_Steps job)) (fst u) (snd u))"
  by (simp add: fail_jobs_def split_beta Let_def)

lemma failed_fail_jobs:
  "list_all (\<lambda>job. failed_job (js_Name job) (fst (fail_jobs e jobs s)) \<and>
     list_all (\<lambda>st. failed_step (st_Name st) (fst (fail_jobs e jobs s))) (js_Steps job)) jobs"
proof (induction jobs rule: rev_induct)
  case (snoc job jobs)
  then show ?case
    unfolding fail_jobs_snoc Let_def by (auto simp: list_all_iff fail_steps_pair failed_upsert)
qed (simp add: fail_jobs_def)

lemma fail_jobs_log: "w_log (snd (fail_jobs e jobs s)) = w_log (snd s)"
proof (induction jobs rule: rev_induct)
  case (snoc job jobs)
  then show ?case unfolding fail_jobs_snoc Let_def by (simp add: fail_steps_pair)
qed (simp add: fail_jobs_def)

text \<open>
  A job-based Workflow that has run longer than its timeout is failed as a whole: the pass
  creates and deletes nothing, and the status it writes has phase Failed, a completion time, and
  the phase Failed for every job and for every step of every job.
\<close>

lemma timeout_fails_every_job:
  assumes "e_GetWorkflow e w req = Inr W" "om_DeletionTimestamp (wf_Meta W) = None"
    and "wsp_Jobs (wf_Spec W) \<noteq> []" "detectJobCycle (wsp_Jobs (wf_Spec W)) = []"
    and "wsp_Timeout (wf_Spec W) = Some t" "wst_StartTime (wf_Status W) = Some start" "\<not> isWorkflowTerminal (wf_Phase W)"
    and "sint t < sint (time_Sub (e_clock e (w_reads w)) start)"
  shows "\<exists>W'. w_log (snd (Reconcile_Workflow e req w)) =
       w_log w @ [Event ''Warning'' ''TimedOut'' ''Workflow timed out'', PatchStatus (OWorkflow W) (OWorkflow W')] \<and>
     wf_Phase W' = WorkflowPhaseFailed \<and> wst_CompletionTime (wf_Status W') \<noteq> None \<and>
     list_all (\<lambda>job. map_option jst_Phase (findJobStatus (wf_JobStatuses W') (js_Name job)) = Some JobPhaseFailed \<and>
       list_all (\<lambda>s. map_option ss_Phase (findStepStatus (wf_StepStatuses W') (st_Name s)) = Some StepPhaseFailed) (js_Steps job))
       (wsp_Jobs (wf_Spec W))"
proof -
  let ?w = "emit (Event ''Warning'' ''TimedOut'' ''Workflow timed out'') (snd (Now e w))"
  let ?f = "fail_jobs e (wsp_Jobs (wf_Spec W)) (W, ?w)"
  from failTimedOut_log [of e W "fst ?f" "snd ?f"] obtain W' where
    log: "w_log (snd (failTimedOut e W (fst ?f) (snd ?f))) = w_log (snd ?f) @ [PatchStatus (OWorkflow W) (OWorkflow W')]" and
    W': "wf_Phase W' = WorkflowPhaseFailed" "wst_CompletionTime (wf_Status W') \<noteq> None"
      "wf_StepStatuses W' = wf_StepStatuses (fst ?f)" "wf_JobStatuses W' = wf_JobStatuses (fst ?f)" by auto
  have "snd (Reconcile_Workflow e req w) = snd (failTimedOut e W (fst ?f) (snd ?f))"
    using assms by (simp add: Reconcile_Workflow_def reconcileJobWorkflow_def guardWorkflow_timeout handleTimeoutJobs_def
        fail_jobs_def Let_def split_beta)
  with log fail_jobs_log [of e "wsp_Jobs (wf_Spec W)" "(W, ?w)"]
  have "w_log (snd (Reconcile_Workflow e req w)) =
      w_log w @ [Event ''Warning'' ''TimedOut'' ''Workflow timed out'', PatchStatus (OWorkflow W) (OWorkflow W')]" by simp
  moreover from failed_fail_jobs [of e "wsp_Jobs (wf_Spec W)" "(W, ?w)"] have
    "list_all (\<lambda>job. map_option jst_Phase (findJobStatus (wf_JobStatuses W') (js_Name job)) = Some JobPhaseFailed \<and>
       list_all (\<lambda>s. map_option ss_Phase (findStepStatus (wf_StepStatuses W') (st_Name s)) = Some StepPhaseFailed) (js_Steps job))
       (wsp_Jobs (wf_Spec W))"
    by (simp only: failed_step_def failed_job_def W'(3,4))
  ultimately show ?thesis using W'(1,2) by blast
qed

definition timed_jobs :: Workflow where
  "timed_jobs =
     (let W = job_workflow (two_jobs chain diamond) [] []
      in W\<lparr>wf_Spec := (wf_Spec W)\<lparr>wsp_Timeout := Some (seconds 60)\<rparr>,
           wf_Status := (wf_Status W)\<lparr>wst_StartTime := Some 0, wst_Phase := WorkflowPhaseRunning\<rparr>\<rparr>)"

definition late_jobs_env :: env where
  "late_jobs_env = (env_with timed_jobs)\<lparr>e_clock := (\<lambda>n. 61000000000 + int n)\<rparr>"

lemma timeout_fails_every_job_example:
  "list_all (\<lambda>W'. wf_Phase W' = WorkflowPhaseFailed)
     (written (w_log (snd (Reconcile_Workflow late_jobs_env \<lparr>nn_Namespace = ''ci'', nn_Name = ''build''\<rparr> sample_world))))"
proof -
  let ?req = "\<lparr>nn_Namespace = ''ci'', nn_Name = ''build''\<rparr>"
  have "e_GetWorkflow late_jobs_env sample_world ?req = Inr timed_jobs" by (simp add: late_jobs_env_def)
  moreover have "om_DeletionTimestamp (wf_Meta timed_jobs) = None" "wsp_Jobs (wf_Spec timed_jobs) \<noteq> []"
    "wsp_Timeout (wf_Spec timed_jobs) = Some (seconds 60)" "wst_StartTime (wf_Status timed_jobs) = Some 0"
    by (simp_all add: timed_jobs_def job_workflow_def two_jobs_def sample_workflow_def zero_ObjectMeta_def Let_def)
  moreover have "detectJobCycle (wsp_Jobs (wf_Spec timed_jobs)) = []" by code_simp
  moreover have "\<not> isWorkflowTerminal (wf_Phase timed_jobs)" by code_simp
  moreover have "sint (seconds 60) < sint (time_Sub (e_clock late_jobs_env (w_reads sample_world)) 0)"
    by (simp add: late_jobs_env_def sample_world_def sint_time_Sub seconds_def sint_word_of_int_small min_int64_def max_int64_def)
  ultimately obtain W' where "w_log (snd (Reconcile_Workflow late_jobs_env ?req sample_world)) =
      w_log sample_world @ [Event ''Warning'' ''TimedOut'' ''Workflow timed out'', PatchStatus (OWorkflow timed_jobs) (OWorkflow W')]"
    "wf_Phase W' = WorkflowPhaseFailed"
    using timeout_fails_every_job [of late_jobs_env sample_world ?req timed_jobs "seconds 60" 0] by blast
  then show ?thesis by (simp add: sample_world_def)
qed

section \<open>The Runners of a job\<close>

definition shared_sources :: "JobSpec \<Rightarrow> VolumeSource list" where
  "shared_sources job =
     (case js_SharedVolume job of
        None \<Rightarrow> []
      | Some sv \<Rightarrow> (case sv_EmptyDir sv of None \<Rightarrow> [] | Some d \<Rightarrow> [EmptyDir d]) @
                   (case sv_PersistentVolumeClaim sv of None \<Rightarrow> [] | Some c \<Rightarrow> [PersistentVolumeClaim c]))"

definition shared_path :: "JobSpec \<Rightarrow> string" where
  "shared_path job =
     (case js_SharedVolume job of
        None \<Rightarrow> ''/workspace''
      | Some sv \<Rightarrow> if sv_MountPath sv \<noteq> [] then sv_MountPath sv else ''/workspace'')"

lemma add_shared_volume_simps [simp]:
  "elems (rs_Volumes (add_shared_volume sv src spec)) = elems (rs_Volumes spec) @ [\<lparr>vol_Name = ''job-shared-volume'', vol_Source = src\<rparr>]"
  "elems (rs_Mounts (add_shared_volume sv src spec)) = elems (rs_Mounts spec) @ [\<lparr>vm_Name = ''job-shared-volume'',
     vm_MountPath = (if sv_MountPath sv \<noteq> [] then sv_MountPath sv else ''/workspace''), vm_ReadOnly = False, vm_Other = []\<rparr>]"
  "rs_Env (add_shared_volume sv src spec) = rs_Env spec" "rs_GitRepo (add_shared_volume sv src spec) = rs_GitRepo spec"
  "rs_ServiceAccountName (add_shared_volume sv src spec) = rs_ServiceAccountName spec"
  "rs_Image (add_shared_volume sv src spec) = rs_Image spec" "rs_Command (add_shared_volume sv src spec) = rs_Command spec"
  "rs_Args (add_shared_volume sv src spec) = rs_Args spec"
  by (simp_all add: add_shared_volume_def sharedVolumeName_def Let_def)

lemmas job_settings = addJobEnv_def addJobGitRepo_def addJobServiceAccount_def addJobVolumes_def addJobMounts_def
  addSharedEmptyDir_def addSharedClaim_def

text \<open>What each assignment does to each field.\<close>

lemma job_settings_lists:
  "elems (rs_Env (addJobEnv job s)) = elems (js_Env job) @ elems (rs_Env s)"
  "elems (rs_Volumes (addJobVolumes job s)) = elems (js_Volumes job) @ elems (rs_Volumes s)"
  "elems (rs_Mounts (addJobMounts job s)) = elems (js_Mounts job) @ elems (rs_Mounts s)"
  "elems (rs_Volumes (addSharedClaim job (addSharedEmptyDir job s))) = elems (rs_Volumes s) @
     map (\<lambda>src. \<lparr>vol_Name = ''job-shared-volume'', vol_Source = src\<rparr>) (shared_sources job)"
  "elems (rs_Mounts (addSharedClaim job (addSharedEmptyDir job s))) = elems (rs_Mounts s) @
     map (\<lambda>src. \<lparr>vm_Name = ''job-shared-volume'', vm_MountPath = shared_path job, vm_ReadOnly = False, vm_Other = []\<rparr>) (shared_sources job)"
  by (auto simp: job_settings shared_sources_def shared_path_def split: option.split)

lemma job_settings_keep:
  "rs_Env (addJobGitRepo job s) = rs_Env s" "rs_Env (addJobServiceAccount job s) = rs_Env s"
  "rs_Env (addJobVolumes job s) = rs_Env s" "rs_Env (addJobMounts job s) = rs_Env s"
  "rs_Env (addSharedEmptyDir job s) = rs_Env s" "rs_Env (addSharedClaim job s) = rs_Env s"
  "rs_Volumes (addJobEnv job s) = rs_Volumes s" "rs_Volumes (addJobGitRepo job s) = rs_Volumes s"
  "rs_Volumes (addJobServiceAccount job s) = rs_Volumes s" "rs_Volumes (addJobMounts job s) = rs_Volumes s"
  "rs_Mounts (addJobEnv job s) = rs_Mounts s" "rs_Mounts (addJobGitRepo job s) = rs_Mounts s"
  "rs_Mounts (addJobServiceAccount job s) = rs_Mounts s" "rs_Mounts (addJobVolumes job s) = rs_Mounts s"
  by (simp_all add: job_settings split: option.split)

lemma job_settings_scalars:
  fixes f :: "RunnerSpec \<Rightarrow> RunnerSpec"
  assumes "f \<in> {addJobEnv job, addJobVolumes job, addJobMounts job, addSharedEmptyDir job, addSharedClaim job}"
  shows "rs_GitRepo (f s) = rs_GitRepo s" "rs_ServiceAccountName (f s) = rs_ServiceAccountName s"
    "rs_Image (f s) = rs_Image s" "rs_Command (f s) = rs_Command s" "rs_Args (f s) = rs_Args s"
  using assms by (auto simp: job_settings split: option.split)

lemma job_settings_identity:
  "rs_GitRepo (addJobGitRepo job s) = (case rs_GitRepo s of None \<Rightarrow> js_GitRepo job | Some g \<Rightarrow> Some g)"
  "rs_GitRepo (addJobServiceAccount job s) = rs_GitRepo s"
  "rs_ServiceAccountName (addJobServiceAccount job s) =
     (if rs_ServiceAccountName s = [] then js_ServiceAccountName job else rs_ServiceAccountName s)"
  "rs_ServiceAccountName (addJobGitRepo job s) = rs_ServiceAccountName s"
  "rs_Image (addJobGitRepo job s) = rs_Image s" "rs_Image (addJobServiceAccount job s) = rs_Image s"
  "rs_Command (addJobGitRepo job s) = rs_Command s" "rs_Command (addJobServiceAccount job s) = rs_Command s"
  "rs_Args (addJobGitRepo job s) = rs_Args s" "rs_Args (addJobServiceAccount job s) = rs_Args s"
  by (auto simp: job_settings split: option.split)

lemma buildJobStepRunner_spec:
  "rn_Spec (fst (buildJobStepRunner e job W step w)) =
     addSharedClaim job (addSharedEmptyDir job (addJobMounts job (addJobVolumes job (addJobServiceAccount job
       (addJobGitRepo job (addJobEnv job (rn_Spec (fst (buildStepRunner e W step w)))))))))"
  by (simp add: buildJobStepRunner_def Let_def split_beta)

text \<open>
  C32. A job adds its settings to the Runner of a step without displacing the step's own: the job's
  environment, volumes and mounts come first and the step's after them, the step's repository and
  service account win over the job's, and each source of the shared volume is both declared as a
  volume and mounted at the configured path (\<open>/workspace\<close> by default).
\<close>

theorem job_decorates_runner:
  "let base = rn_Spec (fst (buildStepRunner e W step w)); spec = rn_Spec (fst (buildJobStepRunner e job W step w))
   in elems (rs_Env spec) = elems (js_Env job) @ elems (rs_Env base) \<and>
      elems (rs_Volumes spec) = elems (js_Volumes job) @ elems (rs_Volumes base) @
        map (\<lambda>src. \<lparr>vol_Name = ''job-shared-volume'', vol_Source = src\<rparr>) (shared_sources job) \<and>
      elems (rs_Mounts spec) = elems (js_Mounts job) @ elems (rs_Mounts base) @
        map (\<lambda>src. \<lparr>vm_Name = ''job-shared-volume'', vm_MountPath = shared_path job, vm_ReadOnly = False, vm_Other = []\<rparr>)
          (shared_sources job) \<and>
      rs_GitRepo spec = (case rs_GitRepo base of None \<Rightarrow> js_GitRepo job | Some g \<Rightarrow> Some g) \<and>
      rs_ServiceAccountName spec =
        (if rs_ServiceAccountName base = [] then js_ServiceAccountName job else rs_ServiceAccountName base) \<and>
      rs_Image spec = rs_Image base \<and> rs_Command spec = rs_Command base \<and> rs_Args spec = rs_Args base"
  unfolding Let_def buildJobStepRunner_spec
  by (simp add: job_settings_lists job_settings_keep job_settings_scalars [where job = job] job_settings_identity)

definition same_step :: "WorkflowStep list" where
  "same_step = [zero_WorkflowStep\<lparr>st_Name := ''test''\<rparr>]"

definition taken_env :: env where
  "taken_env = sample_env\<lparr>e_Create := (\<lambda>w x. Some (AlreadyExists ''runners''))\<rparr>"

text \<open>
  Step statuses are kept by step name alone, across jobs: when two jobs have a step of the same
  name, the second job finds the finished entry of the first; its own Runner cannot be created
  under the name already taken, and the job is recorded as Succeeded although none of its steps ran.
\<close>

lemma same_step_name_skips_job:
  "case reconcileJobs taken_env [job_runner ''build'' ''test'' RunnerPhaseSucceeded] False
      (job_workflow (two_jobs same_step same_step)
         [zero_JobStatus\<lparr>jst_Name := ''build'', jst_Phase := JobPhaseSucceeded\<rparr>] [sample_status ''test'' StepPhaseSucceeded])
      sample_world
   of (updated, W', w') \<Rightarrow>
     map_option jst_Phase (findJobStatus (wf_JobStatuses W') ''deploy'') = Some JobPhaseSucceeded \<and>
     map rn_Name (created_runners (w_log w')) = [rn_Name (job_runner ''build'' ''test'' RunnerPhaseSucceeded)]"
  by code_simp

end
