(* ===== verification/Gitops.thy ===== *)
theory Gitops
  imports Go_Strings Api_Types
begin

text \<open>
  \<open>internal/gitops\<close>: the init container that clones a Git repository before a runner starts,
  the volumes it needs, the shell script it runs, and the authentication strategies.  The Go
  interface \<open>AuthStrategy\<close> is a record of its three method results; the locale \<open>auth_strategy\<close>
  is its contract, interpreted for each of the three strategies of the package.
\<close>

section \<open>git.go: constants\<close>

definition DefaultGitImage :: string where "DefaultGitImage = ''alpine/git:2.47.2''"
definition WorkspaceVolumeName :: string where "WorkspaceVolumeName = ''runner-operator-git-repo''"
definition WorkspaceMountPath :: string where "WorkspaceMountPath = ''/workspace''"
definition RepoSubPath :: string where "RepoSubPath = ''repo''"
definition SecretVolumeName :: string where "SecretVolumeName = ''runner-operator-git-auth''"
definition SecretMountPath :: string where "SecretMountPath = ''/etc/git-auth''"
definition SSHTmpVolumeName :: string where "SSHTmpVolumeName = ''runner-operator-ssh-tmp''"
definition SSHTmpMountPath :: string where "SSHTmpMountPath = ''/tmp/ssh''"
definition GitConfigTmpVolumeName :: string where
  "GitConfigTmpVolumeName = ''runner-operator-git-config-tmp''"
definition GitConfigTmpMountPath :: string where "GitConfigTmpMountPath = ''/tmp/git-config''"

lemmas gitops_consts = DefaultGitImage_def WorkspaceVolumeName_def WorkspaceMountPath_def
  RepoSubPath_def SecretVolumeName_def SecretMountPath_def SSHTmpVolumeName_def
  SSHTmpMountPath_def GitConfigTmpVolumeName_def GitConfigTmpMountPath_def

section \<open>strategies.go: the authentication strategies\<close>

record AuthStrategy =
  SetupScript :: string
  CleanupScript :: string
  VolumeMounts :: "VolumeMount list"

definition mount :: "string \<Rightarrow> string \<Rightarrow> bool \<Rightarrow> VolumeMount" where
  "mount name path ro = \<lparr>vm_Name = name, vm_MountPath = path, vm_ReadOnly = ro, vm_Other = []\<rparr>"

definition noAuthStrategy :: AuthStrategy where
  "noAuthStrategy = \<lparr>SetupScript = [], CleanupScript = [], VolumeMounts = []\<rparr>"

definition pinnedKnownHosts :: string where
  "pinnedKnownHosts =
     ''# github.com'' @ [NL] @
     ''github.com ssh-ed25519 AAAAC3NzaC1lZDI1NTE5AAAAIOMqqnkVzrm0SdG6UOoqKLsabgH5C5skZZOJwFG3PN5z'' @ [NL] @
     ''github.com ecdsa-sha2-nistp256 AAAAE2VjZHNhLXNoYTItbmlzdHAyNTYAAAAIbmlzdHAyNTYAAABBBEmKSENjQEezOmxkZMy7opKgwFB9nkt5YRrYMjNuG5N87uRgg6CLrbo5wAdT/y6v0mKV0U2w0WZ2YB/++Tpockg='' @ [NL] @
     ''# gitlab.com'' @ [NL] @
     ''gitlab.com ssh-ed25519 AAAAC3NzaC1lZDI1NTE5AAAAIAfuCHKVTjquxvt6CM6tdG4SLp1Btn/nOeHHE5UOzRdf'' @ [NL] @
     ''# bitbucket.org'' @ [NL] @
     ''bitbucket.org ssh-ed25519 AAAAC3NzaC1lZDI1NTE5AAAAIIazEu89wgQZ4bqs3d1siqIEEVqyHUVbDp8/om5OItu5'' @ [NL]"

definition ssh_SetupScript :: string where
  "ssh_SetupScript =
     ''mkdir -p '' @ SSHTmpMountPath @ ''/.ssh'' @ [NL] @
     ''cp '' @ SecretMountPath @ ''/ssh-privatekey '' @ SSHTmpMountPath @ ''/.ssh/id_rsa'' @ [NL] @
     ''chmod 600 '' @ SSHTmpMountPath @ ''/.ssh/id_rsa'' @ [NL] @
     ''if [ -f '' @ SecretMountPath @ ''/known_hosts ]; then'' @ [NL] @
     ''  cp '' @ SecretMountPath @ ''/known_hosts '' @ SSHTmpMountPath @ ''/.ssh/known_hosts'' @ [NL] @
     ''else'' @ [NL] @
     ''  cat > '' @ SSHTmpMountPath @ ''/.ssh/known_hosts << '' @ [SQ] @ ''EOF'' @ [SQ] @ [NL] @
     pinnedKnownHosts @ ''EOF'' @ [NL] @
     ''fi'' @ [NL] @
     ''export GIT_SSH_COMMAND='' @ [DQ] @ ''ssh -i '' @ SSHTmpMountPath @
       ''/.ssh/id_rsa -o UserKnownHostsFile='' @ SSHTmpMountPath @
       ''/.ssh/known_hosts -o StrictHostKeyChecking=yes'' @ [DQ] @ [NL]"

text \<open>The strategy keeps the clone URL but none of its methods reads it.\<close>

definition sshAuthStrategy :: "string \<Rightarrow> AuthStrategy" where
  "sshAuthStrategy url =
     \<lparr>SetupScript = ssh_SetupScript,
      CleanupScript = ''rm -rf '' @ SSHTmpMountPath @ ''/.ssh'' @ [NL],
      VolumeMounts = [mount SecretVolumeName SecretMountPath True,
                      mount SSHTmpVolumeName SSHTmpMountPath False]\<rparr>"

definition http_SetupScript :: "GitAuthType \<Rightarrow> string" where
  "http_SetupScript authType =
     (let configDir = GitConfigTmpMountPath;
          (userExpr, passExpr) =
            (if authType = GitAuthTypeToken
             then ([DQ, DQ], ''$(cat '' @ SecretMountPath @ ''/token)'')
             else (''$(cat '' @ SecretMountPath @ ''/username)'', ''$(cat '' @ SecretMountPath @ ''/password)''))
      in ''git config --global credential.helper '' @ [SQ] @ ''store --file='' @ configDir @
           ''/.git-credentials'' @ [SQ] @ [NL] @
         ''printf '' @ [SQ] @ ''https://%s:%s@github.com'' @ [BS] @ ''n'' @ [SQ] @ '' '' @ userExpr @ '' '' @
           passExpr @ '' > '' @ configDir @ ''/.git-credentials'' @ [NL] @
         ''chmod 600 '' @ configDir @ ''/.git-credentials'' @ [NL] @
         ''export HOME='' @ configDir @ [NL])"

definition httpAuthStrategy :: "GitAuthType \<Rightarrow> AuthStrategy" where
  "httpAuthStrategy authType =
     \<lparr>SetupScript = http_SetupScript authType,
      CleanupScript = ''rm -f '' @ GitConfigTmpMountPath @ ''/.git-credentials '' @
        GitConfigTmpMountPath @ ''/.gitconfig'' @ [NL],
      VolumeMounts = [mount SecretVolumeName SecretMountPath True,
                      mount GitConfigTmpVolumeName GitConfigTmpMountPath False]\<rparr>"

section \<open>git.go: the factory and the builders\<close>

definition isSSHURL :: "string \<Rightarrow> bool" where
  "isSSHURL url \<longleftrightarrow>
     HasPrefix url ''ssh://'' \<or>
     (Contains url ''@'' \<and> Contains url '':'' \<and> \<not> Contains url ''://'')"

text \<open>The type both \<open>NewAuthStrategy\<close> and \<open>RequiredSecretKeys\<close> work with when none is set.\<close>

definition resolved_auth_type :: "GitRepo \<Rightarrow> GitAuth \<Rightarrow> GitAuthType" where
  "resolved_auth_type g a =
     (if ga_Type a = GitAuthTypeUnset
      then (if isSSHURL (gr_URL g) then GitAuthTypeSSH else GitAuthTypeToken)
      else ga_Type a)"

definition NewAuthStrategy :: "GitRepo \<Rightarrow> AuthStrategy" where
  "NewAuthStrategy g =
     (case gr_Auth g of
        None \<Rightarrow> noAuthStrategy
      | Some a \<Rightarrow>
          (case resolved_auth_type g a of
             GitAuthTypeSSH \<Rightarrow> sshAuthStrategy (gr_URL g)
           | GitAuthTypeBasicAuth \<Rightarrow> httpAuthStrategy GitAuthTypeBasicAuth
           | GitAuthTypeToken \<Rightarrow> httpAuthStrategy GitAuthTypeToken
           | _ \<Rightarrow> noAuthStrategy))"

definition RequiredSecretKeys :: "GitRepo \<Rightarrow> string list" where
  "RequiredSecretKeys g =
     (case gr_Auth g of
        None \<Rightarrow> []
      | Some a \<Rightarrow>
          (case resolved_auth_type g a of
             GitAuthTypeSSH \<Rightarrow> [''ssh-privatekey'']
           | GitAuthTypeBasicAuth \<Rightarrow> [''username'', ''password'']
           | GitAuthTypeToken \<Rightarrow> [''token'']
           | _ \<Rightarrow> []))"

section \<open>script.go\<close>

definition shellQuote :: "string \<Rightarrow> string" where
  "shellQuote s = [SQ] @ ReplaceAll s SQ [SQ, BS, SQ, SQ] @ [SQ]"

definition cloneDest :: string where
  "cloneDest = WorkspaceMountPath @ ''/'' @ RepoSubPath"

definition clone_line :: "GitRepo \<Rightarrow> string" where
  "clone_line g = ''git clone --depth 1 -- '' @ shellQuote (gr_URL g) @ '' '' @ cloneDest @ [NL]"

definition revision_lines :: "GitRepo \<Rightarrow> string" where
  "revision_lines g =
     (if gr_Revision g \<noteq> [] then
        (let rev = shellQuote (gr_Revision g)
         in ''git -C '' @ cloneDest @ '' fetch origin -- '' @ rev @ [NL] @
            ''git -C '' @ cloneDest @ '' checkout '' @ rev @ [NL])
      else [])"

definition path_lines :: "GitRepo \<Rightarrow> string" where
  "path_lines g =
     (if gr_Path g \<noteq> [] then
        (let fullPath = cloneDest @ ''/'' @ gr_Path g
         in ''if [ ! -d '' @ shellQuote fullPath @ '' ]; then'' @ [NL] @
            ''  echo '' @ [DQ] @ ''ERROR: path '' @ shellQuote (gr_Path g) @
              '' not found in repository'' @ [DQ] @ '' >&2'' @ [NL] @
            ''  exit 1'' @ [NL] @
            ''fi'' @ [NL])
      else [])"

definition BuildCloneScript :: "GitRepo \<Rightarrow> AuthStrategy \<Rightarrow> string" where
  "BuildCloneScript g st =
     ''set -euo pipefail'' @ [NL] @ SetupScript st @ clone_line g @ revision_lines g @
     path_lines g @ CleanupScript st"

definition BuildInitContainer :: "GitRepo \<Rightarrow> AuthStrategy \<Rightarrow> Container" where
  "BuildInitContainer g st =
     \<lparr>c_Name = ''git-clone'',
      c_Image = (if gr_Image g \<noteq> [] then gr_Image g else DefaultGitImage),
      c_Command = Some [''/bin/sh'', ''-c''],
      c_Args = Some [BuildCloneScript g st],
      c_Env = None, c_EnvFrom = None, c_Resources = [],
      c_VolumeMounts = Some (mount WorkspaceVolumeName WorkspaceMountPath False # VolumeMounts st),
      c_WorkingDir = [],
      c_SecurityContext = Some \<lparr>sc_RunAsUser = Some 1000, sc_RunAsNonRoot = Some True,
        sc_AllowPrivilegeEscalation = Some False, sc_ReadOnlyRootFilesystem = Some True,
        sc_CapabilitiesDrop = Some [''ALL''], sc_SeccompProfile = None, sc_Other = []\<rparr>\<rparr>"

text \<open>The mode 0400 of the secret volume is octal.\<close>

definition tmpfs_volume :: "VolumeMount \<Rightarrow> Volume list" where
  "tmpfs_volume m =
     (if vm_Name m = SSHTmpVolumeName then [\<lparr>vol_Name = SSHTmpVolumeName, vol_Source = EmptyDirMemory\<rparr>]
      else if vm_Name m = GitConfigTmpVolumeName
        then [\<lparr>vol_Name = GitConfigTmpVolumeName, vol_Source = EmptyDirMemory\<rparr>]
      else [])"

definition BuildVolumes :: "GitRepo \<Rightarrow> AuthStrategy \<Rightarrow> Volume list" where
  "BuildVolumes g st =
     (let volumes = [\<lparr>vol_Name = WorkspaceVolumeName, vol_Source = EmptyDir []\<rparr>]
      in case gr_Auth g of
           None \<Rightarrow> volumes
         | Some a \<Rightarrow>
             volumes @ [\<lparr>vol_Name = SecretVolumeName, vol_Source = SecretVolume (ga_SecretRefName a) 256\<rparr>]
             @ concat (map tmpfs_volume (VolumeMounts st)))"

section \<open>The contract of an authentication strategy\<close>

locale auth_strategy =
  fixes st :: AuthStrategy
  assumes mounts_known: "m \<in> set (VolumeMounts st) \<Longrightarrow>
      vm_Name m \<in> {SecretVolumeName, SSHTmpVolumeName, GitConfigTmpVolumeName}"
    and mounts_distinct: "distinct (map vm_Name (VolumeMounts st))"
    and secret_read_only: "m \<in> set (VolumeMounts st) \<Longrightarrow> vm_Name m = SecretVolumeName \<Longrightarrow> vm_ReadOnly m"
    and setup_ends_line: "SetupScript st = [] \<or> last (SetupScript st) = NL"
    and cleanup_iff_setup: "CleanupScript st = [] \<longleftrightarrow> SetupScript st = []"
begin

text \<open>Names of the tmpfs volumes added for the mounts of the strategy.\<close>

lemma tmpfs_names:
  "map vol_Name (concat (map tmpfs_volume (VolumeMounts st))) =
     filter (\<lambda>n. n \<noteq> SecretVolumeName) (map vm_Name (VolumeMounts st))"
proof -
  have "\<forall>m \<in> set ms. vm_Name m \<in> {SecretVolumeName, SSHTmpVolumeName, GitConfigTmpVolumeName} \<Longrightarrow>
      map vol_Name (concat (map tmpfs_volume ms)) =
      filter (\<lambda>n. n \<noteq> SecretVolumeName) (map vm_Name ms)" for ms
    by (induction ms) (auto simp: tmpfs_volume_def gitops_consts)
  with mounts_known show ?thesis by blast
qed

lemma volumes_distinct: "distinct (map vol_Name (BuildVolumes g st))"
proof -
  have "WorkspaceVolumeName \<notin> set (map vm_Name (VolumeMounts st))"
    using mounts_known by (fastforce simp: gitops_consts)
  moreover have "WorkspaceVolumeName \<noteq> SecretVolumeName" by (simp add: gitops_consts)
  moreover have "map vol_Name (BuildVolumes g st) = WorkspaceVolumeName #
      (case gr_Auth g of None \<Rightarrow> [] | Some a \<Rightarrow> SecretVolumeName #
         filter (\<lambda>n. n \<noteq> SecretVolumeName) (map vm_Name (VolumeMounts st)))"
    unfolding BuildVolumes_def Let_def
    by (simp only: tmpfs_names map_append list.map append.simps Volume.simps split: option.split) simp
  ultimately show ?thesis
    using mounts_distinct by (auto split: option.split)
qed

lemma mounts_backed:
  assumes "gr_Auth g \<noteq> None"
  shows "vm_Name ` set (elems (c_VolumeMounts (BuildInitContainer g st))) \<subseteq>
         vol_Name ` set (BuildVolumes g st)"
proof -
  have "vol_Name ` set (concat (map tmpfs_volume (VolumeMounts st))) =
      vm_Name ` set (VolumeMounts st) - {SecretVolumeName}"
    using arg_cong [OF tmpfs_names, of set] by auto
  with assms show ?thesis
    by (auto simp: BuildInitContainer_def BuildVolumes_def mount_def)
qed

end

interpretation no_auth: auth_strategy noAuthStrategy
  by unfold_locales (auto simp: noAuthStrategy_def)

lemma setup_last_line [simp]:
  "last ssh_SetupScript = NL" "last (http_SetupScript t) = NL"
  "ssh_SetupScript \<noteq> []" "http_SetupScript t \<noteq> []"
  by (simp_all only: ssh_SetupScript_def http_SetupScript_def Let_def split_def last_append
      append_is_Nil_conv list.distinct simp_thms if_False if_True last.simps)

interpretation ssh_auth: auth_strategy "sshAuthStrategy url" for url
  by unfold_locales (auto simp: sshAuthStrategy_def mount_def gitops_consts)

interpretation http_auth: auth_strategy "httpAuthStrategy t" for t
  by unfold_locales (auto simp: httpAuthStrategy_def mount_def gitops_consts)

lemma NewAuthStrategy_contract: "auth_strategy (NewAuthStrategy g)"
  using no_auth.auth_strategy_axioms ssh_auth.auth_strategy_axioms http_auth.auth_strategy_axioms
  by (simp add: NewAuthStrategy_def split: option.split GitAuthType.split)

section \<open>Reading a line of a shell script\<close>

text \<open>
  The fragment of the POSIX shell's token recognition that the generated lines use: words made
  of plain characters, of single-quoted text (everything up to the next single quote is literal)
  and of characters escaped by a backslash.  A character outside that fragment makes the
  reader give up.
\<close>

definition plain_char :: "char \<Rightarrow> bool" where
  "plain_char c \<longleftrightarrow> (let n = of_char c :: nat in
     (97 \<le> n \<and> n \<le> 122) \<or> (48 \<le> n \<and> n \<le> 57) \<or> c = CHR ''-'' \<or> c = CHR ''/'' \<or> c = CHR ''C'')"

fun sh_word :: "string \<Rightarrow> (string \<times> string) option"
  and sh_quoted :: "string \<Rightarrow> (string \<times> string) option" where
  "sh_word [] = Some ([], [])"
| "sh_word (c # cs) =
     (if c = CHR '' '' \<or> c = NL then Some ([], c # cs)
      else if c = SQ then sh_quoted cs
      else if c = BS then
        (case cs of [] \<Rightarrow> None | d # ds \<Rightarrow> map_option (apfst (Cons d)) (sh_word ds))
      else if plain_char c then map_option (apfst (Cons c)) (sh_word cs)
      else None)"
| "sh_quoted [] = None"
| "sh_quoted (c # cs) =
     (if c = SQ then sh_word cs else map_option (apfst (Cons c)) (sh_quoted cs))"

lemma sh_word_length:
  "sh_word s = Some (x, r) \<Longrightarrow> length r \<le> length s"
  "sh_quoted s = Some (x, r) \<Longrightarrow> length r \<le> length s"
proof (induction s and s arbitrary: x r and x r rule: sh_word_sh_quoted.induct)
  case (2 c cs)
  then show ?case by (force split: if_splits list.splits)
next
  case (4 c cs)
  then show ?case by (force split: if_splits)
qed simp_all

lemma sh_word_progress:
  assumes "sh_word (c # cs) = Some (x, r)" "c \<noteq> CHR '' ''" "c \<noteq> NL"
  shows "length r < length (c # cs)"
  using assms by (auto split: if_splits list.splits dest: sh_word_length)

text \<open>The words of the first line, and what follows the line.\<close>

function sh_line :: "string \<Rightarrow> (string list \<times> string) option" where
  "sh_line [] = Some ([], [])"
| "sh_line (c # cs) =
     (if c = CHR '' '' then sh_line cs
      else if c = NL then Some ([], cs)
      else case sh_word (c # cs) of
             None \<Rightarrow> None
           | Some (x, r) \<Rightarrow> map_option (apfst (Cons x)) (sh_line r))"
  by pat_completeness auto
termination
  by (relation "measure length") (auto dest: sh_word_progress simp del: sh_word.simps)

text \<open>Whether a double-quoted text, up to its closing quote, has a command substitution.\<close>

fun dq_substitutes :: "string \<Rightarrow> bool" where
  "dq_substitutes [] = False"
| "dq_substitutes (c # cs) =
     (if c = DQ then False
      else if c = BS then (case cs of [] \<Rightarrow> False | d # ds \<Rightarrow> dq_substitutes ds)
      else c = CHR 0x60 \<or> (c = CHR ''$'' \<and> HasPrefix cs ''('') \<or> dq_substitutes cs)"

lemma sh_quoted_ReplaceAll:
  "sh_quoted (ReplaceAll s SQ [SQ, BS, SQ, SQ] @ [SQ] @ rest) =
     map_option (apfst ((@) s)) (sh_word rest)"
proof (induction s)
  case Nil
  then show ?case by (cases "sh_word rest") (auto simp: apfst_def)
next
  case (Cons c s)
  then show ?case by (cases "sh_word rest") auto
qed

lemma sh_word_shellQuote:
  "rest = [] \<or> hd rest = CHR '' '' \<or> hd rest = NL \<Longrightarrow> sh_word (shellQuote s @ rest) = Some (s, rest)"
  unfolding shellQuote_def using sh_quoted_ReplaceAll [of s rest] by (cases rest) auto

lemma sh_line_shellQuote:
  "sh_line (shellQuote s @ CHR '' '' # rest) = map_option (apfst (Cons s)) (sh_line rest)"
  "sh_line (shellQuote s @ NL # rest) = Some ([s], rest)"
proof -
  have line: "sh_line (shellQuote s @ t) = map_option (apfst (Cons s)) (sh_line t)"
    if "sh_word (shellQuote s @ t) = Some (s, t)" for t
    using that by (simp add: shellQuote_def)
  show "sh_line (shellQuote s @ CHR '' '' # rest) = map_option (apfst (Cons s)) (sh_line rest)"
    by (simp add: line sh_word_shellQuote)
  show "sh_line (shellQuote s @ NL # rest) = Some ([s], rest)"
    by (simp add: line sh_word_shellQuote)
qed

lemma sh_line_dest:
  "sh_line (cloneDest @ NL # rest) = Some ([cloneDest], rest)"
  "sh_line (cloneDest @ CHR '' '' # rest) = map_option (apfst (Cons cloneDest)) (sh_line rest)"
  by (simp_all add: cloneDest_def gitops_consts plain_char_def Let_def)

lemma sh_line_clone:
  "sh_line (clone_line g @ rest) =
     Some ([''git'', ''clone'', ''--depth'', ''1'', ''--'', gr_URL g, cloneDest], rest)"
  by (simp add: clone_line_def plain_char_def Let_def sh_line_shellQuote sh_line_dest)

lemma sh_line_revision:
  assumes "gr_Revision g \<noteq> []"
  shows "sh_line (revision_lines g @ rest) =
      Some ([''git'', ''-C'', cloneDest, ''fetch'', ''origin'', ''--'', gr_Revision g],
        ''git -C '' @ cloneDest @ '' checkout '' @ shellQuote (gr_Revision g) @ [NL] @ rest)"
    and "sh_line (''git -C '' @ cloneDest @ '' checkout '' @ shellQuote (gr_Revision g) @ [NL] @ rest) =
      Some ([''git'', ''-C'', cloneDest, ''checkout'', gr_Revision g], rest)"
  using assms
  by (simp_all add: revision_lines_def plain_char_def Let_def sh_line_shellQuote sh_line_dest)

section \<open>Properties\<close>

text \<open>
  C23. Quoting is safe: whatever bytes a user-supplied value holds (quotes and metacharacters
  included), the shell reads the quoted form back as one word equal to the value, at the end of
  the text, before a blank and before the end of the line.
\<close>

theorem shellQuote_roundtrip:
  "sh_word (shellQuote s) = Some (s, []) \<and>
   sh_word (shellQuote s @ '' '' @ rest) = Some (s, '' '' @ rest) \<and>
   sh_word (shellQuote s @ [NL] @ rest) = Some (s, [NL] @ rest)"
  using sh_word_shellQuote [of "[]" s] by (simp add: sh_word_shellQuote)

text \<open>
  C17. For a repository without a path the clone script runs exactly the Git commands the spec asks
  for.  It is \<open>set -euo pipefail\<close>, the setup of the strategy, the line that reads as the words
  \<open>git clone --depth 1 -- URL /workspace/repo\<close>, with a revision the two lines that read as
  \<open>git -C /workspace/repo fetch origin -- REV\<close> and \<open>git -C /workspace/repo checkout REV\<close>, and the
  cleanup of the strategy.  URL and REV are single words with the bytes of the spec, and the
  strategy is one of four fixed ones, so neither value can add a word, a line or a command.  (A path
  adds lines that do not have this property, see \<open>path_check_substitutes\<close>.)
\<close>

theorem BuildCloneScript_commands:
  assumes "gr_Path g = []"
  shows "\<exists>st s1 s2. st \<in> {noAuthStrategy, sshAuthStrategy [], httpAuthStrategy GitAuthTypeBasicAuth, httpAuthStrategy GitAuthTypeToken} \<and>
     BuildCloneScript g (NewAuthStrategy g) = ''set -euo pipefail'' @ [NL] @ SetupScript st @ s1 \<and>
     sh_line s1 = Some ([''git'', ''clone'', ''--depth'', ''1'', ''--'', gr_URL g, ''/workspace/repo''], s2) \<and>
     (if gr_Revision g = [] then s2 = CleanupScript st
      else \<exists>s3. sh_line s2 = Some ([''git'', ''-C'', ''/workspace/repo'', ''fetch'', ''origin'', ''--'', gr_Revision g], s3) \<and>
           sh_line s3 = Some ([''git'', ''-C'', ''/workspace/repo'', ''checkout'', gr_Revision g], CleanupScript st))"
proof -
  let ?st = "NewAuthStrategy g"
  have "sshAuthStrategy url = sshAuthStrategy []" for url by (simp add: sshAuthStrategy_def)
  then have st: "?st \<in> {noAuthStrategy, sshAuthStrategy [], httpAuthStrategy GitAuthTypeBasicAuth, httpAuthStrategy GitAuthTypeToken}"
    by (auto simp: NewAuthStrategy_def split: option.split GitAuthType.split)
  have dest: "''/workspace/repo'' = cloneDest" by (simp add: cloneDest_def gitops_consts)
  have script: "BuildCloneScript g ?st = ''set -euo pipefail'' @ [NL] @ SetupScript ?st @ clone_line g @ revision_lines g @ CleanupScript ?st"
    using assms by (simp add: BuildCloneScript_def path_lines_def)
  show ?thesis
  proof (intro exI conjI, rule st, rule script)
    show "sh_line (clone_line g @ revision_lines g @ CleanupScript ?st) =
        Some ([''git'', ''clone'', ''--depth'', ''1'', ''--'', gr_URL g, ''/workspace/repo''], revision_lines g @ CleanupScript ?st)"
      unfolding dest by (rule sh_line_clone)
    show "if gr_Revision g = [] then revision_lines g @ CleanupScript ?st = CleanupScript ?st
      else \<exists>s3. sh_line (revision_lines g @ CleanupScript ?st) =
          Some ([''git'', ''-C'', ''/workspace/repo'', ''fetch'', ''origin'', ''--'', gr_Revision g], s3) \<and>
        sh_line s3 = Some ([''git'', ''-C'', ''/workspace/repo'', ''checkout'', gr_Revision g], CleanupScript ?st)"
      unfolding dest using sh_line_revision [of g] by (auto simp: revision_lines_def)
  qed
qed

definition quoted_repo :: GitRepo where
  "quoted_repo = \<lparr>gr_URL = ''https://example.com/a; rm -rf b'', gr_Revision = [], gr_Path = [], gr_Auth = None, gr_Image = []\<rparr>"

theorem BuildCloneScript_commands_witness:
  "\<exists>setup s1 s2. BuildCloneScript quoted_repo (NewAuthStrategy quoted_repo) = setup @ s1 \<and>
     sh_line s1 = Some ([''git'', ''clone'', ''--depth'', ''1'', ''--'', ''https://example.com/a; rm -rf b'', ''/workspace/repo''], s2)"
proof -
  have "gr_Path quoted_repo = []" by (simp add: quoted_repo_def)
  from BuildCloneScript_commands [OF this] obtain st :: AuthStrategy and s1 s2 where
    "BuildCloneScript quoted_repo (NewAuthStrategy quoted_repo) = ''set -euo pipefail'' @ [NL] @ SetupScript st @ s1"
    "sh_line s1 = Some ([''git'', ''clone'', ''--depth'', ''1'', ''--'', gr_URL quoted_repo, ''/workspace/repo''], s2)"
    by blast
  moreover have "gr_URL quoted_repo = ''https://example.com/a; rm -rf b''" by (simp add: quoted_repo_def)
  ultimately show ?thesis
    by (intro exI [of _ "''set -euo pipefail'' @ [NL] @ SetupScript st"] exI [of _ s1] exI [of _ s2]) (simp only: append_assoc simp_thms)
qed

text \<open>
  The check of the path is not safe: the error message puts the quoted path inside a
  double-quoted string, where single quotes do not protect it.  For a path that starts with a
  command substitution, the generated \<open>echo\<close> line carries that substitution into the
  double-quoted text, where the shell runs it.
\<close>

lemma path_check_substitutes:
  "\<exists>pre body. path_lines (g\<lparr>gr_Path := ''$('' @ cmd\<rparr>) = pre @ ''  echo '' @ [DQ] @ body \<and>
     dq_substitutes body"
proof -
  let ?g = "g\<lparr>gr_Path := ''$('' @ cmd\<rparr>"
  let ?body = "''ERROR: path '' @ shellQuote (gr_Path ?g) @ '' not found in repository'' @ [DQ] @
      '' >&2'' @ [NL] @ ''  exit 1'' @ [NL] @ ''fi'' @ [NL]"
  let ?pre = "''if [ ! -d '' @ shellQuote (cloneDest @ ''/'' @ gr_Path ?g) @ '' ]; then'' @ [NL]"
  have "path_lines ?g = ?pre @ ''  echo '' @ [DQ] @ ?body"
    by (simp add: path_lines_def Let_def)
  moreover have "dq_substitutes ?body"
    by (simp add: shellQuote_def)
  ultimately show ?thesis by blast
qed

text \<open>The volumes built for a repository back the mounts of its clone container.\<close>

lemma clone_mounts_backed:
  "vm_Name ` set (elems (c_VolumeMounts (BuildInitContainer g (NewAuthStrategy g)))) \<subseteq>
     vol_Name ` set (BuildVolumes g (NewAuthStrategy g))"
proof (cases "gr_Auth g")
  case None
  then show ?thesis
    by (simp add: BuildInitContainer_def BuildVolumes_def NewAuthStrategy_def noAuthStrategy_def mount_def)
next
  case (Some a)
  then show ?thesis using auth_strategy.mounts_backed [OF NewAuthStrategy_contract] by blast
qed

text \<open>
  The pod is well formed: every volume the clone container mounts is among the volumes built
  for the same repository, no volume name is used twice, and the secret with the credentials is
  mounted read-only.
\<close>

lemma BuildInitContainer_mounts_backed:
  "vm_Name ` set (elems (c_VolumeMounts (BuildInitContainer g (NewAuthStrategy g)))) \<subseteq>
     vol_Name ` set (BuildVolumes g (NewAuthStrategy g)) \<and>
   distinct (map vol_Name (BuildVolumes g (NewAuthStrategy g))) \<and>
   list_all vm_ReadOnly (filter (\<lambda>m. vm_Name m = SecretVolumeName)
     (elems (c_VolumeMounts (BuildInitContainer g (NewAuthStrategy g)))))"
proof -
  note contract = NewAuthStrategy_contract [of g]
  have "list_all vm_ReadOnly (filter (\<lambda>m. vm_Name m = SecretVolumeName)
      (elems (c_VolumeMounts (BuildInitContainer g (NewAuthStrategy g)))))"
    using auth_strategy.secret_read_only [OF contract]
    by (auto simp: BuildInitContainer_def list_all_iff mount_def gitops_consts)
  then show ?thesis using auth_strategy.volumes_distinct [OF contract] clone_mounts_backed by blast
qed

lemma Contains_appendI: "\<exists>b. s = a @ sub @ b \<Longrightarrow> Contains s sub"
  by (auto simp: Contains_iff)

lemma setup_reads_keys:
  "Contains ssh_SetupScript (SecretMountPath @ ''/ssh-privatekey'')"
  "Contains (http_SetupScript GitAuthTypeToken) (SecretMountPath @ ''/token'')"
  "Contains (http_SetupScript GitAuthTypeBasicAuth) (SecretMountPath @ ''/username'')"
  "Contains (http_SetupScript GitAuthTypeBasicAuth) (SecretMountPath @ ''/password'')"
proof -
  show "Contains ssh_SetupScript (SecretMountPath @ ''/ssh-privatekey'')"
    by (rule Contains_appendI [where a = "''mkdir -p '' @ SSHTmpMountPath @ ''/.ssh'' @ [NL] @ ''cp ''"])
       (simp add: ssh_SetupScript_def gitops_consts)
  let ?h = "''git config --global credential.helper '' @ [SQ] @ ''store --file='' @ GitConfigTmpMountPath @
     ''/.git-credentials'' @ [SQ] @ [NL] @ ''printf '' @ [SQ] @ ''https://%s:%s@github.com'' @ [BS] @ ''n'' @ [SQ] @ '' ''"
  show "Contains (http_SetupScript GitAuthTypeToken) (SecretMountPath @ ''/token'')"
    by (rule Contains_appendI [where a = "?h @ [DQ, DQ] @ '' $(cat ''"])
       (simp add: http_SetupScript_def gitops_consts)
  show "Contains (http_SetupScript GitAuthTypeBasicAuth) (SecretMountPath @ ''/username'')"
    by (rule Contains_appendI [where a = "?h @ ''$(cat ''"])
       (simp add: http_SetupScript_def gitops_consts)
  show "Contains (http_SetupScript GitAuthTypeBasicAuth) (SecretMountPath @ ''/password'')"
    by (rule Contains_appendI [where a = "?h @ ''$(cat '' @ SecretMountPath @ ''/username) $(cat ''"])
       (simp add: http_SetupScript_def gitops_consts)
qed

text \<open>
  The factory and the pre-flight validation agree: every key that validation demands of the
  secret is a file the chosen strategy's setup script reads, and validation demands nothing
  exactly when the repository is cloned without credentials.
\<close>

lemma RequiredSecretKeys_match_strategy:
  "list_all (\<lambda>k. Contains (SetupScript (NewAuthStrategy g)) (SecretMountPath @ ''/'' @ k)) (RequiredSecretKeys g) \<and>
   (RequiredSecretKeys g = [] \<longleftrightarrow> NewAuthStrategy g = noAuthStrategy)"
proof (cases "gr_Auth g")
  case None
  then show ?thesis by (simp add: RequiredSecretKeys_def NewAuthStrategy_def)
next
  case (Some a)
  have "sshAuthStrategy u \<noteq> noAuthStrategy" "httpAuthStrategy t \<noteq> noAuthStrategy" for u t
    by (simp_all add: sshAuthStrategy_def httpAuthStrategy_def noAuthStrategy_def)
  with Some setup_reads_keys show ?thesis
    by (simp add: RequiredSecretKeys_def NewAuthStrategy_def sshAuthStrategy_def httpAuthStrategy_def
        split: GitAuthType.split)
qed

end
