(* ===== verification/Crypto.thy ===== *)
theory Crypto
  imports Go_Strings "HOL-Library.Word"
begin

text \<open>
  The standard library's digests, as far as the operator uses them: \<open>crypto/sha256\<close> (FIPS 180-4),
  \<open>crypto/hmac\<close> (FIPS 198-1) with SHA-256, and \<open>encoding/hex\<close>.  A byte is a \<^typ>\<open>char\<close>, as in
  every string of the development; the working variables of the hash are 32-bit words.
\<close>

unbundle bit_operations_syntax

section \<open>encoding/hex\<close>

definition hextable :: "nat \<Rightarrow> char" where
  "hextable n = ''0123456789abcdef'' ! n"

definition EncodeToString :: "string \<Rightarrow> string" where
  "EncodeToString bs = concat (map (\<lambda>b. [hextable (of_char b div 16), hextable (of_char b mod 16)]) bs)"

section \<open>crypto/sha256\<close>

type_synonym u32 = "32 word"

text \<open>
  The round constants and the initial value: the first 32 bits of the fractional parts of the cube
  roots of the first 64 primes and of the square roots of the first eight, in decimal.
\<close>

definition sha_K :: "u32 list" where
  "sha_K = [
    1116352408, 1899447441, 3049323471, 3921009573, 961987163, 1508970993, 2453635748, 2870763221,
    3624381080, 310598401, 607225278, 1426881987, 1925078388, 2162078206, 2614888103, 3248222580,
    3835390401, 4022224774, 264347078, 604807628, 770255983, 1249150122, 1555081692, 1996064986,
    2554220882, 2821834349, 2952996808, 3210313671, 3336571891, 3584528711, 113926993, 338241895,
    666307205, 773529912, 1294757372, 1396182291, 1695183700, 1986661051, 2177026350, 2456956037,
    2730485921, 2820302411, 3259730800, 3345764771, 3516065817, 3600352804, 4094571909, 275423344,
    430227734, 506948616, 659060556, 883997877, 958139571, 1322822218, 1537002063, 1747873779,
    1955562222, 2024104815, 2227730452, 2361852424, 2428436474, 2756734187, 3204031479, 3329325298]"

definition sha_init :: "u32 list" where
  "sha_init = [1779033703, 3144134277, 1013904242, 2773480762, 1359893119, 2600822924, 528734635, 1541459225]"

definition rotr :: "nat \<Rightarrow> u32 \<Rightarrow> u32" where
  "rotr n x = drop_bit n x OR push_bit (32 - n) x"

text \<open>The padding: one bit 1, zeros, and the length in bits as 64 bits, to a multiple of 64 bytes.\<close>

definition be_bytes :: "nat \<Rightarrow> int \<Rightarrow> string" where
  "be_bytes k n = map (\<lambda>i. char_of (drop_bit (8 * i) n)) (rev [0..<k])"

definition sha_pad :: "string \<Rightarrow> string" where
  "sha_pad msg = msg @ CHR 0x80 # replicate ((119 - length msg mod 64) mod 64) CHR 0x00 @ be_bytes 8 (8 * int (length msg))"

fun be_words :: "string \<Rightarrow> u32 list" where
  "be_words (a # b # c # d # bs) =
     (push_bit 24 (of_char a) OR push_bit 16 (of_char b) OR push_bit 8 (of_char c) OR of_char d) # be_words bs"
| "be_words _ = []"

text \<open>The message schedule, kept as the last sixteen words in reverse order.\<close>

definition sha_next :: "u32 list \<Rightarrow> u32" where
  "sha_next ws =
     (let w2 = ws ! 1; w7 = ws ! 6; w15 = ws ! 14; w16 = ws ! 15;
          s0 = rotr 7 w15 XOR rotr 18 w15 XOR drop_bit 3 w15;
          s1 = rotr 17 w2 XOR rotr 19 w2 XOR drop_bit 10 w2
      in w16 + s0 + w7 + s1)"

fun sha_round :: "u32 \<Rightarrow> u32 \<Rightarrow> u32 list \<Rightarrow> u32 list" where
  "sha_round k w [a, b, c, d, e, f, g, h] =
     (let S1 = rotr 6 e XOR rotr 11 e XOR rotr 25 e;
          ch = (e AND f) XOR (NOT e AND g);
          t1 = h + S1 + ch + k + w;
          S0 = rotr 2 a XOR rotr 13 a XOR rotr 22 a;
          maj = (a AND b) XOR (a AND c) XOR (b AND c);
          t2 = S0 + maj
      in [t1 + t2, a, b, c, d + t1, e, f, g])"
| "sha_round k w s = s"

text \<open>The sixty-four rounds; \<open>ws\<close> holds the words of the block still to be used, then the schedule.\<close>

fun sha_rounds :: "u32 list \<Rightarrow> u32 list \<Rightarrow> u32 list \<Rightarrow> u32 list" where
  "sha_rounds [] ws s = s"
| "sha_rounds (k # ks) ws s = sha_rounds ks (tl ws @ [sha_next (rev ws)]) (sha_round k (hd ws) s)"

definition sha_block :: "u32 list \<Rightarrow> u32 list \<Rightarrow> u32 list" where
  "sha_block H ws = map2 (+) H (sha_rounds sha_K ws H)"

function sha_blocks :: "u32 list \<Rightarrow> u32 list \<Rightarrow> u32 list" where
  "sha_blocks H ws = (if length ws < 16 then H else sha_blocks (sha_block H (take 16 ws)) (drop 16 ws))"
  by pat_completeness auto
termination by (relation "measure (\<lambda>(H, ws). length ws)") auto

declare sha_blocks.simps [simp del]

definition word_bytes :: "u32 \<Rightarrow> string" where
  "word_bytes x = be_bytes 4 (uint x)"

definition Sum256 :: "string \<Rightarrow> string" where
  "Sum256 msg = concat (map word_bytes (sha_blocks sha_init (be_words (sha_pad msg))))"

section \<open>crypto/hmac\<close>

definition xor_pad :: "int \<Rightarrow> string \<Rightarrow> string" where
  "xor_pad x key = map (\<lambda>c. char_of (of_char c XOR x)) key"

definition hmac_key :: "string \<Rightarrow> string" where
  "hmac_key key = (let k = (if length key > 64 then Sum256 key else key) in k @ replicate (64 - length k) CHR 0x00)"

definition hmac_sha256 :: "string \<Rightarrow> string \<Rightarrow> string" where
  "hmac_sha256 key msg =
     Sum256 (xor_pad 0x5c (hmac_key key) @ Sum256 (xor_pad 0x36 (hmac_key key) @ msg))"

section \<open>Lemmas\<close>

lemma length_EncodeToString [simp]: "length (EncodeToString bs) = 2 * length bs"
  by (induction bs) (simp_all add: EncodeToString_def)

lemma hextable_inj: "m < 16 \<Longrightarrow> n < 16 \<Longrightarrow> hextable m = hextable n \<Longrightarrow> m = n"
proof -
  have "distinct ''0123456789abcdef''" by simp
  then show "m < 16 \<Longrightarrow> n < 16 \<Longrightarrow> hextable m = hextable n \<Longrightarrow> m = n"
    unfolding hextable_def by (subst (asm) nth_eq_iff_index_eq) simp_all
qed

text \<open>The hexadecimal form determines the bytes.\<close>

lemma EncodeToString_inj: "EncodeToString xs = EncodeToString ys \<longleftrightarrow> xs = ys"
proof (induction xs arbitrary: ys)
  case Nil
  then show ?case by (cases ys) (simp_all add: EncodeToString_def)
next
  case (Cons x xs)
  have byte: "x = y"
    if "hextable (of_char x div 16) = hextable (of_char y div 16)"
      "hextable (of_char x mod 16) = hextable (of_char y mod 16)" for y
  proof -
    have lt: "of_char c div 16 < (16::nat)" for c :: char
      using nat_of_char_less_256 [of c] by (simp add: less_mult_imp_div_less)
    from that have "of_char x div 16 = (of_char y div 16 :: nat)" "of_char x mod 16 = (of_char y mod 16 :: nat)"
      using lt [of x] lt [of y] by (auto intro!: hextable_inj)
    then have "of_char x = (of_char y :: nat)" by (metis div_mult_mod_eq)
    then show ?thesis by (simp add: of_char_eq_iff)
  qed
  show ?case
    using byte Cons by (cases ys) (auto simp: EncodeToString_def)
qed

lemma length_sha_round [simp]: "length (sha_round k w s) = length s"
  by (induction k w s rule: sha_round.induct) (simp_all add: Let_def)

lemma length_sha_rounds [simp]: "length (sha_rounds ks ws s) = length s"
  by (induction ks ws s rule: sha_rounds.induct) simp_all

lemma length_sha_blocks [simp]: "length (sha_blocks H ws) = length H"
proof (induction H ws rule: sha_blocks.induct)
  case (1 H ws)
  then show ?case by (subst sha_blocks.simps) (simp add: sha_block_def)
qed

lemma length_Sum256 [simp]: "length (Sum256 msg) = 32"
  by (simp add: Sum256_def length_concat word_bytes_def be_bytes_def comp_def sum_list_triv sha_init_def)

lemma length_hmac_sha256 [simp]: "length (hmac_sha256 key msg) = 32"
  by (simp add: hmac_sha256_def)

end
