(* ===== verification/Go_Time.thy ===== *)
theory Go_Time
  imports Prelude "HOL-Library.Log_Nat"
begin

text \<open>
  \<open>int64(d.Seconds())\<close> of a \<open>time.Duration\<close>.  \<open>Seconds\<close> works in float64: it divides the
  nanoseconds below a second by 1e9 and adds the whole seconds, each result rounded to the nearest
  double (53 bits, ties to even).  The rounding is written out on rationals, in the range of the
  normal doubles, where all the values here lie.
\<close>

text \<open>The exponent of the binade of a positive number: \<open>2 ^ e \<le> x < 2 ^ (e + 1)\<close>.\<close>

definition binade :: "rat \<Rightarrow> int" where
  "binade x = (if x \<ge> 1 then int (floorlog 2 (nat \<lfloor>x\<rfloor>)) - 1
               else - int (floorlog 2 (nat (\<lceil>1 / x\<rceil> - 1))))"

definition round_even :: "rat \<Rightarrow> int" where
  "round_even x =
     (let f = \<lfloor>x\<rfloor>; r = x - of_int f
      in if r < 1 / 2 then f else if r > 1 / 2 then f + 1 else if even f then f else f + 1)"

definition float64 :: "rat \<Rightarrow> rat" where
  "float64 x =
     (if x \<le> 0 then 0
      else let ulp = 2 powi (binade x - 52) in of_int (round_even (x / ulp)) * ulp)"

text \<open>The sign of a duration is handled symmetrically by the division, the rounding and the conversion.\<close>

definition int64_Seconds :: "duration \<Rightarrow> int" where
  "int64_Seconds d =
     (let m = \<bar>sint d\<bar>; sec = m div 10 ^ 9; nsec = m mod 10 ^ 9
      in sgn (sint d) * \<lfloor>float64 (of_int sec + float64 (of_int nsec / 10 ^ 9))\<rfloor>)"

section \<open>Exactness\<close>

lemma round_even_bounds: "\<bar>of_int (round_even x) - x\<bar> \<le> 1 / 2"
proof -
  have "of_int \<lfloor>x\<rfloor> \<le> x" "x < of_int \<lfloor>x\<rfloor> + 1" by linarith+
  then show ?thesis unfolding round_even_def Let_def by auto
qed

lemma round_even_ge: "of_int n \<le> x \<Longrightarrow> n \<le> round_even x"
  unfolding round_even_def Let_def by (auto simp: le_floor_iff intro: le_floor_iff [THEN iffD2] order_trans)

text \<open>One rounding is off by at most half a unit in the last place.\<close>

lemma float64_error:
  assumes "0 < x" "binade x \<le> e"
  shows "\<bar>float64 x - x\<bar> \<le> 2 powi (e - 53)"
proof -
  let ?u = "2 powi (binade x - 52) :: rat"
  have pos: "0 < ?u" by simp
  have "float64 x - x = (of_int (round_even (x / ?u)) - x / ?u) * ?u"
    using assms(1) by (simp add: float64_def Let_def left_diff_distrib)
  then have "\<bar>float64 x - x\<bar> = \<bar>of_int (round_even (x / ?u)) - x / ?u\<bar> * ?u"
    using pos by (simp add: abs_mult)
  also have "\<dots> \<le> 1 / 2 * ?u"
    using round_even_bounds [of "x / ?u"] pos by (intro mult_right_mono) auto
  also have "\<dots> = 2 powi (binade x - 53)"
    using power_int_add [of "2 :: rat" "binade x - 53" 1] by simp
  also have "\<dots> \<le> 2 powi (e - 53)" using assms(2) by (intro power_int_increasing) auto
  finally show ?thesis .
qed

lemma float64_ge:
  assumes "of_int n \<le> x" "0 < x" "binade x \<le> 52"
  shows "of_int n \<le> float64 x"
proof -
  define k where "k = nat (52 - binade x)"
  let ?u = "2 powi (binade x - 52) :: rat"
  have u: "?u = inverse (2 ^ k)" using assms(3) by (simp add: k_def power_int_def power_one_over inverse_eq_divide)
  have "of_int n * 2 ^ k \<le> x * (2 ^ k :: rat)" using assms(1) by (rule mult_right_mono) simp
  then have "of_int (n * 2 ^ k) \<le> x / ?u" by (simp add: u divide_inverse)
  then have "n * 2 ^ k \<le> round_even (x / ?u)" by (rule round_even_ge)
  then have "(of_int (n * 2 ^ k) :: rat) \<le> of_int (round_even (x / ?u))" by (simp only: of_int_le_iff)
  then have "of_int (n * 2 ^ k) * ?u \<le> of_int (round_even (x / ?u)) * ?u" by (intro mult_right_mono) auto
  moreover have "of_int (n * 2 ^ k) * ?u = of_int n" by (simp add: u)
  ultimately have "of_int n \<le> of_int (round_even (x / ?u)) * ?u" by (simp only:)
  with assms(2) show ?thesis unfolding float64_def Let_def by (simp only: not_le [symmetric] if_False)
qed

lemma binade_less_one: "0 < x \<Longrightarrow> x < 1 \<Longrightarrow> binade x \<le> -1"
proof -
  assume "0 < x" "x < 1"
  then have "1 < 1 / x" by simp
  then have "0 < nat (\<lceil>1 / x\<rceil> - 1)" by (simp add: less_ceiling_iff)
  then have "floorlog 2 (nat (\<lceil>1 / x\<rceil> - 1)) \<noteq> 0" by (simp add: floorlog_eq_zero_iff)
  with \<open>x < 1\<close> show ?thesis by (simp add: binade_def)
qed

lemma binade_less_pow:
  assumes "1 \<le> x" "x < 2 ^ n"
  shows "binade x \<le> int n - 1"
proof -
  have "nat \<lfloor>x\<rfloor> < 2 ^ n"
    using assms by (simp add: nat_less_iff floor_less_iff)
  then have "floorlog 2 (nat \<lfloor>x\<rfloor>) \<le> n" by (intro floorlog_leI) auto
  with assms(1) show ?thesis by (simp add: binade_def)
qed

lemma float64_fraction:
  assumes "0 \<le> n" "n < 10 ^ 9"
  shows "0 \<le> float64 (of_int n / 10 ^ 9)" "float64 (of_int n / 10 ^ 9) \<le> 1 - 1 / 10 ^ 9 + 2 powi (-54)"
proof -
  have "0 \<le> float64 (of_int n / 10 ^ 9) \<and> float64 (of_int n / 10 ^ 9) \<le> 1 - 1 / 10 ^ 9 + 2 powi (-54)"
  proof (cases "n = 0")
    case True
    then show ?thesis by (simp add: float64_def)
  next
    case False
    let ?x = "of_int n / 10 ^ 9 :: rat"
    from False assms have x: "0 < ?x" "?x < 1" by (simp_all add: divide_less_eq)
    from assms(2) have "?x \<le> 1 - 1 / 10 ^ 9" by (simp add: field_simps)
    moreover have b: "binade ?x \<le> -1" using x by (rule binade_less_one)
    then have "\<bar>float64 ?x - ?x\<bar> \<le> 2 powi (-54)" using float64_error [OF x(1), of "-1"] by simp
    then have "float64 ?x \<le> ?x + 2 powi (-54)" by (simp only: abs_diff_le_iff)
    moreover have "of_int 0 \<le> float64 ?x" using x b by (intro float64_ge) auto
    ultimately show ?thesis by linarith
  qed
  then show "0 \<le> float64 (of_int n / 10 ^ 9)" "float64 (of_int n / 10 ^ 9) \<le> 1 - 1 / 10 ^ 9 + 2 powi (-54)"
    by blast+
qed

lemma float64_floor:
  assumes "0 \<le> s" "s < 2 ^ 24" "of_int s \<le> x" "x \<le> of_int s + (1 - 1 / 10 ^ 9 + 2 powi (-54))"
  shows "\<lfloor>float64 x\<rfloor> = s"
proof (cases "x = 0")
  case True
  with assms(1,3) show ?thesis by (simp add: float64_def)
next
  case False
  with assms(1,3) have pos: "0 < x" using order_trans [of 0 "of_int s" x] by simp
  have s: "(of_int s :: rat) \<le> 16777215" using assms(2) by simp
  have small: "(2 :: rat) powi (-54) + 2 powi (23 - 53) < 1 / 10 ^ 9" by (simp add: power_int_def power_one_over)
  have tiny: "0 < (2 :: rat) powi (23 - 53)" by simp
  from assms(4) s small tiny have "x < 16777216" by linarith
  then have "x < 2 ^ 24" by simp
  then have b: "binade x \<le> 23"
    using pos binade_less_one [of x] binade_less_pow [of x 24] by (cases "x < 1") auto
  then have "\<bar>float64 x - x\<bar> \<le> 2 powi (23 - 53)" using pos by (rule float64_error [rotated])
  then have "float64 x \<le> of_int s + (1 - 1 / 10 ^ 9 + 2 powi (-54)) + 2 powi (23 - 53)" using assms(4) by linarith
  with small have "float64 x < of_int s + 1" by linarith
  moreover have "of_int s \<le> float64 x" using assms(3) pos b by (intro float64_ge) auto
  ultimately show ?thesis by (simp add: floor_eq_iff)
qed

text \<open>Below 2^24 seconds (194 days) the conversion is the truncation of the exact value.\<close>

lemma int64_Seconds_exact:
  assumes "0 \<le> sint d" "sint d < 2 ^ 24 * 10 ^ 9"
  shows "int64_Seconds d = sint d div 10 ^ 9"
proof -
  define s n where "s = sint d div 10 ^ 9" and "n = sint d mod 10 ^ 9"
  have n: "0 \<le> n" "n < 10 ^ 9" by (simp_all add: n_def)
  have "0 \<le> s" using assms(1) by (simp add: s_def pos_imp_zdiv_nonneg_iff)
  moreover have "s < 2 ^ 24" using assms(2) by (simp add: s_def)
  ultimately have "\<lfloor>float64 (of_int s + float64 (of_int n / 10 ^ 9))\<rfloor> = s"
    using float64_fraction [OF n] by (intro float64_floor) auto
  moreover have "sint d = 0 \<Longrightarrow> s = 0" by (simp add: s_def)
  ultimately show ?thesis
    using assms(1) by (auto simp: int64_Seconds_def Let_def s_def n_def sgn_if)
qed

end
