(* ===== verification/Runner_Controller.thy ===== *)
theory Runner_Controller
  imports Conditions Gitops Crypto Go_Time
begin

text \<open>
  The Runner controller of \<open>internal/controller/runner_controller.go\<close>: the batch Job built for a
  Runner, the validation of its Git secret, the detection of spec drift by a hash, and the status
  derived from the Job.  As in the Workflow controller, a handler returns its result and the log
  of its requests.
\<close>

section \<open>Helpers\<close>

text \<open>\<open>json.Marshal\<close> on the spec is a field of the environment.\<close>

definition computeSpecHash :: "env \<Rightarrow> RunnerSpec \<Rightarrow> apierr + string" where
  "computeSpecHash e spec =
     (case e_MarshalSpec e spec of
        Inl err \<Rightarrow> Inl err
      | Inr data \<Rightarrow> Inr (EncodeToString (take 8 (Sum256 data))))"

fun metav1TimePtrEqual :: "time option \<Rightarrow> time option \<Rightarrow> bool" where
  "metav1TimePtrEqual None None = True"
| "metav1TimePtrEqual (Some a) (Some b) = (a = b)"
| "metav1TimePtrEqual _ _ = False"

definition isNonTerminalPhase :: "RunnerPhase \<Rightarrow> bool" where
  "isNonTerminalPhase phase \<longleftrightarrow> phase = RunnerPhasePending \<or> phase = RunnerPhaseRunning"

section \<open>Validation of the Git secret\<close>

text \<open>The functions return the text of their error; the callers use nothing else of it.\<close>

definition checkSecretHasKeys :: "Secret \<Rightarrow> string \<Rightarrow> string list \<Rightarrow> string option" where
  "checkSecretHasKeys secret name requiredKeys =
     (case find (\<lambda>key. map_of (sec_Data secret) key = None \<and> map_of (sec_StringData secret) key = None) requiredKeys of
        None \<Rightarrow> None
      | Some key \<Rightarrow> Some (''git auth secret '' @ quote name @ '' missing required key '' @ quote key))"

definition validateGitRepoSecret :: "env \<Rightarrow> Runner \<Rightarrow> world \<Rightarrow> string option" where
  "validateGitRepoSecret e r w =
     (case rs_GitRepo (rn_Spec r) of
        None \<Rightarrow> None
      | Some g \<Rightarrow>
          (case gr_Auth g of
             None \<Rightarrow> None
           | Some a \<Rightarrow>
               let secretName = ga_SecretRefName a
               in if secretName = [] then None
                  else case e_GetSecret e w \<lparr>nn_Namespace = rn_Namespace r, nn_Name = secretName\<rparr> of
                    Inl (NotFound _) \<Rightarrow> None
                  | Inl err \<Rightarrow> Some (''failed to check git auth secret '' @ quote secretName @ '': '' @ err_text err)
                  | Inr secret \<Rightarrow> checkSecretHasKeys secret secretName (RequiredSecretKeys g)))"

section \<open>The Job of a Runner\<close>

definition runnerSecurityContext :: "Runner \<Rightarrow> PodSecurityContext" where
  "runnerSecurityContext r =
     (let sc = \<lparr>psc_RunAsNonRoot = True, psc_RunAsUser = 1000, psc_SeccompProfile = ''RuntimeDefault''\<rparr>
      in case rs_SecurityContext (rn_Spec r) of
           None \<Rightarrow> sc
         | Some own \<Rightarrow>
             let sc = (if sc_RunAsUser own = Some 0 then sc\<lparr>psc_RunAsNonRoot := False, psc_RunAsUser := 0\<rparr> else sc)
             in (case sc_RunAsNonRoot own of None \<Rightarrow> sc | Some b \<Rightarrow> sc\<lparr>psc_RunAsNonRoot := b\<rparr>))"

definition containerSecurityContext :: "Runner \<Rightarrow> SecurityContext" where
  "containerSecurityContext r =
     (case rs_SecurityContext (rn_Spec r) of
        Some sc \<Rightarrow> sc
      | None \<Rightarrow> \<lparr>sc_RunAsUser = None, sc_RunAsNonRoot = None, sc_AllowPrivilegeEscalation = Some False,
          sc_ReadOnlyRootFilesystem = None, sc_CapabilitiesDrop = Some [''ALL''],
          sc_SeccompProfile = Some ''RuntimeDefault'', sc_Other = []\<rparr>)"

definition jobLabels :: "Runner \<Rightarrow> string \<Rightarrow> (string, string) gomap" where
  "jobLabels r specHash =
     [(''app.kubernetes.io/name'', ''runner-operator''), (''runner-operator.io/runner'', rn_Name r),
      (''runner-operator.io/spec-hash'', specHash)]"

text \<open>The container that runs the Runner's image; a repository adds its mount and working directory.\<close>

definition runnerContainer :: "Runner \<Rightarrow> Container" where
  "runnerContainer r =
     (let spec = rn_Spec r;
          c = \<lparr>c_Name = ''runner'', c_Image = rs_Image spec, c_Command = rs_Command spec, c_Args = rs_Args spec,
            c_Env = rs_Env spec, c_EnvFrom = rs_EnvFrom spec, c_Resources = rs_Resources spec,
            c_VolumeMounts = rs_Mounts spec, c_WorkingDir = [],
            c_SecurityContext = Some (containerSecurityContext r)\<rparr>
      in case rs_GitRepo spec of
           None \<Rightarrow> c
         | Some g \<Rightarrow>
             c\<lparr>c_VolumeMounts := sappend (c_VolumeMounts c) [mount WorkspaceVolumeName WorkspaceMountPath False],
               c_WorkingDir := WorkspaceMountPath @ ''/'' @ RepoSubPath @
                 (if gr_Path g \<noteq> [] then ''/'' @ gr_Path g else [])\<rparr>)"

definition buildJob :: "Runner \<Rightarrow> string \<Rightarrow> string \<Rightarrow> BatchJob" where
  "buildJob r jobName specHash =
     (let spec = rn_Spec r;
          (volumes, initContainers) =
            (case rs_GitRepo spec of
               None \<Rightarrow> (rs_Volumes spec, [])
             | Some g \<Rightarrow>
                 let strategy = NewAuthStrategy g
                 in (sappend (rs_Volumes spec) (BuildVolumes g strategy), [BuildInitContainer g strategy]))
      in \<lparr>bj_Meta = zero_ObjectMeta\<lparr>om_Name := jobName, om_Namespace := rn_Namespace r, om_Labels := jobLabels r specHash\<rparr>,
          bj_BackoffLimit = 0,
          bj_ActiveDeadlineSeconds = map_option int64_Seconds (rs_TimeoutAfter spec),
          bj_TemplateLabels = jobLabels r specHash,
          bj_PodSpec = \<lparr>pod_RestartPolicy = ''Never'', pod_InitContainers = initContainers,
            pod_Containers = [runnerContainer r], pod_Volumes = volumes,
            pod_SecurityContext = runnerSecurityContext r,
            pod_ServiceAccountName = rs_ServiceAccountName spec\<rparr>,
          bj_StartTime = None, bj_CompletionTime = None, bj_Conditions = []\<rparr>)"

section \<open>No Job yet\<close>

definition activeGauge :: "Runner \<Rightarrow> RunnerPhase \<Rightarrow> string list" where
  "activeGauge r phase = [rn_Namespace r, RunnerPhase_text phase]"

text \<open>The validation failed: the Runner is left Pending and no Job is created.\<close>

definition rejectRunner :: "env \<Rightarrow> string \<Rightarrow> string \<Rightarrow> Runner \<Rightarrow> world \<Rightarrow> Result \<times> world" where
  "rejectRunner e specHash msg r w =
     (let (r, w) = setRunnerCondition e ConditionFalse ReasonRunnerValidationFailed msg r w;
          patchBase = r;
          r = rn_setStatus (\<lambda>s. s\<lparr>rst_Phase := RunnerPhasePending, rst_ResourceHash := specHash,
                rst_ObservedGeneration := om_Generation (rn_Meta r)\<rparr>) r;
          (res, w) = do_PatchRunner e patchBase r w
      in case res of
           Inl err \<Rightarrow> (Error err, w)
         | Inr r \<Rightarrow> (Done, emit (Event ''Warning'' ''ValidationFailed'' msg) w))"

definition startRunner :: "env \<Rightarrow> string \<Rightarrow> string \<Rightarrow> Runner \<Rightarrow> world \<Rightarrow> Result \<times> world" where
  "startRunner e specHash jobName r w =
     (let patchBase = r;
          r = rn_setStatus (\<lambda>s. s\<lparr>rst_DesiredSpecHash := [], rst_Phase := RunnerPhasePending,
                rst_ResourceHash := specHash, rst_ObservedGeneration := om_Generation (rn_Meta r)\<rparr>) r;
          (res, w) = do_PatchRunner e patchBase r w
      in case res of
           Inl err \<Rightarrow> (Error err, w)
         | Inr r \<Rightarrow>
             let w = emit (GaugeInc ''runner_active_count'' [rn_Namespace r, ''Pending'']) w;
                 job = buildJob r jobName specHash
             in case e_SetControllerReference e (rn_Meta r) (bj_Meta job) of
                  Inl err \<Rightarrow> (Error err, w)
                | Inr meta \<Rightarrow>
                    let (err, w) = do_Create e (OJob (job\<lparr>bj_Meta := meta\<rparr>)) w
                    in case err of
                         None \<Rightarrow> (Done, emit (Event ''Normal'' ''JobCreated'' ''Job created for Runner'') w)
                       | Some (AlreadyExists _) \<Rightarrow> (Done, w)
                       | Some err \<Rightarrow> (Error err, w))"

section \<open>Spec drift\<close>

text \<open>\<open>if err := r.Status().Patch(ctx, runner, patchBase); err != nil { return ..., err }\<close>, then the rest.\<close>

definition patchRunner :: "env \<Rightarrow> Runner \<Rightarrow> Runner \<Rightarrow> world \<Rightarrow> Result \<times> world" where
  "patchRunner e patchBase r w =
     (let (res, w) = do_PatchRunner e patchBase r w
      in (case res of Inl err \<Rightarrow> Error err | Inr _ \<Rightarrow> Done, w))"

definition jobRunning :: "BatchJob \<Rightarrow> bool" where
  "jobRunning job \<longleftrightarrow> bj_StartTime job \<noteq> None \<and> bj_CompletionTime job = None"

definition deferDrift :: "env \<Rightarrow> string \<Rightarrow> Runner \<Rightarrow> world \<Rightarrow> Result \<times> world" where
  "deferDrift e specHash r w =
     (let r = (if rst_ResourceHash (rn_Status r) \<noteq> specHash
               then rn_setStatus (rst_DesiredSpecHash_update (\<lambda>_. specHash)) r else r);
          patchBase = r;
          (r, w) = setRunnerCondition e ConditionFalse ReasonRunnerSpecDriftDeferred
                     ''Spec drift deferred until Job completes'' r w
      in patchRunner e patchBase r w)"

definition clearDrift :: "env \<Rightarrow> Runner \<Rightarrow> world \<Rightarrow> Result \<times> world" where
  "clearDrift e r w =
     (let r = rn_setStatus (rst_DesiredSpecHash_update (\<lambda>_. [])) r;
          patchBase = r
      in patchRunner e patchBase r w)"

definition replaceJob :: "env \<Rightarrow> string \<Rightarrow> BatchJob \<Rightarrow> Runner \<Rightarrow> world \<Rightarrow> Result \<times> world" where
  "replaceJob e specHash existingJob r w =
     (let w = emit (Event ''Normal'' ''SpecDrift'' ''Spec changed, recreating Job'') w;
          patchBase = r;
          r = rn_setStatus (\<lambda>s. s\<lparr>rst_DesiredSpecHash := [], rst_ResourceHash := specHash\<rparr>) r;
          (r, w) = setRunnerCondition e ConditionFalse ReasonRunnerSpecDriftReplaced ''Spec changed, recreating Job'' r w;
          (res, w) = do_PatchRunner e patchBase r w
      in case res of
           Inl err \<Rightarrow> (Error err, w)
         | Inr _ \<Rightarrow>
             let (err, w) = do_Delete e (OJob existingJob) w
             in (case err of None \<Rightarrow> Done | Some err \<Rightarrow> Error err, w))"

text \<open>
  The condition a failed validation sets here is never written: the function returns without a
  patch, and the Runner it changed is its own copy.
\<close>

definition handleDrift :: "env \<Rightarrow> string \<Rightarrow> BatchJob \<Rightarrow> Runner \<Rightarrow> world \<Rightarrow> Result \<times> world" where
  "handleDrift e specHash existingJob r w =
     (if jobRunning existingJob then deferDrift e specHash r w
      else if rst_ResourceHash (rn_Status r) = specHash then clearDrift e r w
      else case validateGitRepoSecret e r w of
        Some msg \<Rightarrow>
          let (r, w) = setRunnerCondition e ConditionFalse ReasonRunnerValidationFailed msg r w
          in (Done, emit (Event ''Warning'' ''ValidationFailed'' msg) w)
      | None \<Rightarrow> replaceJob e specHash existingJob r w)"

section \<open>updateStatusFromJob\<close>

text \<open>The loop over the conditions of the Job.\<close>

definition scanConditions :: "BatchJob \<Rightarrow> RunnerPhase \<times> time option" where
  "scanConditions job =
     foldl (\<lambda>(phase, completionTime) cond.
       case jc_Type cond of
         JobComplete \<Rightarrow> if jc_Status cond = ConditionTrue then (RunnerPhaseSucceeded, bj_CompletionTime job)
                        else (phase, completionTime)
       | JobFailed \<Rightarrow> if jc_Status cond = ConditionTrue then (RunnerPhaseFailed, bj_CompletionTime job)
                      else (phase, completionTime)
       | _ \<Rightarrow> (phase, completionTime)) (RunnerPhaseUnknown, None) (bj_Conditions job)"

definition observeJob :: "BatchJob \<Rightarrow> RunnerPhase \<times> time option \<times> time option" where
  "observeJob job =
     (let (phase, completionTime) = scanConditions job
      in if phase = RunnerPhaseUnknown
         then (if bj_StartTime job \<noteq> None then (RunnerPhaseRunning, bj_StartTime job, completionTime)
               else (RunnerPhasePending, None, completionTime))
         else (phase, None, completionTime))"

definition upToDate :: "RunnerPhase \<Rightarrow> time option \<Rightarrow> time option \<Rightarrow> Runner \<Rightarrow> bool" where
  "upToDate phase startTime completionTime r \<longleftrightarrow>
     rn_Phase r = phase \<and> rst_ObservedGeneration (rn_Status r) = om_Generation (rn_Meta r) \<and>
     metav1TimePtrEqual (rst_StartTime (rn_Status r)) startTime \<and>
     metav1TimePtrEqual (rst_CompletionTime (rn_Status r)) completionTime"

text \<open>The gauge of active Runners on a change of phase.\<close>

definition moveGauge :: "Runner \<Rightarrow> RunnerPhase \<Rightarrow> RunnerPhase \<Rightarrow> world \<Rightarrow> world" where
  "moveGauge r oldPhase phase w =
     (if oldPhase = phase then w
      else
        let w = (if isNonTerminalPhase oldPhase then emit (GaugeDec ''runner_active_count'' (activeGauge r oldPhase)) w else w)
        in if isNonTerminalPhase phase then emit (GaugeInc ''runner_active_count'' (activeGauge r phase)) w else w)"

definition observeDuration :: "Runner \<Rightarrow> world \<Rightarrow> world" where
  "observeDuration r w =
     (case (rst_StartTime (rn_Status r), rst_CompletionTime (rn_Status r)) of
        (Some start, Some completion) \<Rightarrow>
          if sint (time_Sub completion start) \<ge> 0
          then emit (Observe ''runner_duration_seconds'' [rn_Namespace r] (time_Sub completion start)) w else w
      | _ \<Rightarrow> w)"

definition reportPhase :: "env \<Rightarrow> RunnerPhase \<Rightarrow> Runner \<Rightarrow> world \<Rightarrow> Runner \<times> world" where
  "reportPhase e phase r w =
     (case phase of
        RunnerPhaseSucceeded \<Rightarrow>
          let (r, w) = setRunnerCondition e ConditionTrue ReasonRunnerSucceeded ''Runner completed successfully'' r w;
              w = emit (CounterInc ''runner_job_completed_total'' [rn_Namespace r, ''succeeded'']) w
          in (r, observeDuration r w)
      | RunnerPhaseFailed \<Rightarrow>
          let (r, w) = setRunnerCondition e ConditionFalse ReasonRunnerFailed ''Runner failed'' r w;
              w = emit (CounterInc ''runner_job_completed_total'' [rn_Namespace r, ''failed'']) w
          in (r, observeDuration r w)
      | RunnerPhaseRunning \<Rightarrow> setRunnerCondition e ConditionFalse ReasonRunnerRunning ''Runner is running'' r w
      | RunnerPhaseUnknown \<Rightarrow> (r, emit (CounterInc ''runner_job_completed_total'' [rn_Namespace r, ''unknown'']) w)
      | _ \<Rightarrow> (r, w))"

definition updateStatusFromJob :: "env \<Rightarrow> Runner \<Rightarrow> BatchJob \<Rightarrow> world \<Rightarrow> Result \<times> world" where
  "updateStatusFromJob e r job w =
     (let (phase, startTime, completionTime) = observeJob job
      in if upToDate phase startTime completionTime r then (Done, w)
         else
           let patchBase = r;
               oldPhase = rn_Phase r;
               w = (if oldPhase \<noteq> phase
                    then emit (Event ''Normal'' ''PhaseChanged'' (''Runner phase changed to '' @ RunnerPhase_text phase)) w
                    else w);
               r = rn_setStatus (\<lambda>s. s\<lparr>rst_Phase := phase, rst_ObservedGeneration := om_Generation (rn_Meta r),
                     rst_StartTime := (if startTime \<noteq> None then startTime else rst_StartTime s),
                     rst_CompletionTime := (if completionTime \<noteq> None then completionTime else rst_CompletionTime s)\<rparr>) r;
               w = moveGauge r oldPhase phase w;
               (r, w) = reportPhase e phase r w
           in patchRunner e patchBase r w)"

section \<open>Reconcile\<close>

definition Reconcile_Runner :: "env \<Rightarrow> NamespacedName \<Rightarrow> world \<Rightarrow> Result \<times> world" where
  "Reconcile_Runner e req w =
     (case e_GetRunner e w req of
        Inl err \<Rightarrow> (IgnoreNotFound err, w)
      | Inr r \<Rightarrow>
          if om_DeletionTimestamp (rn_Meta r) \<noteq> None
          then (Done, if isNonTerminalPhase (rn_Phase r)
                      then emit (GaugeDec ''runner_active_count'' (activeGauge r (rn_Phase r))) w else w)
          else case computeSpecHash e (rn_Spec r) of
            Inl err \<Rightarrow> (Error err, w)
          | Inr specHash \<Rightarrow>
              let jobName = rn_Name r @ ''-job''
              in case e_GetJob e w \<lparr>nn_Namespace = rn_Namespace r, nn_Name = jobName\<rparr> of
                   Inl (NotFound _) \<Rightarrow>
                     (case validateGitRepoSecret e r w of
                        Some msg \<Rightarrow> rejectRunner e specHash msg r w
                      | None \<Rightarrow> startRunner e specHash jobName r w)
                 | Inl err \<Rightarrow> (Error err, w)
                 | Inr existingJob \<Rightarrow>
                     if rst_ResourceHash (rn_Status r) \<noteq> specHash \<or> rst_DesiredSpecHash (rn_Status r) \<noteq> []
                     then handleDrift e specHash existingJob r w
                     else updateStatusFromJob e r existingJob w)"

end
