(* ===== verification/Runner_Properties.thy ===== *)
theory Runner_Properties
  imports Runner_Controller
begin

text \<open>
  What the Runner controller does: when a Job is created and deleted, that its pod is well formed
  and hardened, that the status follows the Job, and what happens to the status changes made
  before the copy a patch is computed from.
\<close>

section \<open>The writes of a log\<close>

text \<open>The status patches of Runners in a log, as pairs of the base and the object sent.\<close>

definition runner_patches :: "effect list \<Rightarrow> (Runner \<times> Runner) list" where
  "runner_patches l = concat (map (\<lambda>x. case x of PatchStatus (ORunner b) (ORunner r) \<Rightarrow> [(b, r)] | _ \<Rightarrow> []) l)"

lemma runner_patches_simps [simp]:
  "runner_patches [] = []" "runner_patches (a @ b) = runner_patches a @ runner_patches b"
  "runner_patches (x # l) = (case x of PatchStatus (ORunner b) (ORunner r) \<Rightarrow> [(b, r)] | _ \<Rightarrow> []) @ runner_patches l"
  by (simp_all add: runner_patches_def)

text \<open>
  The documented contract of a patch of the status subresource: it is accepted, and the answer has
  the metadata and the spec of the object.
\<close>

definition patches_status :: "env \<Rightarrow> bool" where
  "patches_status e \<longleftrightarrow> (\<forall>w b r. \<exists>st. e_PatchRunner e w b r = Inr (r\<lparr>rn_Status := st\<rparr>))"

lemma patches_statusD:
  "patches_status e \<Longrightarrow> \<exists>r'. e_PatchRunner e w b r = Inr r' \<and> rn_Meta r' = rn_Meta r \<and> rn_Spec r' = rn_Spec r"
  by (metis Runner.select_convs(1,2) Runner.surjective Runner.update_convs(3) patches_status_def)

section \<open>When a Job is created or deleted\<close>

lemma metrics_silent [simp]:
  "created_jobs (w_log (moveGauge r a b w)) = created_jobs (w_log w)" "deleted (w_log (moveGauge r a b w)) = deleted (w_log w)"
  "created_jobs (w_log (observeDuration r w)) = created_jobs (w_log w)" "deleted (w_log (observeDuration r w)) = deleted (w_log w)"
  "runner_patches (w_log (moveGauge r a b w)) = runner_patches (w_log w)"
  "runner_patches (w_log (observeDuration r w)) = runner_patches (w_log w)"
  by (simp_all add: moveGauge_def observeDuration_def Let_def split: option.split)

lemma reportPhase_silent [simp]:
  "created_jobs (w_log (snd (reportPhase e p r w))) = created_jobs (w_log w)"
  "deleted (w_log (snd (reportPhase e p r w))) = deleted (w_log w)"
  "runner_patches (w_log (snd (reportPhase e p r w))) = runner_patches (w_log w)"
  by (simp_all add: reportPhase_def Let_def split_beta split: RunnerPhase.split)

lemma patchRunner_log [simp, log_simps]:
  "w_log (snd (patchRunner e b r w)) = w_log w @ [PatchStatus (ORunner b) (ORunner r)]"
  by (simp add: patchRunner_def do_request_defs Let_def)

lemma updateStatusFromJob_silent:
  "created_jobs (w_log (snd (updateStatusFromJob e r job w))) = created_jobs (w_log w)"
  "deleted (w_log (snd (updateStatusFromJob e r job w))) = deleted (w_log w)"
  by (simp_all add: updateStatusFromJob_def Let_def split_beta)

lemma deferDrift_silent:
  "created_jobs (w_log (snd (deferDrift e h r w))) = created_jobs (w_log w)"
  "deleted (w_log (snd (deferDrift e h r w))) = deleted (w_log w)"
  "created_jobs (w_log (snd (clearDrift e r w))) = created_jobs (w_log w)"
  "deleted (w_log (snd (clearDrift e r w))) = deleted (w_log w)"
  by (simp_all add: deferDrift_def clearDrift_def Let_def split_beta)

lemma rejectRunner_silent:
  "created_jobs (w_log (snd (rejectRunner e h msg r w))) = created_jobs (w_log w)"
  "deleted (w_log (snd (rejectRunner e h msg r w))) = deleted (w_log w)"
  by (simp_all add: rejectRunner_def do_request_defs Let_def split_beta split: sum.split)

lemma replaceJob_requests:
  assumes "patches_status e"
  shows "created_jobs (w_log (snd (replaceJob e h job r w))) = created_jobs (w_log w)"
    "deleted (w_log (snd (replaceJob e h job r w))) = deleted (w_log w) @ [OJob job]"
  using patches_statusD [OF assms]
  by (auto simp: replaceJob_def do_request_defs Let_def split_beta split: sum.split dest: spec)
     (metis sum.distinct(1))+

lemma buildJob_cong:
  "rn_Meta r = rn_Meta r' \<Longrightarrow> rn_Spec r = rn_Spec r' \<Longrightarrow> buildJob r n h = buildJob r' n h"
  by (simp add: buildJob_def runnerContainer_def runnerSecurityContext_def containerSecurityContext_def jobLabels_def)

lemma buildJob_meta:
  "bj_Meta (buildJob r n h) = zero_ObjectMeta\<lparr>om_Name := n, om_Namespace := rn_Namespace r, om_Labels := jobLabels r h\<rparr>"
  by (simp add: buildJob_def Let_def split_beta)

lemma startRunner_requests:
  assumes "patches_status e" "sets_owner (e_SetControllerReference e)" "can_own (e_SetControllerReference e)"
  shows "deleted (w_log (snd (startRunner e h n r w))) = deleted (w_log w)"
    "\<exists>meta. created_jobs (w_log (snd (startRunner e h n r w))) = created_jobs (w_log w) @ [(buildJob r n h)\<lparr>bj_Meta := meta\<rparr>] \<and>
       om_Name meta = n \<and> om_Namespace meta = rn_Namespace r \<and> om_Labels meta = jobLabels r h"
proof -
  let ?r = "rn_setStatus (\<lambda>s. s\<lparr>rst_DesiredSpecHash := [], rst_Phase := RunnerPhasePending,
      rst_ResourceHash := h, rst_ObservedGeneration := om_Generation (rn_Meta r)\<rparr>) r"
  obtain r' where r': "e_PatchRunner e w r ?r = Inr r'" "rn_Meta r' = rn_Meta r" "rn_Spec r' = rn_Spec r"
    using patches_statusD [OF assms(1), of w r ?r] by auto
  obtain meta where meta: "e_SetControllerReference e (rn_Meta r) (bj_Meta (buildJob r n h)) = Inr meta"
    by (rule can_ownD [OF assms(3), of "bj_Meta (buildJob r n h)" "rn_Meta r"]) (auto simp: buildJob_meta zero_ObjectMeta_def)
  have job: "buildJob r' n h = buildJob r n h" using r' by (intro buildJob_cong) auto
  have fields: "om_Name meta = n" "om_Namespace meta = rn_Namespace r" "om_Labels meta = jobLabels r h"
    using sets_ownerD [OF assms(2) meta] by (simp_all add: buildJob_def Let_def split: option.split)
  show "deleted (w_log (snd (startRunner e h n r w))) = deleted (w_log w)"
    using r' meta job
    by (auto simp: startRunner_def do_request_defs Let_def split: option.split apierr.split)
  have "created_jobs (w_log (snd (startRunner e h n r w))) = created_jobs (w_log w) @ [(buildJob r n h)\<lparr>bj_Meta := meta\<rparr>]"
    using r' meta job
    by (auto simp: startRunner_def do_request_defs Let_def split: option.split apierr.split)
  with fields show "\<exists>meta. created_jobs (w_log (snd (startRunner e h n r w))) = created_jobs (w_log w) @ [(buildJob r n h)\<lparr>bj_Meta := meta\<rparr>] \<and>
       om_Name meta = n \<and> om_Namespace meta = rn_Namespace r \<and> om_Labels meta = jobLabels r h"
    by blast
qed

text \<open>The cases of \<open>Reconcile\<close> for a Runner that is not being deleted.\<close>

lemma Reconcile_Runner_cases:
  assumes "e_GetRunner e w req = Inr r" "om_DeletionTimestamp (rn_Meta r) = None" "computeSpecHash e (rn_Spec r) = Inr h"
  shows "Reconcile_Runner e req w =
    (case e_GetJob e w \<lparr>nn_Namespace = rn_Namespace r, nn_Name = rn_Name r @ ''-job''\<rparr> of
       Inl (NotFound _) \<Rightarrow>
         (case validateGitRepoSecret e r w of
            Some msg \<Rightarrow> rejectRunner e h msg r w
          | None \<Rightarrow> startRunner e h (rn_Name r @ ''-job'') r w)
     | Inl err \<Rightarrow> (Error err, w)
     | Inr job \<Rightarrow>
         if rst_ResourceHash (rn_Status r) \<noteq> h \<or> rst_DesiredSpecHash (rn_Status r) \<noteq> []
         then handleDrift e h job r w else updateStatusFromJob e r job w)"
  using assms by (simp add: Reconcile_Runner_def Let_def)

text \<open>
  The Git secret of a Runner can be used: there is none to check, or it is not stored as a
  Kubernetes Secret, or it can be read and holds every key the authentication needs.
\<close>

definition git_secret_usable :: "env \<Rightarrow> Runner \<Rightarrow> world \<Rightarrow> bool" where
  "git_secret_usable e r w \<longleftrightarrow>
     (\<forall>g a. rs_GitRepo (rn_Spec r) = Some g \<and> gr_Auth g = Some a \<and> ga_SecretRefName a \<noteq> [] \<longrightarrow>
        (case e_GetSecret e w \<lparr>nn_Namespace = rn_Namespace r, nn_Name = ga_SecretRefName a\<rparr> of
           Inl (NotFound _) \<Rightarrow> True
         | Inl _ \<Rightarrow> False
         | Inr s \<Rightarrow> set (RequiredSecretKeys g) \<subseteq> dom (map_of (sec_Data s)) \<union> dom (map_of (sec_StringData s))))"

lemma validateGitRepoSecret_iff: "validateGitRepoSecret e r w = None \<longleftrightarrow> git_secret_usable e r w"
proof -
  have keys: "checkSecretHasKeys s n ks = None \<longleftrightarrow> set ks \<subseteq> dom (map_of (sec_Data s)) \<union> dom (map_of (sec_StringData s))" for s n ks
    by (induction ks) (auto simp: checkSecretHasKeys_def split: option.splits if_splits)
  show ?thesis
    by (auto simp: validateGitRepoSecret_def git_secret_usable_def keys Let_def split: option.splits sum.splits apierr.splits)
qed

text \<open>The Job carries a Failed condition that is true.\<close>

definition job_failed :: "BatchJob \<Rightarrow> bool" where
  "job_failed j \<longleftrightarrow> (\<exists>c \<in> set (bj_Conditions j). jc_Type c = JobFailed \<and> jc_Status c = ConditionTrue)"


definition demo_runner :: Runner where
  "demo_runner = \<lparr>rn_Meta = zero_ObjectMeta\<lparr>om_Name := ''lint'', om_Namespace := ''ci'', om_Generation := 2\<rparr>,
     rn_Spec = zero_RunnerSpec\<lparr>rs_Image := ''golangci''\<rparr>,
     rn_Status = zero_RunnerStatus\<lparr>rst_Phase := RunnerPhaseSucceeded, rst_ResourceHash := ''0011223344556677'',
       rst_ObservedGeneration := 1, rst_StartTime := Some 10, rst_CompletionTime := Some 20\<rparr>\<rparr>"

definition demo_hash :: string where
  "demo_hash = EncodeToString (take 8 (Sum256 ''golangci''))"

definition demo_job :: BatchJob where
  "demo_job = (buildJob demo_runner ''lint-job'' demo_hash)\<lparr>bj_StartTime := Some 10, bj_CompletionTime := Some 20,
     bj_Conditions := [\<lparr>jc_Type = JobComplete, jc_Status = ConditionTrue\<rparr>]\<rparr>"

definition demo_env :: "Runner \<Rightarrow> apierr + BatchJob \<Rightarrow> env" where
  "demo_env r job = sample_env\<lparr>e_GetRunner := \<lambda>w nn. Inr r, e_GetJob := \<lambda>w nn. job\<rparr>"

lemma demo_env_simps [simp]:
  "e_GetRunner (demo_env r job) w nn = Inr r" "e_GetJob (demo_env r job) w nn = job"
  "e_SetControllerReference (demo_env r job) = e_SetControllerReference sample_env"
  "e_SetStatusCondition (demo_env r job) = e_SetStatusCondition sample_env"
  "e_PatchRunner (demo_env r job) w b x = Inr x"
  "e_MarshalSpec (demo_env r job) spec = Inr (rs_Image spec)"
  "patches_status (demo_env r job)"
  by (simp_all add: demo_env_def sample_env_def patches_status_def)
     (metis Runner.surjective Runner.update_convs(3))

lemma demo_runner_simps [simp]:
  "om_DeletionTimestamp (rn_Meta demo_runner) = None" "rn_Name demo_runner = ''lint''" "rn_Namespace demo_runner = ''ci''"
  "rst_ResourceHash (rn_Status demo_runner) = ''0011223344556677''" "rst_DesiredSpecHash (rn_Status demo_runner) = []"
  "validateGitRepoSecret e demo_runner w = None"
  "computeSpecHash (demo_env demo_runner job) (rn_Spec demo_runner) = Inr demo_hash"
  "jobRunning demo_job = False" "rst_StartTime (rn_Status demo_runner) = Some 10"
  by (simp_all add: demo_runner_def zero_ObjectMeta_def zero_RunnerStatus_def zero_RunnerSpec_def demo_hash_def
      validateGitRepoSecret_def computeSpecHash_def jobRunning_def demo_job_def)


section \<open>The pod of a Job\<close>

lemmas security_contexts = containerSecurityContext_def runnerSecurityContext_def Let_def

text \<open>
  C26. The pod of a Job is well formed and hardened.  It has a single container with the Runner's
  image, command, arguments, environment and mounts, and is never restarted or retried.  Without a
  repository there is no init container.  With one there is exactly one, which runs the clone
  script of the repository in its image (or the default one), without root and on a read-only root
  file system; both containers mount the same volume, an empty directory of the pod, at
  \<open>/workspace\<close>, and the working directory is \<open>/workspace/repo\<close>, followed by the path of the spec.
  Every mount the controller adds is backed by a volume of the pod.  Unless the Runner brings its
  own security context, no privileges can be gained and all capabilities are dropped; and unless
  that context asks for root, the pod runs as user 1000.
\<close>

theorem buildJob_pod_wellformed:
  "let job = buildJob r n h; pod = bj_PodSpec job; spec = rn_Spec r
   in bj_BackoffLimit job = 0 \<and> pod_RestartPolicy pod = ''Never'' \<and>
      (\<exists>c. pod_Containers pod = [c] \<and> c_Image c = rs_Image spec \<and> c_Command c = rs_Command spec \<and>
         c_Args c = rs_Args spec \<and> c_Env c = rs_Env spec \<and>
         (case rs_GitRepo spec of
            None \<Rightarrow> pod_InitContainers pod = [] \<and> c_VolumeMounts c = rs_Mounts spec \<and> c_WorkingDir c = []
          | Some g \<Rightarrow>
              elems (c_VolumeMounts c) = elems (rs_Mounts spec) @ [mount ''runner-operator-git-repo'' ''/workspace'' False] \<and>
              c_WorkingDir c = ''/workspace/repo'' @ (if gr_Path g = [] then [] else ''/'' @ gr_Path g) \<and>
              \<lparr>vol_Name = ''runner-operator-git-repo'', vol_Source = EmptyDir []\<rparr> \<in> set (elems (pod_Volumes pod)) \<and>
              (\<exists>i sc. pod_InitContainers pod = [i] \<and>
                 c_Image i = (if gr_Image g = [] then DefaultGitImage else gr_Image g) \<and>
                 c_Command i = Some [''/bin/sh'', ''-c''] \<and> c_Args i = Some [BuildCloneScript g (NewAuthStrategy g)] \<and>
                 mount ''runner-operator-git-repo'' ''/workspace'' False \<in> set (elems (c_VolumeMounts i)) \<and>
                 c_SecurityContext i = Some sc \<and> sc_RunAsNonRoot sc = Some True \<and>
                 sc_AllowPrivilegeEscalation sc = Some False \<and> sc_ReadOnlyRootFilesystem sc = Some True)) \<and>
         vm_Name ` set (concat (map (elems \<circ> c_VolumeMounts) (pod_InitContainers pod @ [c]))) \<subseteq>
           vol_Name ` set (elems (pod_Volumes pod)) \<union> vm_Name ` set (elems (rs_Mounts spec)) \<and>
         (case rs_SecurityContext spec of
            Some sc \<Rightarrow> c_SecurityContext c = Some sc \<and>
              psc_RunAsUser (pod_SecurityContext pod) = (if sc_RunAsUser sc = Some 0 then 0 else 1000)
          | None \<Rightarrow> map_option sc_AllowPrivilegeEscalation (c_SecurityContext c) = Some (Some False) \<and>
              map_option sc_CapabilitiesDrop (c_SecurityContext c) = Some (Some [''ALL'']) \<and>
              psc_RunAsNonRoot (pod_SecurityContext pod) \<and> psc_RunAsUser (pod_SecurityContext pod) = 1000))"
proof (cases "rs_GitRepo (rn_Spec r)")
  case None
  then show ?thesis
    by (auto simp: buildJob_def runnerContainer_def security_contexts split: option.split)
next
  case (Some g)
  let ?pod = "bj_PodSpec (buildJob r n h)" and ?c = "runnerContainer r" and ?i = "BuildInitContainer g (NewAuthStrategy g)"
  note names = WorkspaceMountPath_def RepoSubPath_def WorkspaceVolumeName_def
  have pod: "pod_RestartPolicy ?pod = ''Never''" "pod_Containers ?pod = [?c]" "pod_InitContainers ?pod = [?i]"
    "elems (pod_Volumes ?pod) = elems (rs_Volumes (rn_Spec r)) @ BuildVolumes g (NewAuthStrategy g)"
    "pod_SecurityContext ?pod = runnerSecurityContext r" "bj_BackoffLimit (buildJob r n h) = 0"
    using Some by (simp_all add: buildJob_def Let_def)
  have c: "c_Image ?c = rs_Image (rn_Spec r)" "c_Command ?c = rs_Command (rn_Spec r)" "c_Args ?c = rs_Args (rn_Spec r)"
    "c_Env ?c = rs_Env (rn_Spec r)" "c_SecurityContext ?c = Some (containerSecurityContext r)"
    "elems (c_VolumeMounts ?c) = elems (rs_Mounts (rn_Spec r)) @ [mount ''runner-operator-git-repo'' ''/workspace'' False]"
    "c_WorkingDir ?c = ''/workspace/repo'' @ (if gr_Path g = [] then [] else ''/'' @ gr_Path g)"
    using Some by (simp_all add: runnerContainer_def names Let_def)
  have ws: "\<lparr>vol_Name = ''runner-operator-git-repo'', vol_Source = EmptyDir []\<rparr> \<in> set (BuildVolumes g (NewAuthStrategy g))"
    by (auto simp: BuildVolumes_def names Let_def split: option.split)
  then have "''runner-operator-git-repo'' \<in> vol_Name ` set (BuildVolumes g (NewAuthStrategy g))" by force
  then have backed: "vm_Name ` set (concat (map (elems \<circ> c_VolumeMounts) ([?i] @ [?c]))) \<subseteq>
      vol_Name ` set (elems (pod_Volumes ?pod)) \<union> vm_Name ` set (elems (rs_Mounts (rn_Spec r)))"
    using clone_mounts_backed [of g] by (auto simp: c pod mount_def)
  have i: "\<exists>i sc. pod_InitContainers ?pod = [i] \<and> c_Image i = (if gr_Image g = [] then DefaultGitImage else gr_Image g) \<and>
      c_Command i = Some [''/bin/sh'', ''-c''] \<and> c_Args i = Some [BuildCloneScript g (NewAuthStrategy g)] \<and>
      mount ''runner-operator-git-repo'' ''/workspace'' False \<in> set (elems (c_VolumeMounts i)) \<and>
      c_SecurityContext i = Some sc \<and> sc_RunAsNonRoot sc = Some True \<and>
      sc_AllowPrivilegeEscalation sc = Some False \<and> sc_ReadOnlyRootFilesystem sc = Some True"
    by (simp add: pod BuildInitContainer_def names)
  show ?thesis
    unfolding Let_def
  proof (intro conjI exI [of _ ?c])
    show "vm_Name ` set (concat (map (elems \<circ> c_VolumeMounts) (pod_InitContainers ?pod @ [?c]))) \<subseteq>
      vol_Name ` set (elems (pod_Volumes ?pod)) \<union> vm_Name ` set (elems (rs_Mounts (rn_Spec r)))"
      using backed by (simp only: pod)
  qed (use Some i ws in \<open>auto simp: pod(1,2,4-6) c security_contexts split: option.split\<close>)
qed

text \<open>
  The deadline of a Job is the Runner's timeout in whole seconds, rounded down, for every
  timeout below 194 days (where the float64 arithmetic of \<open>Duration.Seconds\<close> does not reach the
  next second).
\<close>

lemma job_deadline_exact:
  assumes "rs_TimeoutAfter (rn_Spec r) = Some d" "0 \<le> sint d" "sint d < 2 ^ 24 * 10 ^ 9"
  shows "bj_ActiveDeadlineSeconds (buildJob r n h) = Some (sint d div 10 ^ 9)"
  using assms int64_Seconds_exact [of d] by (simp add: buildJob_def Let_def split_beta)

lemma job_deadline_exact_example:
  "bj_ActiveDeadlineSeconds (buildJob (demo_runner\<lparr>rn_Spec := (rn_Spec demo_runner)\<lparr>rs_TimeoutAfter := Some (word_of_int 90500000000)\<rparr>\<rparr>) ''lint-job'' []) = Some 90"
proof -
  have "sint (word_of_int 90500000000 :: duration) = 90500000000"
    by (rule sint_word_of_int_small) (simp_all add: min_int64_def max_int64_def)
  then show ?thesis
    using job_deadline_exact [of "demo_runner\<lparr>rn_Spec := (rn_Spec demo_runner)\<lparr>rs_TimeoutAfter := Some (word_of_int 90500000000)\<rparr>\<rparr>"
        "word_of_int 90500000000" "''lint-job''" "[]"] by simp
qed

section \<open>The status follows the Job\<close>

text \<open>The conditions of a Job that decide its outcome; the last one counts.\<close>

definition outcomes :: "BatchJob \<Rightarrow> JobCondition list" where
  "outcomes job = filter (\<lambda>c. jc_Status c = ConditionTrue \<and> jc_Type c \<in> {JobComplete, JobFailed}) (bj_Conditions job)"

definition phase_of_job :: "BatchJob \<Rightarrow> RunnerPhase" where
  "phase_of_job job =
     (if outcomes job = [] then (if bj_StartTime job = None then RunnerPhasePending else RunnerPhaseRunning)
      else if jc_Type (last (outcomes job)) = JobComplete then RunnerPhaseSucceeded else RunnerPhaseFailed)"

lemma scanConditions_spec:
  "scanConditions job =
     (if outcomes job = [] then (RunnerPhaseUnknown, None)
      else (if jc_Type (last (outcomes job)) = JobComplete then RunnerPhaseSucceeded else RunnerPhaseFailed, bj_CompletionTime job))"
proof -
  have "foldl (\<lambda>(phase, completionTime) cond.
       case jc_Type cond of
         JobComplete \<Rightarrow> if jc_Status cond = ConditionTrue then (RunnerPhaseSucceeded, bj_CompletionTime job)
                        else (phase, completionTime)
       | JobFailed \<Rightarrow> if jc_Status cond = ConditionTrue then (RunnerPhaseFailed, bj_CompletionTime job)
                      else (phase, completionTime)
       | _ \<Rightarrow> (phase, completionTime)) (RunnerPhaseUnknown, None) cs =
     (let os = filter (\<lambda>c. jc_Status c = ConditionTrue \<and> jc_Type c \<in> {JobComplete, JobFailed}) cs
      in if os = [] then (RunnerPhaseUnknown, None)
         else (if jc_Type (last os) = JobComplete then RunnerPhaseSucceeded else RunnerPhaseFailed, bj_CompletionTime job))" for cs
    by (induction cs rule: rev_induct) (auto simp: Let_def split: JobConditionType.split)
  from this [of "bj_Conditions job"] show ?thesis unfolding scanConditions_def outcomes_def Let_def .
qed

lemma observeJob_phase: "fst (observeJob job) = phase_of_job job"
  by (auto simp: observeJob_def scanConditions_spec phase_of_job_def Let_def)

lemma reportPhase_frame:
  "rn_Meta (fst (reportPhase e p r w)) = rn_Meta r" "rn_Spec (fst (reportPhase e p r w)) = rn_Spec r" "rn_Phase (fst (reportPhase e p r w)) = rn_Phase r"
  "rst_ObservedGeneration (rn_Status (fst (reportPhase e p r w))) = rst_ObservedGeneration (rn_Status r)"
  "rst_StartTime (rn_Status (fst (reportPhase e p r w))) = rst_StartTime (rn_Status r)"
  "rst_CompletionTime (rn_Status (fst (reportPhase e p r w))) = rst_CompletionTime (rn_Status r)"
  by (simp_all add: reportPhase_def Let_def split_beta split: RunnerPhase.split)

lemma reportPhase_pending: "reportPhase e RunnerPhasePending r w = (r, w)"
  by (simp add: reportPhase_def)

lemma reportPhase_ready:
  assumes "sets_condition (e_SetStatusCondition e)" "p \<in> {RunnerPhaseRunning, RunnerPhaseSucceeded, RunnerPhaseFailed}"
  shows "map_option cond_Status (ready_of (rst_Conditions (rn_Status (fst (reportPhase e p r w))))) =
    Some (if p = RunnerPhaseSucceeded then ConditionTrue else ConditionFalse)"
  using assms(2) setRunnerCondition_ready [OF assms(1)]
  by (fastforce simp: reportPhase_def Let_def split_beta)

lemma moveGauge_log: "\<exists>g. w_log (moveGauge r a b w) = w_log w @ g \<and> runner_patches g = []"
  by (simp add: moveGauge_def Let_def)

text \<open>A pass that finds a difference: what it reports on, and the one patch at its end.\<close>

lemma updateStatusFromJob_details:
  assumes "observeJob job = (phase, startTime, completionTime)" "\<not> upToDate phase startTime completionTime r"
  obtains r1 w1 pre where
    "updateStatusFromJob e r job w = patchRunner e r (fst (reportPhase e phase r1 w1)) (snd (reportPhase e phase r1 w1))"
    "w_log w1 = w_log w @ pre" "runner_patches pre = []"
    "r1 = rn_setStatus (\<lambda>s. s\<lparr>rst_Phase := phase, rst_ObservedGeneration := om_Generation (rn_Meta r),
       rst_StartTime := (if startTime \<noteq> None then startTime else rst_StartTime s),
       rst_CompletionTime := (if completionTime \<noteq> None then completionTime else rst_CompletionTime s)\<rparr>) r"
proof -
  define w0 where "w0 = (if rn_Phase r \<noteq> phase
      then emit (Event ''Normal'' ''PhaseChanged'' (''Runner phase changed to '' @ RunnerPhase_text phase)) w else w)"
  define r1 where "r1 = rn_setStatus (\<lambda>s. s\<lparr>rst_Phase := phase, rst_ObservedGeneration := om_Generation (rn_Meta r),
      rst_StartTime := (if startTime \<noteq> None then startTime else rst_StartTime s),
      rst_CompletionTime := (if completionTime \<noteq> None then completionTime else rst_CompletionTime s)\<rparr>) r"
  define w1 where "w1 = moveGauge r1 (rn_Phase r) phase w0"
  obtain g where g: "w_log w1 = w_log w0 @ g" "runner_patches g = []" using moveGauge_log unfolding w1_def by blast
  have "updateStatusFromJob e r job w = patchRunner e r (fst (reportPhase e phase r1 w1)) (snd (reportPhase e phase r1 w1))"
    using assms(2) unfolding updateStatusFromJob_def assms(1)
    by (simp only: Let_def split_beta fst_conv snd_conv if_False w0_def r1_def w1_def)
  moreover have "\<exists>pre. w_log w1 = w_log w @ pre \<and> runner_patches pre = []" using g by (simp add: w0_def)
  ultimately show ?thesis using that by (auto simp: r1_def)
qed

lemma updateStatusFromJob_step:
  assumes "observeJob job = (phase, startTime, completionTime)" "\<not> upToDate phase startTime completionTime r"
  obtains r1 w1 pre where
    "updateStatusFromJob e r job w = patchRunner e r (fst (reportPhase e phase r1 w1)) (snd (reportPhase e phase r1 w1))"
    "w_log w1 = w_log w @ pre" "runner_patches pre = []"
    "rn_Meta r1 = rn_Meta r" "rn_Phase r1 = phase" "rst_ObservedGeneration (rn_Status r1) = om_Generation (rn_Meta r)"
  by (rule updateStatusFromJob_details [OF assms, of e w]) (auto intro: that)

text \<open>The status a pass should leave behind for a Job: phase, generation, times and the Ready condition.\<close>

definition reflects_job :: "BatchJob \<Rightarrow> Runner \<Rightarrow> Runner \<Rightarrow> bool" where
  "reflects_job job r r' \<longleftrightarrow>
     (let phase = phase_of_job job; old = rn_Status r; new = rn_Status r'; ready = map_option cond_Status (ready_of (rst_Conditions new))
      in rn_Meta r' = rn_Meta r \<and> rn_Spec r' = rn_Spec r \<and>
         rst_Phase new = phase \<and> rst_ObservedGeneration new = om_Generation (rn_Meta r) \<and>
         rst_StartTime new = (if phase = RunnerPhaseRunning then bj_StartTime job else rst_StartTime old) \<and>
         rst_CompletionTime new =
           (if phase \<in> {RunnerPhaseSucceeded, RunnerPhaseFailed} \<and> bj_CompletionTime job \<noteq> None
            then bj_CompletionTime job else rst_CompletionTime old) \<and>
         (phase = RunnerPhaseSucceeded \<longrightarrow> ready = Some ConditionTrue) \<and>
         (phase \<in> {RunnerPhaseFailed, RunnerPhaseRunning} \<longrightarrow> ready = Some ConditionFalse) \<and>
         (phase = RunnerPhasePending \<longrightarrow> rst_Conditions new = rst_Conditions old))"

lemma metav1TimePtrEqual_iff: "metav1TimePtrEqual a b \<longleftrightarrow> a = b"
  by (cases a; cases b) auto

lemma observeJob_cases:
  "observeJob job = (phase_of_job job,
     if phase_of_job job = RunnerPhaseRunning then bj_StartTime job else None,
     if phase_of_job job \<in> {RunnerPhaseSucceeded, RunnerPhaseFailed} then bj_CompletionTime job else None)"
  by (auto simp: observeJob_def scanConditions_spec phase_of_job_def Let_def)

lemma phase_of_job_running: "phase_of_job job = RunnerPhaseRunning \<Longrightarrow> bj_StartTime job \<noteq> None"
  by (auto simp: phase_of_job_def split: if_splits)

lemma phase_of_job_pending: "phase_of_job job = RunnerPhasePending \<Longrightarrow> bj_StartTime job = None"
  by (auto simp: phase_of_job_def split: if_splits)



section \<open>Changes that are not written, and work that is repeated\<close>

text \<open>
  A Runner with an invalid Git secret never gets a Job, but the reason is not reported either:
  the failed condition is set on the object before the copy the patch is computed from (or not
  patched at all), so no patch of the pass changes the conditions.
\<close>

lemma validation_failure_not_reported:
  assumes "e_GetRunner e w req = Inr r" "om_DeletionTimestamp (rn_Meta r) = None" "computeSpecHash e (rn_Spec r) = Inr h"
    and "validateGitRepoSecret e r w = Some msg"
    and "rst_ResourceHash (rn_Status r) \<noteq> h"
    and "case e_GetJob e w \<lparr>nn_Namespace = rn_Namespace r, nn_Name = rn_Name r @ ''-job''\<rparr> of Inl _ \<Rightarrow> True | Inr job \<Rightarrow> \<not> jobRunning job"
  shows "\<exists>new. created_jobs (w_log (snd (Reconcile_Runner e req w))) = created_jobs (w_log w) \<and>
    deleted (w_log (snd (Reconcile_Runner e req w))) = deleted (w_log w) \<and>
    runner_patches (w_log (snd (Reconcile_Runner e req w))) = runner_patches (w_log w) @ new \<and>
    list_all (\<lambda>(base, r'). rst_Conditions (rn_Status r') = rst_Conditions (rn_Status base)) new"
proof -
  let ?job = "e_GetJob e w \<lparr>nn_Namespace = rn_Namespace r, nn_Name = rn_Name r @ ''-job''\<rparr>"
  have reject: "runner_patches (w_log (snd (rejectRunner e h msg r w))) = runner_patches (w_log w) @
      [(fst (setRunnerCondition e ConditionFalse ReasonRunnerValidationFailed msg r w),
        rn_setStatus (\<lambda>s. s\<lparr>rst_Phase := RunnerPhasePending, rst_ResourceHash := h,
                rst_ObservedGeneration := om_Generation (rn_Meta r)\<rparr>)
          (fst (setRunnerCondition e ConditionFalse ReasonRunnerValidationFailed msg r w)))]"
    by (simp add: rejectRunner_def do_request_defs Let_def split_beta split: sum.split)
  consider (nf) t where "?job = Inl (NotFound t)" | (err) x where "?job = Inl x" "\<nexists>t. x = NotFound t" | (job) j where "?job = Inr j"
    by (cases ?job) auto
  then show ?thesis
  proof cases
    case nf
    then show ?thesis
      using Reconcile_Runner_cases [OF assms(1-3)] assms(4) reject rejectRunner_silent by simp
  next
    case err
    then show ?thesis
      using Reconcile_Runner_cases [OF assms(1-3)] by (auto split: apierr.splits)
  next
    case job
    then show ?thesis
      using Reconcile_Runner_cases [OF assms(1-3)] assms(4-6)
      by (auto simp: handleDrift_def Let_def split_beta)
  qed
qed

definition git_runner :: Runner where
  "git_runner = demo_runner\<lparr>rn_Spec := zero_RunnerSpec\<lparr>rs_Image := ''golangci'', rs_GitRepo := Some
     \<lparr>gr_URL = ''https://github.com/o/r'', gr_Revision = [], gr_Path = [],
      gr_Auth = Some \<lparr>ga_Type = GitAuthTypeToken, ga_SecretRefName = ''git''\<rparr>, gr_Image = []\<rparr>\<rparr>,
     rn_Status := zero_RunnerStatus\<rparr>"

definition git_env :: env where
  "git_env = (demo_env git_runner (Inl (NotFound ''job'')))\<lparr>e_GetSecret := \<lambda>w nn.
     Inr \<lparr>sec_Name = ''git'', sec_Namespace = ''ci'', sec_Data = [(''password'', ''x'')], sec_StringData = []\<rparr>\<rparr>"

lemma validation_failure_not_reported_example:
  "created_jobs (w_log (snd (Reconcile_Runner git_env \<lparr>nn_Namespace = ''ci'', nn_Name = ''lint''\<rparr> sample_world))) = []"
proof -
  have h: "computeSpecHash git_env (rn_Spec git_runner) = Inr demo_hash"
    by (simp add: computeSpecHash_def git_env_def git_runner_def demo_hash_def)
  have "length demo_hash \<noteq> length []" by (simp add: demo_hash_def)
  then have ne: "[] \<noteq> demo_hash" by metis
  have v: "\<exists>msg. validateGitRepoSecret git_env git_runner sample_world = Some msg"
    by (simp add: validateGitRepoSecret_def git_runner_def git_env_def checkSecretHasKeys_def RequiredSecretKeys_def
        resolved_auth_type_def)
  show ?thesis
    using validation_failure_not_reported [of git_env sample_world "\<lparr>nn_Namespace = ''ci'', nn_Name = ''lint''\<rparr>" git_runner demo_hash]
      h ne v by (auto simp: git_env_def git_runner_def demo_runner_def zero_ObjectMeta_def zero_RunnerStatus_def sample_world_def)
qed

text \<open>
  A Job that failed is never replaced when its Runner's spec changes.  Kubernetes sets no
  completion time on a failed Job, so the drift test takes it for a running one: the pass deletes
  and creates nothing and does not take over the outcome of the Job; and the hash of the new spec,
  set before the copy the patch is computed from, is not in the patch, so every later pass finds
  the same situation.
\<close>

lemma failed_job_blocks_drift:
  assumes "e_GetRunner e w req = Inr r" "om_DeletionTimestamp (rn_Meta r) = None" "computeSpecHash e (rn_Spec r) = Inr h"
    and "e_GetJob e w \<lparr>nn_Namespace = rn_Namespace r, nn_Name = rn_Name r @ ''-job''\<rparr> = Inr job"
    and "rst_ResourceHash (rn_Status r) \<noteq> h" "bj_StartTime job = Some start" "bj_CompletionTime job = None"
  shows "\<exists>base r'. w_log (snd (Reconcile_Runner e req w)) = w_log w @ [PatchStatus (ORunner base) (ORunner r')] \<and>
    rst_DesiredSpecHash (rn_Status r') = rst_DesiredSpecHash (rn_Status base) \<and>
    rst_ResourceHash (rn_Status r') = rst_ResourceHash (rn_Status r) \<and> rn_Phase r' = rn_Phase r"
  using Reconcile_Runner_cases [OF assms(1-3)] assms(4-7)
  by (simp add: handleDrift_def jobRunning_def deferDrift_def Let_def split_beta)

definition failed_job :: BatchJob where
  "failed_job = demo_job\<lparr>bj_CompletionTime := None, bj_Conditions := [\<lparr>jc_Type = JobFailed, jc_Status = ConditionTrue\<rparr>]\<rparr>"

lemma failed_job_blocks_drift_example:
  "phase_of_job failed_job = RunnerPhaseFailed \<and>
   deleted (w_log (snd (Reconcile_Runner (demo_env (rn_setStatus (rst_ResourceHash_update (\<lambda>_. ''old'')) demo_runner) (Inr failed_job))
      \<lparr>nn_Namespace = ''ci'', nn_Name = ''lint''\<rparr> sample_world))) = []"
proof -
  let ?r = "rn_setStatus (rst_ResourceHash_update (\<lambda>_. ''old'')) demo_runner"
  have h: "computeSpecHash (demo_env ?r (Inr failed_job)) (rn_Spec ?r) = Inr demo_hash"
    by (simp add: computeSpecHash_def demo_hash_def demo_runner_def)
  have "length demo_hash \<noteq> length ''old''" by (simp add: demo_hash_def)
  then have ne: "''old'' \<noteq> demo_hash" by metis
  have "phase_of_job failed_job = RunnerPhaseFailed" by (simp add: phase_of_job_def outcomes_def failed_job_def)
  moreover have "deleted (w_log (snd (Reconcile_Runner (demo_env ?r (Inr failed_job))
      \<lparr>nn_Namespace = ''ci'', nn_Name = ''lint''\<rparr> sample_world))) = []"
    using failed_job_blocks_drift [of "demo_env ?r (Inr failed_job)" sample_world "\<lparr>nn_Namespace = ''ci'', nn_Name = ''lint''\<rparr>" ?r demo_hash failed_job 10]
      h ne by (auto simp: sample_world_def failed_job_def demo_job_def)
  ultimately show ?thesis by blast
qed

lemma observeDuration_log: "\<exists>d. w_log (observeDuration r w) = w_log w @ d"
  by (simp add: observeDuration_def split: option.split)

lemma reportPhase_succeeded_log:
  "\<exists>d. w_log (snd (reportPhase e RunnerPhaseSucceeded r w)) =
     w_log w @ CounterInc ''runner_job_completed_total'' [rn_Namespace r, ''succeeded''] # d"
proof -
  let ?p = "setRunnerCondition e ConditionTrue ReasonRunnerSucceeded ''Runner completed successfully'' r w"
  obtain d where "w_log (observeDuration (fst ?p) (emit (CounterInc ''runner_job_completed_total'' [rn_Namespace r, ''succeeded'']) (snd ?p))) =
      w_log (emit (CounterInc ''runner_job_completed_total'' [rn_Namespace r, ''succeeded'']) (snd ?p)) @ d"
    using observeDuration_log by blast
  then show ?thesis by (intro exI [of _ d]) (simp add: reportPhase_def Let_def split_beta)
qed

text \<open>
  Taking over a completed Job is not idempotent: the start time, recorded while the Job ran,
  is compared with the start time of a completed Job, which the controller leaves empty.  So every
  further pass over a Runner that was seen running finds a difference, counts the completion in
  \<open>runner_job_completed_total\<close> again and sends another patch.
\<close>

lemma completion_counted_again:
  assumes "e_GetRunner e w req = Inr r" "om_DeletionTimestamp (rn_Meta r) = None" "computeSpecHash e (rn_Spec r) = Inr h"
    and "e_GetJob e w \<lparr>nn_Namespace = rn_Namespace r, nn_Name = rn_Name r @ ''-job''\<rparr> = Inr job"
    and "rst_ResourceHash (rn_Status r) = h" "rst_DesiredSpecHash (rn_Status r) = []"
    and "phase_of_job job = RunnerPhaseSucceeded" "rst_StartTime (rn_Status r) = Some start"
  shows "\<exists>new. w_log (snd (Reconcile_Runner e req w)) = w_log w @ new \<and>
    CounterInc ''runner_job_completed_total'' [rn_Namespace r, ''succeeded''] \<in> set new \<and>
    list_ex (\<lambda>x. case x of PatchStatus _ _ \<Rightarrow> True | _ \<Rightarrow> False) new"
proof -
  have "outcomes job \<noteq> []" using assms(7) by (auto simp: phase_of_job_def split: if_splits)
  then have obs: "observeJob job = (RunnerPhaseSucceeded, None, bj_CompletionTime job)"
    using assms(7) by (auto simp: observeJob_def scanConditions_spec phase_of_job_def Let_def split: if_splits)
  have pass: "Reconcile_Runner e req w = updateStatusFromJob e r job w"
    using Reconcile_Runner_cases [OF assms(1-3)] assms(4-6) by simp
  have old: "\<not> upToDate RunnerPhaseSucceeded None (bj_CompletionTime job) r" using assms(8) by (simp add: upToDate_def)
  obtain r1 w1 pre where step:
    "updateStatusFromJob e r job w = patchRunner e r (fst (reportPhase e RunnerPhaseSucceeded r1 w1)) (snd (reportPhase e RunnerPhaseSucceeded r1 w1))"
    "w_log w1 = w_log w @ pre" "rn_Meta r1 = rn_Meta r"
    using updateStatusFromJob_step [OF obs old] .
  obtain d where "w_log (snd (reportPhase e RunnerPhaseSucceeded r1 w1)) =
      w_log w1 @ CounterInc ''runner_job_completed_total'' [rn_Namespace r1, ''succeeded''] # d"
    using reportPhase_succeeded_log by blast
  with step have "w_log (snd (Reconcile_Runner e req w)) = w_log w @ (pre @
      CounterInc ''runner_job_completed_total'' [rn_Namespace r, ''succeeded''] # d @
      [PatchStatus (ORunner r) (ORunner (fst (reportPhase e RunnerPhaseSucceeded r1 w1)))])"
    by (simp add: pass)
  then show ?thesis by auto
qed

lemma completion_counted_again_example:
  "CounterInc ''runner_job_completed_total'' [''ci'', ''succeeded''] \<in> set (w_log (snd (Reconcile_Runner
     (demo_env (rn_setStatus (rst_ResourceHash_update (\<lambda>_. demo_hash)) demo_runner) (Inr demo_job))
     \<lparr>nn_Namespace = ''ci'', nn_Name = ''lint''\<rparr> sample_world)))"
proof -
  let ?r = "rn_setStatus (rst_ResourceHash_update (\<lambda>_. demo_hash)) demo_runner"
  have h: "computeSpecHash (demo_env ?r (Inr demo_job)) (rn_Spec ?r) = Inr demo_hash"
    by (simp add: computeSpecHash_def demo_hash_def demo_runner_def)
  have p: "phase_of_job demo_job = RunnerPhaseSucceeded" by (simp add: phase_of_job_def outcomes_def demo_job_def)
  show ?thesis
    using completion_counted_again [of "demo_env ?r (Inr demo_job)" sample_world "\<lparr>nn_Namespace = ''ci'', nn_Name = ''lint''\<rparr>" ?r demo_hash demo_job 10]
      h p by auto
qed

end
