(* ===== verification/Operator_Run.thy ===== *)
theory Operator_Run
  imports Job_Properties Runner_Properties
begin

text \<open>
  The controllers together.  The Workflow controller reads the phases that the Runner controller
  writes, which come from the Jobs it reads; the caches both read from may be stale.  The state is
  therefore the history of the API server: every version of an object it ever held.
\<close>

section \<open>What a pass over a Workflow may record as Succeeded\<close>

definition succeeded :: "Workflow \<Rightarrow> string set" where
  "succeeded W = ss_Name ` {s \<in> set (wf_StepStatuses W). ss_Phase s = StepPhaseSucceeded}"

text \<open>\<open>grows A W W'\<close>: the same object, with no more successes than before but those in \<open>A\<close>.\<close>

definition grows :: "string set \<Rightarrow> Workflow \<Rightarrow> Workflow \<Rightarrow> bool" where
  "grows A W W' \<longleftrightarrow> wf_Meta W' = wf_Meta W \<and> succeeded W' \<subseteq> succeeded W \<union> A"

lemma grows_refl [simp]: "grows A W W"
  by (simp add: grows_def)

lemma grows_trans: "grows A U V \<Longrightarrow> grows A V W \<Longrightarrow> grows A U W"
  by (auto simp: grows_def)

lemma grows_same: "wf_StepStatuses W' = wf_StepStatuses W \<Longrightarrow> wf_Meta W' = wf_Meta W \<Longrightarrow> grows A W W'"
  by (simp add: grows_def succeeded_def)

lemma set_update_first: "set (update_first P f xs) \<subseteq> set xs \<union> f ` {x \<in> set xs. P x}"
  by (induction xs) auto

lemma grows_update_first:
  assumes "\<And>s. s \<in> set (wf_StepStatuses W) \<Longrightarrow> P s \<Longrightarrow> ss_Phase (f s) = StepPhaseSucceeded \<Longrightarrow> ss_Name (f s) \<in> succeeded W \<union> A"
  shows "grows A W (wf_setStatus (wst_StepStatuses_update (update_first P f)) W)"
proof -
  have "ss_Name s \<in> succeeded W \<union> A"
    if "s \<in> set (update_first P f (wf_StepStatuses W))" "ss_Phase s = StepPhaseSucceeded" for s
    using that assms subsetD [OF set_update_first that(1)] by (auto simp: succeeded_def)
  then show ?thesis by (auto simp: grows_def succeeded_def)
qed

lemma grows_append:
  "(ss_Phase s = StepPhaseSucceeded \<Longrightarrow> ss_Name s \<in> A) \<Longrightarrow> grows A W (wf_setStatus (wst_StepStatuses_update (\<lambda>ss. ss @ [s])) W)"
  by (auto simp: grows_def succeeded_def)

lemma grows_upsert:
  assumes "p = StepPhaseSucceeded \<Longrightarrow> n \<in> A"
  shows "grows A W (fst (upsertStepStatus e n p W w))"
proof (cases "find (\<lambda>s. ss_Name s = n) (wf_StepStatuses W)")
  case None
  then show ?thesis using assms
    by (auto simp: upsertStepStatus_def split_beta newStepStatus_def Let_def intro!: grows_append)
next
  case (Some s)
  then have "ss_Name s = n" by (auto dest: find_SomeD)
  moreover have "ss_Name (fst (advanceStepStatus e p s w)) = ss_Name s" "ss_Phase (fst (advanceStepStatus e p s w)) = p"
    by (simp_all add: advanceStepStatus_def Let_def split_beta)
  ultimately show ?thesis using Some assms
    by (auto simp: upsertStepStatus_def split_beta intro!: grows_update_first)
qed

lemma grows_annotate:
  assumes "\<And>s. ss_Name (f s) = ss_Name s" "\<And>s. ss_Phase (f s) = ss_Phase s"
  shows "grows A W (wf_setStatus (wst_StepStatuses_update (update_first P f)) W)"
  using assms by (intro grows_update_first) (auto simp: succeeded_def)

section \<open>One iteration and the loop\<close>

definition succeeded_runners :: "(string, Runner) gomap \<Rightarrow> string set" where
  "succeeded_runners rm = {n. \<exists>r. map_of rm n = Some r \<and> rn_Phase r = RunnerPhaseSucceeded}"

lemma startStep_grows: "grows A (lp_wf l) (lp_wf (startStep e build job step l))"
  by (auto simp: startStep_def Let_def split_beta do_request_defs split: sum.split
      intro!: grows_trans [OF grows_upsert grows_annotate])

lemma retryStep_grows: "grows A (lp_wf l) (lp_wf (retryStep e job step rp st r l))"
  by (auto simp: retryStep_def Let_def split_beta do_request_defs intro!: grows_trans [OF grows_upsert grows_annotate])

lemma recordStep_grows:
  "(p = StepPhaseSucceeded \<Longrightarrow> st_Name step \<in> A) \<Longrightarrow> grows A (lp_wf l) (lp_wf (recordStep e step p r l))"
  by (auto simp: recordStep_def Let_def split_beta intro!: grows_upsert grows_trans [OF grows_annotate grows_upsert])

lemma runnerPhaseToStepPhase_Succeeded: "runnerPhaseToStepPhase p = StepPhaseSucceeded \<longleftrightarrow> p = RunnerPhaseSucceeded"
  by (cases p) auto

lemma reconcileStep_grows:
  "grows (succeeded_runners rm) (lp_wf l) (lp_wf (reconcileStep e build job rm step l))"
proof (cases "evaluateStep step (lp_stepStatusMap l)")
  case stepRun
  then show ?thesis
    by (auto simp: reconcileStep_def trackStep_def Let_def startStep_grows retryStep_grows succeeded_runners_def
        runnerPhaseToStepPhase_Succeeded intro!: recordStep_grows split: option.split)
qed (auto simp: reconcileStep_def Let_def appendStepStatus_def intro!: grows_append)

lemma reconcileStepLoop_grows:
  "grows (succeeded_runners (buildRunnerMap runners)) W (fst (snd (reconcileStepLoop e steps runners build job W w)))"
proof -
  have "grows (succeeded_runners rm) (lp_wf l) (lp_wf (loop_from e build job rm l steps))" for rm l
  proof (induction steps rule: rev_induct)
    case (snoc s xs)
    then show ?case using reconcileStep_grows grows_trans by fastforce
  qed simp
  from this [of "buildRunnerMap runners" "step_loop_init W w"] show ?thesis by (simp add: reconcileStepLoop_eq Let_def)
qed

section \<open>A pass\<close>

definition succeeded_names :: "Runner list \<Rightarrow> string set" where
  "succeeded_names rs = {n. \<exists>r \<in> set rs. stepOf r = Some n \<and> rn_Phase r = RunnerPhaseSucceeded}"

lemma grows_mono: "grows A W W' \<Longrightarrow> A \<subseteq> B \<Longrightarrow> grows B W W'"
  by (auto simp: grows_def)

lemma succeeded_runners_subset: "succeeded_runners (buildRunnerMap rs) \<subseteq> succeeded_names rs"
  using buildRunnerMap_Some by (fastforce simp: succeeded_runners_def succeeded_names_def)

lemma upsertJobStatus_grows: "grows A W (fst (upsertJobStatus e n p W w))"
  by (rule grows_same) (auto simp: upsertJobStatus_def split_beta split: option.split)

lemma runJob_grows: "grows (succeeded_names rs) W (fst (snd (runJob e i rs js W w)))"
proof -
  let ?job = "(job_at W i)\<lparr>js_Steps := topologicalSortSteps (js_Steps (job_at W i))\<rparr>"
  let ?u = "if map_option jst_Phase js \<noteq> Some JobPhaseRunning
      then upsertJobStatus e (js_Name (job_at W i)) JobPhaseRunning W w else (W, w)"
  let ?W = "(fst ?u)\<lparr>wf_Spec := (wf_Spec (fst ?u))\<lparr>wsp_Jobs := (wsp_Jobs (wf_Spec (fst ?u)))[i := ?job]\<rparr>\<rparr>"
  let ?rs = "filterRunnersByJob rs (js_Name (job_at W i))"
  let ?l = "reconcileJobSteps e ?job ?rs ?W (snd ?u)"
  have "grows (succeeded_names rs) W (fst ?u)" by (simp add: upsertJobStatus_grows)
  moreover have "grows (succeeded_names rs) (fst ?u) ?W" by (rule grows_same) simp_all
  moreover have "succeeded_names ?rs \<subseteq> succeeded_names rs" by (auto simp: succeeded_names_def filterRunnersByJob_def)
  then have "grows (succeeded_names rs) ?W (fst (snd ?l))"
    unfolding reconcileJobSteps_def
    by (intro grows_mono [OF reconcileStepLoop_grows order_trans [OF succeeded_runners_subset]])
  ultimately have all: "grows (succeeded_names rs) W (fst (snd ?l))" using grows_trans by blast
  let ?f = "job_flags (buildStepStatusMap (fst (snd ?l))) (js_Steps ?job)"
  have "fst (snd (runJob e i rs js W w)) = (if fst ?f
      then fst (upsertJobStatus e (js_Name ?job) (if snd ?f then JobPhaseFailed else JobPhaseSucceeded) (fst (snd ?l)) (snd (snd ?l)))
      else fst (snd ?l))"
    by (cases "map_option jst_Phase js = Some JobPhaseRunning")
       (simp_all add: runJob_def Let_def split_beta del: map_option_eq_Some)
  then show ?thesis using grows_trans [OF all upsertJobStatus_grows] all by simp
qed

lemma reconcileJob_grows: "grows (succeeded_names rs) W (fst (snd (reconcileJob e i rs m W w)))"
  by (auto simp: reconcileJob_def Let_def split_beta runJob_grows upsertJobStatus_grows split: jobDecision.split)

lemma reconcileJobs_grows: "grows (succeeded_names rs) W (fst (snd (reconcileJobs e rs u W w)))"
proof -
  have "grows (succeeded_names rs) W (fst (snd (foldl (\<lambda>(updated, W, w) i.
      let (jobUpdated, W, w) = reconcileJob e i rs m W w in (updated \<or> jobUpdated, W, w)) (u, W, w) is)))" for m "is"
  proof (induction "is" rule: rev_induct)
    case (snoc i "is")
    then show ?case using grows_trans [OF _ reconcileJob_grows] by (simp add: split_beta Let_def)
  qed simp
  then show ?thesis by (simp add: reconcileJobs_def Let_def)
qed

lemma runJob_written: "written (w_log (snd (snd (runJob e i rs js W w)))) = written (w_log w)"
proof -
  have "written (w_log (snd (snd (reconcileStepLoop e steps rs (buildJobStepRunner e job) n W w)))) = written (w_log w)" for steps rs job n W w
    using job_steps.loop_written [of e e job n "buildRunnerMap rs" "step_loop_init W w" steps]
    by (simp add: reconcileStepLoop_eq Let_def)
  then show ?thesis by (auto simp: runJob_def reconcileJobSteps_def Let_def split_beta)
qed

lemma reconcileJobs_written: "written (w_log (snd (snd (reconcileJobs e rs u W w)))) = written (w_log w)"
proof -
  have job: "written (w_log (snd (snd (reconcileJob e i rs m W w)))) = written (w_log w)" for i m W w
    by (auto simp: reconcileJob_def Let_def split_beta runJob_written split: jobDecision.split)
  have "written (w_log (snd (snd (foldl (\<lambda>(updated, W, w) i.
      let (jobUpdated, W, w) = reconcileJob e i rs m W w in (updated \<or> jobUpdated, W, w)) (u, W, w) is)))) = written (w_log w)" for m "is"
    by (induction "is" rule: rev_induct) (simp_all add: split_beta Let_def job)
  then show ?thesis by (simp add: reconcileJobs_def Let_def)
qed

text \<open>The Runners the pass is based on; what it may record as Succeeded.\<close>

definition seen_successes :: "env \<Rightarrow> Workflow \<Rightarrow> string set" where
  "seen_successes e W = {n. \<exists>v rs. listStepRunners e W v = Inr rs \<and> n \<in> succeeded_names rs}"

lemma finish_sound:
  assumes "W' \<in> set (written (w_log (snd (finishWorkflow e m base ph u V v))))" "written (w_log v) = []" "grows A W V"
  shows "grows A W W'"
proof -
  from finishWorkflow_written [of e m base ph u V v] assms(1,2)
  have "wf_StepStatuses W' = wf_StepStatuses V" "wf_Meta W' = wf_Meta V" by (auto simp: list_all_iff)
  then show ?thesis using grows_trans [OF assms(3) grows_same] by blast
qed

lemma report_sound:
  "W' \<in> set (written (w_log (snd (reportNotReady e reason msg res W v)))) \<Longrightarrow> written (w_log v) = [] \<Longrightarrow> grows A W W'"
  by (auto simp: reportNotReady_log intro!: grows_same)

lemma fail_steps_grows: "grows A W (fst (fail_steps e ns W w))"
proof (induction ns arbitrary: W w)
  case (Cons n ns)
  have "grows A W (fst (upsertStepStatus e n StepPhaseFailed W w))" by (rule grows_upsert) simp
  from grows_trans [OF this Cons.IH [of _ "snd (upsertStepStatus e n StepPhaseFailed W w)"]] show ?case by simp
qed simp

lemma fail_jobs_grows: "grows A (fst s) (fst (fail_jobs e jobs s))"
proof (induction jobs rule: rev_induct)
  case (snoc job jobs)
  then show ?case unfolding fail_jobs_snoc Let_def
    by (intro grows_trans [OF grows_trans [OF snoc upsertJobStatus_grows] fail_steps_grows])
qed (simp add: fail_jobs_def)

lemma timeout_sound:
  assumes "W' \<in> set (written (w_log (snd (failTimedOut e base V v))))" "written (w_log v) = []" "grows A W V"
  shows "grows A W W'"
  using assms failTimedOut_log [of e base V v] grows_trans [OF assms(3) grows_same] by auto

lemma guard_sound:
  assumes "W' \<in> set (written (w_log (snd (guardWorkflow e handleTimeout proceed W w))))" "written (w_log w) = []"
    and "\<And>v. W' \<in> set (written (w_log (snd (handleTimeout W v)))) \<Longrightarrow> written (w_log v) = [] \<Longrightarrow> grows {} W W'"
    and "\<And>rs v. W' \<in> set (written (w_log (snd (proceed rs W v)))) \<Longrightarrow> written (w_log v) = [] \<Longrightarrow> grows (succeeded_names rs) W W'"
  shows "grows (seen_successes e W) W W'"
proof -
  let ?v = "snd (timeoutElapsed e W w)"
  have log: "written (w_log ?v) = []" using assms(2) by (simp add: timeoutElapsed_def split_beta split: option.split)
  consider (timeout) "W' \<in> set (written (w_log (snd (handleTimeout W ?v))))"
    | (quota) reason msg res where "W' \<in> set (written (w_log (snd (reportNotReady e reason msg res W ?v))))"
    | (run) rs where "listStepRunners e W ?v = Inr rs" "W' \<in> set (written (w_log (snd (proceed rs W ?v))))"
    using assms(1) log by (auto simp: guardWorkflow_def split_beta split: if_splits sum.splits)
  then show ?thesis
  proof cases
    case timeout
    then show ?thesis using grows_mono [OF assms(3) [OF _ log]] by simp
  next
    case quota
    then show ?thesis using report_sound log by blast
  next
    case run
    have "succeeded_names rs \<subseteq> seen_successes e W" using run(1) by (auto simp: seen_successes_def)
    with grows_mono [OF assms(4) [OF run(2) log]] show ?thesis .
  qed
qed

lemma flat_sound:
  assumes "W' \<in> set (written (w_log (snd (reconcileFlatWorkflow e W w))))" "written (w_log w) = []"
  shows "grows (seen_successes e W) W W'"
proof (cases "wsp_Steps (wf_Spec W) = [] \<or> detectCycle (wsp_Steps (wf_Spec W)) \<noteq> []")
  case True
  with assms show ?thesis by (auto simp: reconcileFlatWorkflow_def Let_def intro: report_sound split: if_splits)
next
  case False
  show ?thesis
  proof (rule guard_sound [OF _ assms(2)])
    show "W' \<in> set (written (w_log (snd (guardWorkflow e (handleTimeoutFlat e) (runFlatWorkflow e) W w))))"
      using False assms(1) by (simp add: reconcileFlatWorkflow_def)
  next
    fix v
    assume "W' \<in> set (written (w_log (snd (handleTimeoutFlat e W v))))" "written (w_log v) = []"
    then show "grows {} W W'"
      by (auto simp: handleTimeoutFlat_def Let_def split_beta step_table.upsert_all_log
          intro: timeout_sound [OF _ _ fail_steps_grows])
  next
    fix rs v
    assume "W' \<in> set (written (w_log (snd (runFlatWorkflow e rs W v))))" "written (w_log v) = []"
    moreover have "grows (succeeded_names rs) W (prepared e W v)"
      by (rule grows_same) (simp_all add: prepared_def startWorkflow_facts)
    then have "grows (succeeded_names rs) W (fst (snd (reconcileSteps e rs (prepared e W v) u)))" for u
      unfolding reconcileSteps_def by (rule grows_trans) (rule grows_mono [OF reconcileStepLoop_grows succeeded_runners_subset])
    ultimately show "grows (succeeded_names rs) W W'"
      by (auto simp: runFlatWorkflow_eq Let_def reconcileSteps_written startWorkflow_facts(5) intro: finish_sound)
  qed
qed

lemma job_sound:
  assumes "W' \<in> set (written (w_log (snd (reconcileJobWorkflow e W w))))" "written (w_log w) = []"
  shows "grows (seen_successes e W) W W'"
proof (cases "wsp_Jobs (wf_Spec W) = [] \<or> detectJobCycle (wsp_Jobs (wf_Spec W)) \<noteq> []")
  case True
  with assms show ?thesis by (auto simp: reconcileJobWorkflow_def Let_def intro: report_sound split: if_splits)
next
  case False
  show ?thesis
  proof (rule guard_sound [OF _ assms(2)])
    show "W' \<in> set (written (w_log (snd (guardWorkflow e (handleTimeoutJobs e) (runJobWorkflow e) W w))))"
      using False assms(1) by (simp add: reconcileJobWorkflow_def)
  next
    fix v
    let ?s = "(W, emit (Event ''Warning'' ''TimedOut'' ''Workflow timed out'') v)"
    assume "W' \<in> set (written (w_log (snd (handleTimeoutJobs e W v))))" and log: "written (w_log v) = []"
    then have "W' \<in> set (written (w_log (snd (failTimedOut e W (fst (fail_jobs e (wsp_Jobs (wf_Spec W)) ?s)) (snd (fail_jobs e (wsp_Jobs (wf_Spec W)) ?s))))))"
      by (simp add: handleTimeoutJobs_def fail_jobs_def Let_def split_beta)
    then show "grows {} W W'"
      by (rule timeout_sound) (use fail_jobs_grows [of "{}" ?s] in \<open>simp_all add: fail_jobs_log log\<close>)
  next
    fix rs v
    let ?a = "startWorkflow e W v"
    assume "W' \<in> set (written (w_log (snd (runJobWorkflow e rs W v))))" "written (w_log v) = []"
    moreover have "grows (succeeded_names rs) W (fst (snd ?a))" by (rule grows_same) (simp_all add: startWorkflow_facts)
    then have "grows (succeeded_names rs) W (fst (snd (reconcileJobs e rs u (fst (snd ?a)) (snd (snd ?a)))))" for u
      using grows_trans [OF _ reconcileJobs_grows] by blast
    ultimately show "grows (succeeded_names rs) W W'"
      by (auto simp: runJobWorkflow_def Let_def split_beta reconcileJobs_written startWorkflow_facts(5) intro: finish_sound)
  qed
qed

lemma Reconcile_Workflow_sound:
  assumes "W' \<in> set (written (w_log (snd (Reconcile_Workflow e req w))))" "written (w_log w) = []"
  obtains W where "e_GetWorkflow e w req = Inr W" "grows (seen_successes e W) W W'"
  using assms flat_sound job_sound by (auto simp: Reconcile_Workflow_def split: sum.splits if_splits)

section \<open>What a pass over a Runner may record as Succeeded\<close>

lemma Reconcile_Runner_sound:
  assumes "(b, r') \<in> set (runner_patches (w_log (snd (Reconcile_Runner e req w))))" "runner_patches (w_log w) = []"
  obtains r where "e_GetRunner e w req = Inr r" "rn_Meta r' = rn_Meta r"
    "rn_Phase r' = RunnerPhaseSucceeded \<Longrightarrow> rn_Phase r = RunnerPhaseSucceeded \<or>
       (\<exists>job. e_GetJob e w \<lparr>nn_Namespace = rn_Namespace r, nn_Name = rn_Name r @ ''-job''\<rparr> = Inr job \<and>
         phase_of_job job = RunnerPhaseSucceeded)"
proof -
  obtain r where r: "e_GetRunner e w req = Inr r" using assms by (cases "e_GetRunner e w req") (auto simp: Reconcile_Runner_def)
  let ?key = "\<lparr>nn_Namespace = rn_Namespace r, nn_Name = rn_Name r @ ''-job''\<rparr>"
  have reject: "(b, r') \<in> set (runner_patches (w_log (snd (rejectRunner e h msg r w)))) \<Longrightarrow> rn_Meta r' = rn_Meta r \<and> rn_Phase r' \<noteq> RunnerPhaseSucceeded" for h msg
    using assms(2) by (auto simp: rejectRunner_def do_request_defs Let_def split_beta split: sum.splits)
  have start: "(b, r') \<in> set (runner_patches (w_log (snd (startRunner e h n r w)))) \<Longrightarrow> rn_Meta r' = rn_Meta r \<and> rn_Phase r' \<noteq> RunnerPhaseSucceeded" for h n
    using assms(2) by (auto simp: startRunner_def do_request_defs Let_def split_beta split: sum.splits option.splits apierr.splits)
  have drift: "(b, r') \<in> set (runner_patches (w_log (snd (handleDrift e h job r w)))) \<Longrightarrow> rn_Meta r' = rn_Meta r \<and> rn_Phase r' = rn_Phase r" for h job
    using assms(2) by (auto simp: handleDrift_def deferDrift_def clearDrift_def replaceJob_def do_request_defs Let_def split_beta
        split: sum.splits option.splits if_splits)
  have follow: "(b, r') \<in> set (runner_patches (w_log (snd (updateStatusFromJob e r job w)))) \<Longrightarrow> rn_Meta r' = rn_Meta r \<and> rn_Phase r' = phase_of_job job" for job
  proof -
    assume p: "(b, r') \<in> set (runner_patches (w_log (snd (updateStatusFromJob e r job w))))"
    obtain st ct where obs: "observeJob job = (phase_of_job job, st, ct)" using observeJob_phase [of job] by (metis prod.collapse)
    then have "\<not> upToDate (phase_of_job job) st ct r" using p assms(2) by (auto simp: updateStatusFromJob_def)
    then obtain r1 w1 pre where "updateStatusFromJob e r job w =
        patchRunner e r (fst (reportPhase e (phase_of_job job) r1 w1)) (snd (reportPhase e (phase_of_job job) r1 w1))"
      "w_log w1 = w_log w @ pre" "runner_patches pre = []" "rn_Meta r1 = rn_Meta r" "rn_Phase r1 = phase_of_job job"
      using updateStatusFromJob_step [OF obs, where e = e and w = w] by blast
    with p assms(2) show ?thesis by (auto simp: reportPhase_frame)
  qed
  show ?thesis
    using assms r reject start drift follow
    by (intro that [OF r]) (auto simp: Reconcile_Runner_def Let_def split: if_splits sum.splits apierr.splits option.splits)
qed

section \<open>The system\<close>

text \<open>
  The objects the API server has held so far.  Passes of both controllers and changes by others
  happen in any order; each adds a version.
\<close>

record History =
  hi_workflows :: "Workflow set"
  hi_runners :: "Runner set"
  hi_jobs :: "BatchJob set"

text \<open>
  The documented contract of the client's reads, whose cache may lag behind: a Get returns a version
  of the object of that name, a List versions of objects of that namespace with these labels.
\<close>

definition reads_from :: "History \<Rightarrow> env \<Rightarrow> bool" where
  "reads_from H e \<longleftrightarrow>
     (\<forall>w nn W. e_GetWorkflow e w nn = Inr W \<longrightarrow> W \<in> hi_workflows H) \<and>
     (\<forall>w nn r. e_GetRunner e w nn = Inr r \<longrightarrow> r \<in> hi_runners H) \<and>
     (\<forall>w nn j. e_GetJob e w nn = Inr j \<longrightarrow> j \<in> hi_jobs H \<and> om_Namespace (bj_Meta j) = nn_Namespace nn \<and> om_Name (bj_Meta j) = nn_Name nn) \<and>
     (\<forall>w ns labels rs. e_ListRunners e w ns labels = Inr rs \<longrightarrow>
        (\<forall>r \<in> set rs. r \<in> hi_runners H \<and> rn_Namespace r = ns \<and> (\<forall>(k, v) \<in> set labels. map_of (om_Labels (rn_Meta r)) k = Some v)))"

definition same_workflow :: "Workflow \<Rightarrow> Workflow \<Rightarrow> bool" where
  "same_workflow W V \<longleftrightarrow> wf_Name W = wf_Name V \<and> wf_Namespace W = wf_Namespace V"

definition same_runner :: "Runner \<Rightarrow> Runner \<Rightarrow> bool" where
  "same_runner r v \<longleftrightarrow> rn_Name r = rn_Name v \<and> rn_Namespace r = rn_Namespace v"

text \<open>
  A merge patch replaces a field or leaves it as it is stored, and it replaces a list as a whole.
  Without the status subresource a status cannot be changed, so edits and new objects bring no
  phases of their own.
\<close>

inductive operator_run :: "History \<Rightarrow> bool" where
  start: "operator_run \<lparr>hi_workflows = {}, hi_runners = {}, hi_jobs = {}\<rparr>"
| job: "operator_run H \<Longrightarrow> operator_run (H\<lparr>hi_jobs := insert j (hi_jobs H)\<rparr>)"
| edit_runner: "\<lbrakk>operator_run H; rn_Phase V = RunnerPhaseUnset \<or> (\<exists>r \<in> hi_runners H. same_runner r V \<and> rn_Phase V = rn_Phase r)\<rbrakk>
    \<Longrightarrow> operator_run (H\<lparr>hi_runners := insert V (hi_runners H)\<rparr>)"
| edit_workflow: "\<lbrakk>operator_run H; wf_StepStatuses V = [] \<or> (\<exists>W \<in> hi_workflows H. same_workflow W V \<and> wf_StepStatuses V = wf_StepStatuses W)\<rbrakk>
    \<Longrightarrow> operator_run (H\<lparr>hi_workflows := insert V (hi_workflows H)\<rparr>)"
| runner_pass: "\<lbrakk>operator_run H; reads_from H e; w_log w = [];
      (b, r') \<in> set (runner_patches (w_log (snd (Reconcile_Runner e req w)))); r \<in> hi_runners H; same_runner r r'; same_runner r' V;
      rn_Phase V = rn_Phase r \<or> rn_Phase V = rn_Phase r'\<rbrakk>
    \<Longrightarrow> operator_run (H\<lparr>hi_runners := insert V (hi_runners H)\<rparr>)"
| workflow_pass: "\<lbrakk>operator_run H; reads_from H e; w_log w = [];
      W' \<in> set (written (w_log (snd (Reconcile_Workflow e req w)))); W \<in> hi_workflows H; same_workflow W W'; same_workflow W' V;
      wf_StepStatuses V = wf_StepStatuses W \<or> wf_StepStatuses V = wf_StepStatuses W'\<rbrakk>
    \<Longrightarrow> operator_run (H\<lparr>hi_workflows := insert V (hi_workflows H)\<rparr>)"

definition job_done :: "History \<Rightarrow> Runner \<Rightarrow> bool" where
  "job_done H r \<longleftrightarrow> (\<exists>j \<in> hi_jobs H. om_Namespace (bj_Meta j) = rn_Namespace r \<and> om_Name (bj_Meta j) = rn_Name r @ ''-job'' \<and>
     phase_of_job j = RunnerPhaseSucceeded)"

definition step_done :: "History \<Rightarrow> Workflow \<Rightarrow> string \<Rightarrow> bool" where
  "step_done H W n \<longleftrightarrow> (\<exists>r \<in> hi_runners H. stepOf r = Some n \<and> map_of (om_Labels (rn_Meta r)) workflow_label = Some (wf_Name W) \<and>
     rn_Namespace r = wf_Namespace W \<and> job_done H r)"

definition sound :: "History \<Rightarrow> bool" where
  "sound H \<longleftrightarrow> (\<forall>r \<in> hi_runners H. rn_Phase r = RunnerPhaseSucceeded \<longrightarrow> job_done H r) \<and>
     (\<forall>W \<in> hi_workflows H. \<forall>n \<in> succeeded W. step_done H W n)"

text \<open>More versions do not invalidate what is known; what matters of an object is its name.\<close>

lemma done_grows:
  assumes "hi_runners H \<subseteq> hi_runners H'" "hi_jobs H \<subseteq> hi_jobs H'"
  shows "job_done H r \<Longrightarrow> job_done H' r" "step_done H W n \<Longrightarrow> step_done H' W n"
  using assms by (auto simp: step_done_def job_done_def)

lemma done_same:
  "same_runner r v \<Longrightarrow> job_done H r \<longleftrightarrow> job_done H v" "same_workflow W V \<Longrightarrow> step_done H W n \<longleftrightarrow> step_done H V n"
  by (simp_all add: same_runner_def job_done_def same_workflow_def step_done_def)

lemma sound_runner:
  assumes "sound H" "rn_Phase V = RunnerPhaseSucceeded \<Longrightarrow> job_done H V"
  shows "sound (H\<lparr>hi_runners := insert V (hi_runners H)\<rparr>)"
proof -
  let ?H = "H\<lparr>hi_runners := insert V (hi_runners H)\<rparr>"
  have "hi_runners H \<subseteq> hi_runners ?H" "hi_jobs H \<subseteq> hi_jobs ?H" by auto
  note grow = done_grows [OF this]
  show ?thesis using assms unfolding sound_def by (auto intro: grow)
qed

lemma sound_workflow:
  assumes "sound H" "\<And>n. n \<in> succeeded V \<Longrightarrow> step_done H V n"
  shows "sound (H\<lparr>hi_workflows := insert V (hi_workflows H)\<rparr>)"
proof -
  let ?H = "H\<lparr>hi_workflows := insert V (hi_workflows H)\<rparr>"
  have "hi_runners H \<subseteq> hi_runners ?H" "hi_jobs H \<subseteq> hi_jobs ?H" by auto
  note grow = done_grows [OF this]
  show ?thesis using assms unfolding sound_def by (auto intro: grow)
qed

lemma seen_done:
  assumes "sound H" "reads_from H e" "n \<in> seen_successes e W"
  shows "step_done H W n"
proof -
  obtain v rs r where "listStepRunners e W v = Inr rs" "r \<in> set rs" "stepOf r = Some n" "rn_Phase r = RunnerPhaseSucceeded"
    using assms(3) by (auto simp: seen_successes_def succeeded_names_def)
  moreover from this assms(2) have "r \<in> hi_runners H \<and> rn_Namespace r = wf_Namespace W \<and>
      map_of (om_Labels (rn_Meta r)) workflow_label = Some (wf_Name W)"
    unfolding listStepRunners_def reads_from_def by fastforce
  ultimately show ?thesis using assms(1) unfolding sound_def step_done_def by blast
qed

lemma operator_run_sound: "operator_run H \<Longrightarrow> sound H"
proof (induction rule: operator_run.induct)
  case start
  show ?case by (simp add: sound_def)
next
  case (job H j)
  let ?H = "H\<lparr>hi_jobs := insert j (hi_jobs H)\<rparr>"
  have "hi_runners H \<subseteq> hi_runners ?H" "hi_jobs H \<subseteq> hi_jobs ?H" by auto
  note grow = done_grows [OF this]
  from job show ?case unfolding sound_def by (auto intro: grow)
next
  case (edit_runner H V)
  then show ?case using done_same(1) by (intro sound_runner) (auto simp: sound_def)
next
  case (edit_workflow H V)
  then show ?case using done_same(2) by (intro sound_workflow) (auto simp: sound_def succeeded_def)
next
  case (runner_pass H e w b r' req r V)
  have "runner_patches (w_log w) = []" using runner_pass by simp
  then obtain r0 where r0: "e_GetRunner e w req = Inr r0" "rn_Meta r' = rn_Meta r0"
    "rn_Phase r' = RunnerPhaseSucceeded \<longrightarrow> rn_Phase r0 = RunnerPhaseSucceeded \<or>
       (\<exists>job. e_GetJob e w \<lparr>nn_Namespace = rn_Namespace r0, nn_Name = rn_Name r0 @ ''-job''\<rparr> = Inr job \<and>
         phase_of_job job = RunnerPhaseSucceeded)"
    using Reconcile_Runner_sound [OF runner_pass.hyps(4)] by blast
  have "r0 \<in> hi_runners H" using r0(1) runner_pass.hyps(2) by (auto simp: reads_from_def)
  then have old: "rn_Phase r0 = RunnerPhaseSucceeded \<Longrightarrow> job_done H r0" "rn_Phase r = RunnerPhaseSucceeded \<Longrightarrow> job_done H r"
    using runner_pass.IH runner_pass.hyps(5) unfolding sound_def by blast+
  have read: "job_done H r0" if "e_GetJob e w \<lparr>nn_Namespace = rn_Namespace r0, nn_Name = rn_Name r0 @ ''-job''\<rparr> = Inr job"
    "phase_of_job job = RunnerPhaseSucceeded" for job
    using that runner_pass.hyps(2) unfolding reads_from_def job_done_def by fastforce
  have "same_runner r0 r'" using r0(2) by (simp add: same_runner_def)
  with r0(3) old(1) read have "rn_Phase r' = RunnerPhaseSucceeded \<Longrightarrow> job_done H r'" using done_same(1) by blast
  then show ?case using runner_pass old(2) done_same(1) by (intro sound_runner) metis+
next
  case (workflow_pass H e w W' req W V)
  have "written (w_log w) = []" using workflow_pass by simp
  with workflow_pass.hyps(4) obtain W0 where W0: "e_GetWorkflow e w req = Inr W0" "grows (seen_successes e W0) W0 W'"
    by (rule Reconcile_Workflow_sound)
  have "W0 \<in> hi_workflows H" using W0(1) workflow_pass.hyps(2) by (auto simp: reads_from_def)
  then have old: "n \<in> succeeded W0 \<Longrightarrow> step_done H W0 n" "n \<in> succeeded W \<Longrightarrow> step_done H W n" for n
    using workflow_pass.IH workflow_pass.hyps(5) unfolding sound_def by blast+
  have "same_workflow W0 W'" using W0(2) by (simp add: same_workflow_def grows_def)
  with W0(2) old(1) seen_done [OF workflow_pass.IH workflow_pass.hyps(2)]
  have new: "n \<in> succeeded W' \<Longrightarrow> step_done H W' n" for n using done_same(2) unfolding grows_def by blast
  have "step_done H V n" if "n \<in> succeeded V" for n
    using workflow_pass.hyps(8)
  proof
    assume "wf_StepStatuses V = wf_StepStatuses W"
    then have "step_done H W n" using old(2) that by (simp add: succeeded_def)
    then show ?thesis using workflow_pass.hyps(6,7) done_same(2) by blast
  next
    assume "wf_StepStatuses V = wf_StepStatuses W'"
    then have "step_done H W' n" using new that by (simp add: succeeded_def)
    then show ?thesis using workflow_pass.hyps(7) done_same(2) by blast
  qed
  then show ?case using workflow_pass.IH by (intro sound_workflow)
qed

text \<open>
  C1. No false success, across both controllers: whatever the order of passes of the Workflow and
  Runner controllers, edits by users and changes of Jobs, and however stale the objects a pass has
  read, a step that is recorded as Succeeded in any version of a Workflow has a Runner, in the
  Workflow's namespace and labelled with the Workflow and the step, whose Job was complete: its
  last true condition of type Complete or Failed was Complete.
\<close>

theorem no_false_success:
  assumes "operator_run H" "W \<in> hi_workflows H" "s \<in> set (wf_StepStatuses W)" "ss_Phase s = StepPhaseSucceeded"
  shows "\<exists>r \<in> hi_runners H. \<exists>j \<in> hi_jobs H.
    map_of (om_Labels (rn_Meta r)) step_label = Some (ss_Name s) \<and>
    map_of (om_Labels (rn_Meta r)) workflow_label = Some (wf_Name W) \<and> rn_Namespace r = wf_Namespace W \<and>
    om_Namespace (bj_Meta j) = rn_Namespace r \<and> om_Name (bj_Meta j) = rn_Name r @ ''-job'' \<and>
    (let done = filter (\<lambda>c. jc_Status c = ConditionTrue \<and> jc_Type c \<in> {JobComplete, JobFailed}) (bj_Conditions j)
     in done \<noteq> [] \<and> jc_Type (last done) = JobComplete)"
proof -
  have "ss_Name s \<in> succeeded W" using assms(3,4) by (auto simp: succeeded_def)
  with operator_run_sound [OF assms(1)] assms(2) have "step_done H W (ss_Name s)" by (auto simp: sound_def)
  then obtain r j where "r \<in> hi_runners H" "j \<in> hi_jobs H" "stepOf r = Some (ss_Name s)"
    "map_of (om_Labels (rn_Meta r)) workflow_label = Some (wf_Name W)" "rn_Namespace r = wf_Namespace W"
    "om_Namespace (bj_Meta j) = rn_Namespace r" "om_Name (bj_Meta j) = rn_Name r @ ''-job''" "phase_of_job j = RunnerPhaseSucceeded"
    by (auto simp: step_done_def job_done_def)
  moreover from this(8) have "outcomes j \<noteq> [] \<and> jc_Type (last (outcomes j)) = JobComplete"
    by (auto simp: phase_of_job_def split: if_splits)
  ultimately show ?thesis unfolding outcomes_def stepOf_def by (intro bexI [of _ r] bexI [of _ j]) (simp_all add: Let_def)
qed

text \<open>A Workflow of one step, its Runner before and after the pass that sees the complete Job.\<close>

definition done_runner :: "string \<Rightarrow> RunnerPhase \<Rightarrow> Runner" where
  "done_runner hash p =
     \<lparr>rn_Meta = zero_ObjectMeta\<lparr>om_Name := ''build-a'', om_Namespace := ''ci'',
        om_Labels := [(step_label, ''a''), (workflow_label, ''build'')]\<rparr>,
      rn_Spec = zero_RunnerSpec,
      rn_Status = zero_RunnerStatus\<lparr>rst_Phase := p, rst_ResourceHash := hash\<rparr>\<rparr>"

definition done_hash :: string where
  "done_hash = EncodeToString (take 8 (Sum256 []))"

definition done_job :: BatchJob where
  "done_job = (buildJob (done_runner [] RunnerPhaseUnset) ''build-a-job'' [])\<lparr>
     bj_Conditions := [\<lparr>jc_Type = JobComplete, jc_Status = ConditionTrue\<rparr>]\<rparr>"

definition done_env :: "Runner \<Rightarrow> Runner list \<Rightarrow> env" where
  "done_env r rs = sample_env\<lparr>
     e_GetWorkflow := \<lambda>w nn. Inr (sample_workflow [zero_WorkflowStep\<lparr>st_Name := ''a''\<rparr>] []),
     e_GetRunner := \<lambda>w nn. Inr r,
     e_GetJob := \<lambda>w nn. if nn = \<lparr>nn_Namespace = ''ci'', nn_Name = ''build-a-job''\<rparr> then Inr done_job else Inl (NotFound ''job''),
     e_ListRunners := \<lambda>w ns labels. if ns = ''ci'' \<and> labels = [(workflow_label, ''build'')] then Inr rs else Inr []\<rparr>"

lemma done_runner_pass:
  fixes nn rs
  defines "E \<equiv> done_env (done_runner done_hash RunnerPhaseUnset) rs"
  shows "\<exists>b r'. (b, r') \<in> set (runner_patches (w_log (snd (Reconcile_Runner E nn sample_world)))) \<and>
     rn_Meta r' = rn_Meta (done_runner done_hash RunnerPhaseUnset) \<and> rn_Phase r' = RunnerPhaseSucceeded"
proof -
  let ?r = "done_runner done_hash RunnerPhaseUnset"
  have obs: "observeJob done_job = (RunnerPhaseSucceeded, None, None)"
    by (simp add: observeJob_def scanConditions_def done_job_def buildJob_def Let_def split_beta)
  have up: "\<not> upToDate RunnerPhaseSucceeded None None ?r" by (simp add: upToDate_def done_runner_def)
  obtain r1 w1 pre where u: "updateStatusFromJob E ?r done_job sample_world =
      patchRunner E ?r (fst (reportPhase E RunnerPhaseSucceeded r1 w1)) (snd (reportPhase E RunnerPhaseSucceeded r1 w1))"
    "rn_Meta r1 = rn_Meta ?r" "rn_Phase r1 = RunnerPhaseSucceeded"
    using updateStatusFromJob_step [OF obs up, where e = E and w = sample_world] by blast
  have "computeSpecHash E (rn_Spec ?r) = Inr (done_hash)"
    by (simp add: computeSpecHash_def E_def done_env_def done_hash_def sample_env_def done_runner_def zero_RunnerSpec_def)
  moreover have "e_GetRunner E sample_world nn = Inr ?r" "om_DeletionTimestamp (rn_Meta ?r) = None"
    "e_GetJob E sample_world \<lparr>nn_Namespace = rn_Namespace ?r, nn_Name = rn_Name ?r @ ''-job''\<rparr> = Inr done_job"
    "rst_ResourceHash (rn_Status ?r) = done_hash" "rst_DesiredSpecHash (rn_Status ?r) = []"
    by (simp_all add: E_def done_env_def done_runner_def zero_ObjectMeta_def zero_RunnerStatus_def)
  ultimately have "Reconcile_Runner E nn sample_world = updateStatusFromJob E ?r done_job sample_world"
    by (simp add: Reconcile_Runner_cases)
  then show ?thesis using u
    by (intro exI [of _ ?r] exI [of _ "fst (reportPhase E RunnerPhaseSucceeded r1 w1)"]) (simp add: reportPhase_frame)
qed

lemma done_reads:
  assumes "set rs \<subseteq> hi_runners H" "\<forall>r \<in> set rs. rn_Meta r = rn_Meta (done_runner [] RunnerPhaseUnset)"
    and "sample_workflow [zero_WorkflowStep\<lparr>st_Name := ''a''\<rparr>] [] \<in> hi_workflows H" "r0 \<in> hi_runners H"
    and "done_job \<in> hi_jobs H"
  shows "reads_from H (done_env r0 rs)"
proof -
  have "om_Namespace (bj_Meta done_job) = ''ci''" "om_Name (bj_Meta done_job) = ''build-a-job''"
    by (simp_all add: done_job_def buildJob_def Let_def split_beta done_runner_def zero_ObjectMeta_def)
  moreover have "rn_Namespace r = ''ci'' \<and> map_of (om_Labels (rn_Meta r)) workflow_label = Some ''build''" if "r \<in> set rs" for r
    using assms(2) that by (simp add: done_runner_def)
  ultimately show ?thesis
    using assms unfolding reads_from_def by (auto simp: done_env_def split: if_splits)
qed

theorem no_false_success_witness:
  "\<exists>H W s r j. operator_run H \<and> W \<in> hi_workflows H \<and> s \<in> set (wf_StepStatuses W) \<and> ss_Phase s = StepPhaseSucceeded \<and>
     r \<in> hi_runners H \<and> j \<in> hi_jobs H \<and> map_of (om_Labels (rn_Meta r)) step_label = Some (ss_Name s) \<and>
     om_Name (bj_Meta j) = rn_Name r @ ''-job''"
proof -
  let ?W = "sample_workflow [zero_WorkflowStep\<lparr>st_Name := ''a''\<rparr>] []"
  let ?r = "done_runner done_hash RunnerPhaseUnset" and ?r2 = "done_runner [] RunnerPhaseSucceeded"
  let ?H = "\<lparr>hi_workflows = {?W}, hi_runners = {?r}, hi_jobs = {done_job}\<rparr>"
  let ?H2 = "\<lparr>hi_workflows = {?W}, hi_runners = {?r2, ?r}, hi_jobs = {done_job}\<rparr>"
  let ?req = "\<lparr>nn_Namespace = ''ci'', nn_Name = ''build''\<rparr>"
  have log: "w_log sample_world = []" by (simp add: sample_world_def)
  have H: "operator_run ?H"
    using operator_run.edit_workflow [OF operator_run.edit_runner [OF operator_run.job [OF operator_run.start, of done_job], of ?r], of ?W]
    by (simp add: done_runner_def sample_workflow_def zero_WorkflowStatus_def)
  obtain b r' where p: "(b, r') \<in> set (runner_patches (w_log (snd (Reconcile_Runner (done_env ?r []) ?req sample_world))))"
    "rn_Meta r' = rn_Meta ?r" "rn_Phase r' = RunnerPhaseSucceeded"
    using done_runner_pass by blast
  have "same_runner ?r r'" "same_runner r' ?r2" "rn_Phase ?r2 = rn_Phase r'"
    using p by (simp_all add: same_runner_def done_runner_def)
  from operator_run.runner_pass [OF H done_reads log p(1) _ this(1,2) disjI2 [OF this(3)]]
  have H2: "operator_run ?H2" by simp
  have reads: "reads_from ?H2 (done_env ?r2 [?r2])" by (rule done_reads) (simp_all add: done_runner_def)
  define ws where "ws = written (w_log (snd (Reconcile_Workflow (done_env ?r2 [?r2]) ?req sample_world)))"
  define W' where "W' = hd ws"
  have "list_all (\<lambda>W'. map (\<lambda>s. (ss_Name s, ss_Phase s)) (wf_StepStatuses W') = [(''a'', StepPhaseSucceeded)]) ws \<and> ws \<noteq> []"
    unfolding ws_def by code_simp
  then have "W' \<in> set ws \<and> map (\<lambda>s. (ss_Name s, ss_Phase s)) (wf_StepStatuses W') = [(''a'', StepPhaseSucceeded)]"
    by (simp add: list_all_iff W'_def)
  then have W': "W' \<in> set (written (w_log (snd (Reconcile_Workflow (done_env ?r2 [?r2]) ?req sample_world))))"
    "map (\<lambda>s. (ss_Name s, ss_Phase s)) (wf_StepStatuses W') = [(''a'', StepPhaseSucceeded)]"
    unfolding ws_def by blast+
  obtain W0 where "e_GetWorkflow (done_env ?r2 [?r2]) sample_world ?req = Inr W0" "grows (seen_successes (done_env ?r2 [?r2]) W0) W0 W'"
    by (rule Reconcile_Workflow_sound [OF W'(1)]) (simp_all add: sample_world_def)
  then have "same_workflow ?W W'" by (simp add: done_env_def same_workflow_def grows_def)
  define H3 where "H3 = ?H2\<lparr>hi_workflows := insert W' (hi_workflows ?H2)\<rparr>"
  from operator_run.workflow_pass [OF H2 reads log W'(1) _ \<open>same_workflow ?W W'\<close>, of W']
  have run: "operator_run H3" by (simp add: same_workflow_def H3_def)
  have mem: "W' \<in> hi_workflows H3" by (simp add: H3_def)
  obtain s where s: "s \<in> set (wf_StepStatuses W')" "ss_Phase s = StepPhaseSucceeded" using W'(2) by (auto simp: map_eq_Cons_conv)
  from no_false_success [OF run mem s] obtain r j where "r \<in> hi_runners H3" "j \<in> hi_jobs H3"
    "map_of (om_Labels (rn_Meta r)) step_label = Some (ss_Name s)" "om_Name (bj_Meta j) = rn_Name r @ ''-job''"
    by blast
  with run mem s show ?thesis by blast
qed

end
