(* ===== verification/Workflow_Progress.thy ===== *)
theory Workflow_Progress
  imports Operator_Run
begin

text \<open>
  That Workflows finish.  A pass of the controller only starts or records something if the cluster
  does its part: the API server accepts the requests and the Runners do not fail.  Under this
  condition every pass that finds its Runners finished brings the Workflow nearer to its end, and
  the number of such passes it needs is bounded by the number of its steps.
\<close>

section \<open>Healthy Workflows\<close>

text \<open>No step has failed or been skipped, and none has a status without a phase.\<close>

definition healthy :: "Workflow \<Rightarrow> bool" where
  "healthy W \<longleftrightarrow> list_all (\<lambda>s. ss_Phase s \<in> {StepPhasePending, StepPhaseWaiting, StepPhaseRunning, StepPhaseSucceeded}) (wf_StepStatuses W)"

definition unconditional :: "WorkflowStep \<Rightarrow> bool" where
  "unconditional s \<longleftrightarrow> TrimSpace (st_When s) \<noteq> ''on_failure''"

lemma healthy_update_first:
  assumes "healthy W" "\<And>s. P s \<Longrightarrow> ss_Phase (f s) \<in> {ss_Phase s, StepPhasePending, StepPhaseWaiting, StepPhaseRunning, StepPhaseSucceeded}"
  shows "healthy (wf_setStatus (wst_StepStatuses_update (update_first P f)) W)"
  using assms(1) set_update_first [of P f "wf_StepStatuses W"] assms(2)
  by (fastforce simp: healthy_def list_all_iff)

lemma healthy_append:
  "healthy W \<Longrightarrow> ss_Phase s \<in> {StepPhasePending, StepPhaseWaiting, StepPhaseRunning, StepPhaseSucceeded} \<Longrightarrow>
   healthy (wf_setStatus (wst_StepStatuses_update (\<lambda>ss. ss @ [s])) W)"
  by (simp add: healthy_def)

lemma healthy_upsert:
  assumes "healthy W" "p \<in> {StepPhasePending, StepPhaseWaiting, StepPhaseRunning, StepPhaseSucceeded}"
  shows "healthy (fst (upsertStepStatus e n p W w))"
  using assms
  by (auto simp: upsertStepStatus_def split_beta newStepStatus_def advanceStepStatus_def Let_def
      intro!: healthy_append healthy_update_first split: option.split)

lemma healthy_lookup:
  assumes "healthy W" "map_of (buildStepStatusMap W) n = Some s"
  shows "ss_Phase s \<in> {StepPhasePending, StepPhaseWaiting, StepPhaseRunning, StepPhaseSucceeded}"
proof -
  have "find (\<lambda>s. ss_Name s = n) (rev (wf_StepStatuses W)) = Some s"
    using assms(2) by (simp add: buildStepStatusMap_def map_of_index_by)
  then have "s \<in> set (wf_StepStatuses W)" by (auto dest!: find_SomeD)
  then show ?thesis using assms(1) unfolding healthy_def list_all_iff by blast
qed

definition has_succeeded :: "Workflow \<Rightarrow> string \<Rightarrow> bool" where
  "has_succeeded W n \<longleftrightarrow> map_option ss_Phase (map_of (buildStepStatusMap W) n) = Some StepPhaseSucceeded"

lemma healthy_terminal: "healthy W \<Longrightarrow> terminalStep (map_of (buildStepStatusMap W) n) \<longleftrightarrow> has_succeeded W n"
  using healthy_lookup [of W n] by (cases "map_of (buildStepStatusMap W) n") (auto simp: terminalStep_def has_succeeded_def)

text \<open>In a healthy Workflow, a step waits until all its dependencies have succeeded, and then runs.\<close>

lemma evaluateStep_healthy:
  assumes "healthy W" "unconditional s"
  shows "evaluateStep s (buildStepStatusMap W) = (if \<forall>d \<in> set (st_DependsOn s). has_succeeded W d then stepRun else stepWait)"
proof (cases "\<forall>d \<in> set (st_DependsOn s). has_succeeded W d")
  case True
  then have "\<exists>x. map_of (buildStepStatusMap W) d = Some x \<and> ss_Phase x = StepPhaseSucceeded" if "d \<in> set (st_DependsOn s)" for d
    using that by (auto simp: has_succeeded_def)
  then show ?thesis using True assms(2)
    by (fastforce simp: evaluateStep_def Let_def list_ex_iff list_all_iff unconditional_def defaultWhen_def)
next
  case False
  then obtain d where d: "d \<in> set (st_DependsOn s)" "\<not> has_succeeded W d" by blast
  then have "case map_of (buildStepStatusMap W) d of None \<Rightarrow> True | Some status \<Rightarrow> ss_Phase status = StepPhasePending \<or>
      ss_Phase status = StepPhaseRunning \<or> ss_Phase status = StepPhaseWaiting"
    using healthy_lookup [OF assms(1), of d] by (auto simp: has_succeeded_def split: option.split)
  then have "list_ex (\<lambda>dep. case map_of (buildStepStatusMap W) dep of None \<Rightarrow> True
      | Some status \<Rightarrow> ss_Phase status = StepPhasePending \<or> ss_Phase status = StepPhaseRunning \<or> ss_Phase status = StepPhaseWaiting) (st_DependsOn s)"
    using d(1) by (auto simp: list_ex_iff)
  then show ?thesis using False by (simp add: evaluateStep_def)
qed

lemma runnerPhase_healthy:
  "p \<noteq> RunnerPhaseFailed \<Longrightarrow> runnerPhaseToStepPhase p \<in> {StepPhasePending, StepPhaseWaiting, StepPhaseRunning, StepPhaseSucceeded}"
  by (cases p) auto

section \<open>One pass\<close>

lemma reconcileStep_healthy:
  assumes "healthy (lp_wf l)" "in_sync l" "unconditional step" "\<And>n r. map_of rm n = Some r \<Longrightarrow> rn_Phase r \<noteq> RunnerPhaseFailed"
  shows "healthy (lp_wf (reconcileStep e build job rm step l))"
proof -
  have start: "healthy (lp_wf (startStep e build job step l))"
    using assms(1) by (auto simp: startStep_def Let_def split_beta do_request_defs intro!: healthy_update_first healthy_upsert split: sum.split)
  have track: "healthy (lp_wf (trackStep e job step st r l))" if r: "map_of rm (st_Name step) = Some r" for st r
  proof -
    have nf: "runnerPhaseToStepPhase (rn_Phase r) \<noteq> StepPhaseFailed" using assms(4) [OF r] by (simp add: runnerPhaseToStepPhase_Failed)
    then have "healthy (lp_wf (recordStep e step (runnerPhaseToStepPhase (rn_Phase r)) r l))"
      using healthy_upsert [OF assms(1) runnerPhase_healthy [OF assms(4) [OF r]]] by (simp add: recordStep_def Let_def split_beta)
    then show ?thesis using assms(1) nf by (auto simp: trackStep_def Let_def split: option.split)
  qed
  have "evaluateStep step (lp_stepStatusMap l) \<noteq> stepSkip"
    using evaluateStep_healthy [OF assms(1,3)] assms(2) by (simp add: in_sync_def)
  then show ?thesis using assms(1) start track
    by (auto simp: reconcileStep_def Let_def appendStepStatus_def zero_StepStatus_def intro!: healthy_append split: stepDecision.split option.split)
qed

lemma loop_healthy:
  assumes "healthy (lp_wf l)" "in_sync l" "list_all unconditional steps" "\<And>n r. map_of rm n = Some r \<Longrightarrow> rn_Phase r \<noteq> RunnerPhaseFailed"
  shows "healthy (lp_wf (loop_from e build job rm l steps))"
  using assms(3)
proof (induction steps rule: rev_induct)
  case (snoc s xs)
  then show ?case using reconcileStep_healthy [OF _ loop_in_sync [OF assms(2)] _ assms(4)] by simp
qed (simp add: assms(1))

lemma has_succeeded_iff: "distinct (map ss_Name (wf_StepStatuses W)) \<Longrightarrow> has_succeeded W n \<longleftrightarrow> n \<in> succeeded W"
proof -
  assume d: "distinct (map ss_Name (wf_StepStatuses W))"
  have "has_succeeded W n \<longleftrightarrow> map_option ss_Phase (find (\<lambda>s. ss_Name s = n) (wf_StepStatuses W)) = Some StepPhaseSucceeded"
    unfolding has_succeeded_def buildStepStatusMap_def map_of_index_by_distinct [OF d] ..
  also have "\<dots> \<longleftrightarrow> (\<exists>s \<in> set (wf_StepStatuses W). ss_Name s = n \<and> ss_Phase s = StepPhaseSucceeded)"
    using find_key_distinct [OF d] by (fastforce dest: find_SomeD)
  finally show ?thesis by (auto simp: succeeded_def)
qed

text \<open>
  The steps that have a Runner; and the state of affairs while all goes well: what has succeeded has a
  Runner, and what has a Runner was started after its dependencies had succeeded.
\<close>

definition started :: "Runner list \<Rightarrow> string set" where
  "started rs = {n. Some n \<in> stepOf ` set rs}"

definition on_track :: "WorkflowStep list \<Rightarrow> Workflow \<Rightarrow> Runner list \<Rightarrow> bool" where
  "on_track steps W rs \<longleftrightarrow> healthy W \<and> distinct (map ss_Name (wf_StepStatuses W)) \<and>
     succeeded W \<inter> st_Name ` set steps \<subseteq> started rs \<and> started rs \<subseteq> st_Name ` set steps \<and>
     (\<forall>s \<in> set steps. st_Name s \<in> started rs \<longrightarrow> set (st_DependsOn s) \<subseteq> succeeded W)"

lemma on_track_cong: "wf_StepStatuses W' = wf_StepStatuses W \<Longrightarrow> on_track steps W rs \<Longrightarrow> map stepOf rs' = map stepOf rs \<Longrightarrow> on_track steps W' rs'"
proof -
  assume "map stepOf rs' = map stepOf rs"
  then have "started rs' = started rs" unfolding started_def by (metis image_set)
  then show "wf_StepStatuses W' = wf_StepStatuses W \<Longrightarrow> on_track steps W rs \<Longrightarrow> on_track steps W' rs'"
    by (simp add: on_track_def healthy_def succeeded_def)
qed

lemma started_append: "started (rs @ rs') = started rs \<union> started rs'"
  by (auto simp: started_def)

text \<open>
  One pass of the loop over some steps, those of a flat Workflow or of a job, in sorted order.  The
  steps have different names and can be sorted, and none waits for a failure; no Runner has failed.
\<close>

definition good_steps :: "WorkflowStep list \<Rightarrow> bool" where
  "good_steps steps \<longleftrightarrow> distinct (map st_Name steps) \<and> set (topologicalSortSteps steps) = set steps \<and> list_all unconditional steps"

definition unfailed :: "Runner list \<Rightarrow> bool" where
  "unfailed rs \<longleftrightarrow> list_all (\<lambda>r. rn_Phase r \<noteq> RunnerPhaseFailed) rs"

definition sorted_loop :: "env \<Rightarrow> runner_builder \<Rightarrow> string \<Rightarrow> Runner list \<Rightarrow> WorkflowStep list \<Rightarrow> Workflow \<Rightarrow> world \<Rightarrow> step_loop" where
  "sorted_loop e build job rs steps W w =
     loop_from e build job (buildRunnerMap rs) (step_loop_init W w) (topologicalSortSteps steps)"

lemma good_steps_sorted:
  assumes "good_steps steps"
  shows "distinct (map st_Name (topologicalSortSteps steps))" "deps_first (topologicalSortSteps steps)"
    "list_all unconditional (topologicalSortSteps steps)" "set (topologicalSortSteps steps) = set steps"
  using assms topologicalSortSteps_distinct deps_first_sorted by (simp_all add: good_steps_def list_all_iff)

lemma runner_map_started: "map_of (buildRunnerMap rs) n \<noteq> None \<longleftrightarrow> n \<in> started rs"
  by (simp add: buildRunnerMap_None started_def)

lemma on_trackD:
  assumes "on_track steps W rs"
  shows "healthy W" "distinct (map ss_Name (wf_StepStatuses W))" "succeeded W \<inter> st_Name ` set steps \<subseteq> started rs"
    "started rs \<subseteq> st_Name ` set steps" "\<And>s. s \<in> set steps \<Longrightarrow> st_Name s \<in> started rs \<Longrightarrow> set (st_DependsOn s) \<subseteq> succeeded W"
  using assms by (simp_all add: on_track_def)

lemma sorted_loop_healthy:
  assumes "on_track steps W rs" "good_steps steps" "unfailed rs"
  shows "healthy (lp_wf (sorted_loop e build job rs steps W w))"
    "distinct (map ss_Name (wf_StepStatuses (lp_wf (sorted_loop e build job rs steps W w))))"
proof -
  have "rn_Phase r \<noteq> RunnerPhaseFailed" if "map_of (buildRunnerMap rs) n = Some r" for n r
    using assms(3) buildRunnerMap_Some [OF that] by (auto simp: unfailed_def list_all_iff)
  then show "healthy (lp_wf (sorted_loop e build job rs steps W w))"
    using loop_healthy [OF _ in_sync_init good_steps_sorted(3) [OF assms(2)], of W w] on_trackD(1) [OF assms(1)] by (simp add: sorted_loop_def)
  show "distinct (map ss_Name (wf_StepStatuses (lp_wf (sorted_loop e build job rs steps W w))))"
    using loop_names [OF in_sync_init, of W w] on_trackD(2) [OF assms(1)] by (simp add: sorted_loop_def)
qed

text \<open>A success is kept, and a new one belongs to a Runner.\<close>

lemma sorted_loop_succeeded:
  assumes "on_track steps W rs" "good_steps steps" "unfailed rs"
  shows "succeeded W \<subseteq> succeeded (lp_wf (sorted_loop e build job rs steps W w))"
    "succeeded (lp_wf (sorted_loop e build job rs steps W w)) \<subseteq> succeeded W \<union> started rs"
proof -
  let ?l = "sorted_loop e build job rs steps W w" and ?rm = "buildRunnerMap rs" and ?S = "topologicalSortSteps steps"
  note iff = has_succeeded_iff [OF on_trackD(2) [OF assms(1)]] has_succeeded_iff [OF sorted_loop_healthy(2) [OF assms]]
  have "n \<in> succeeded (lp_wf ?l)" if n: "n \<in> succeeded W" for n
  proof -
    have "map_of (buildStepStatusMap (lp_wf ?l)) n = map_of (buildStepStatusMap W) n"
    proof (cases "n \<in> st_Name ` set steps")
      case True
      then have "map_of ?rm n \<noteq> None" "has_succeeded W n" using n on_trackD(3) [OF assms(1)] iff runner_map_started [of rs n] by auto
      then show ?thesis
        using finished_untouched [of "step_loop_init W w" n ?rm e build job ?S] healthy_terminal [OF on_trackD(1) [OF assms(1)]]
        by (simp add: sorted_loop_def)
    next
      case False
      then show ?thesis
        using loop_lookup_other [OF in_sync_init, of n ?S e build job ?rm W w] good_steps_sorted(4) [OF assms(2)] by (simp add: sorted_loop_def)
    qed
    then have "has_succeeded (lp_wf ?l) n \<longleftrightarrow> has_succeeded W n" by (simp only: has_succeeded_def)
    then show ?thesis using n iff by simp
  qed
  then show "succeeded W \<subseteq> succeeded (lp_wf ?l)" by blast
  have "succeeded (lp_wf ?l) \<subseteq> succeeded W \<union> succeeded_runners ?rm"
    using reconcileStepLoop_grows [of rs W e ?S build job w] by (simp add: grows_def reconcileStepLoop_eq Let_def sorted_loop_def)
  moreover have "succeeded_runners ?rm \<subseteq> started rs" using runner_map_started [of rs] by (auto simp: succeeded_runners_def)
  ultimately show "succeeded (lp_wf ?l) \<subseteq> succeeded W \<union> started rs" by blast
qed

lemma sorted_loop_decides:
  assumes "on_track steps W rs" "good_steps steps" "unfailed rs" "s \<in> set steps"
  shows "evaluateStep s (buildStepStatusMap (lp_wf (sorted_loop e build job rs steps W w))) = stepRun \<longleftrightarrow>
    set (st_DependsOn s) \<subseteq> succeeded (lp_wf (sorted_loop e build job rs steps W w))"
  using evaluateStep_healthy [OF sorted_loop_healthy(1) [OF assms(1-3)], of s] has_succeeded_iff [OF sorted_loop_healthy(2) [OF assms(1-3)]] assms(2,4)
  by (auto simp: good_steps_def list_all_iff)

text \<open>If all Runners have succeeded, the pass records that.\<close>

lemma sorted_loop_fair:
  assumes "on_track steps W rs" "good_steps steps" "list_all (\<lambda>r. rn_Phase r = RunnerPhaseSucceeded) rs"
  shows "started rs \<subseteq> succeeded (lp_wf (sorted_loop e build job rs steps W w))"
proof
  let ?l = "sorted_loop e build job rs steps W w"
  have un: "unfailed rs" using assms(3) by (simp add: unfailed_def list_all_iff)
  note D = on_trackD [OF assms(1)] and sorted = good_steps_sorted [OF assms(2)] and keep = sorted_loop_succeeded(1) [OF assms(1,2) un]
  fix n
  assume n: "n \<in> started rs"
  then obtain s where s: "s \<in> set steps" "st_Name s = n" using D(4) by auto
  obtain r where r: "map_of (buildRunnerMap rs) n = Some r" using runner_map_started [of rs n] n by auto
  have phase: "rn_Phase r = RunnerPhaseSucceeded" using assms(3) buildRunnerMap_Some [OF r] by (auto simp: list_all_iff)
  show "n \<in> succeeded (lp_wf ?l)"
  proof (cases "n \<in> succeeded W")
    case False
    have "set (st_DependsOn s) \<subseteq> succeeded (lp_wf ?l)" using D(5) [OF s(1)] s(2) n keep by blast
    then have "evaluateStep s (buildStepStatusMap (lp_wf ?l)) = stepRun" using sorted_loop_decides [OF assms(1,2) un s(1)] by simp
    moreover have "\<not> terminalStep (map_of (buildStepStatusMap W) n)" using False healthy_terminal [OF D(1)] has_succeeded_iff [OF D(2)] by simp
    ultimately have "has_succeeded (lp_wf ?l) n"
      using step_follows_runner [OF in_sync_init _ sorted(1,2), of W w s "buildRunnerMap rs" r e build job] D(2) s r phase sorted(4)
      by (simp add: sorted_loop_def has_succeeded_def)
    then show ?thesis using has_succeeded_iff [OF sorted_loop_healthy(2) [OF assms(1,2) un]] by simp
  qed (use keep in blast)
qed

context step_builder
begin

text \<open>What the pass creates are Runners for exactly the steps that have none and whose dependencies have succeeded.\<close>

lemma sorted_loop_created:
  fixes e job rs W w steps
  defines "l \<equiv> sorted_loop e build job rs steps W w"
  assumes track: "on_track steps W rs" "good_steps steps" "unfailed rs"
    and own: "sets_owner (e_SetControllerReference e)" "can_own (e_SetControllerReference e)"
  obtains new where "created_runners (w_log (lp_world l)) = created_runners (w_log w) @ new"
    "\<forall>r \<in> set new. \<exists>W s w. s \<in> set steps \<and> om_Labels (rn_Meta r) = om_Labels (rn_Meta (fst (build W s w)))"
    "started new = st_Name ` {s \<in> set steps. st_Name s \<notin> started rs \<and> set (st_DependsOn s) \<subseteq> succeeded (lp_wf l)}"
proof -
  let ?rm = "buildRunnerMap rs" and ?S = "topologicalSortSteps steps"
  let ?due = "{s \<in> set steps. st_Name s \<notin> started rs \<and> set (st_DependsOn s) \<subseteq> succeeded (lp_wf l)}"
  note sorted = good_steps_sorted [OF track(2)]
  obtain new where new: "created_runners (w_log (lp_world l)) = created_runners (w_log w) @ new"
    "\<forall>r \<in> set new. \<exists>W s w. s \<in> set steps \<and> om_Labels (rn_Meta r) = om_Labels (rn_Meta (fst (build W s w)))"
    using loop_created_from [OF own(1), of job ?rm "step_loop_init W w" ?S] sorted(4) by (auto simp: l_def sorted_loop_def)
  have "map stepOf new = map (Some \<circ> st_Name) (filter (gate ?rm l) ?S)"
    using loop_created [OF own(1) in_sync_init sorted(1,2), of job ?rm W w] own(2) new(1) by (auto simp: l_def sorted_loop_def)
  then have "stepOf ` set new = (Some \<circ> st_Name) ` set (filter (gate ?rm l) ?S)" by (metis image_set)
  moreover have "gate ?rm l s \<longleftrightarrow> st_Name s \<notin> started rs \<and> set (st_DependsOn s) \<subseteq> succeeded (lp_wf l)" if "s \<in> set steps" for s
    using sorted_loop_decides [OF track that] runner_map_started [of rs "st_Name s"] by (auto simp: gate_def l_def)
  then have "set (filter (gate ?rm l) ?S) = ?due" using sorted(4) by auto
  ultimately have "stepOf ` set new = Some ` st_Name ` ?due" by (simp only: image_comp)
  then have "started new = st_Name ` ?due" unfolding started_def by blast
  then show thesis by (rule that [OF new])
qed

end

lemma sorted_loop_on_track:
  fixes e build job rs W w steps
  defines "l \<equiv> sorted_loop e build job rs steps W w"
  assumes track: "on_track steps W rs" "good_steps steps" "unfailed rs"
    and new: "started new = st_Name ` {s \<in> set steps. st_Name s \<notin> started rs \<and> set (st_DependsOn s) \<subseteq> succeeded (lp_wf l)}"
  shows "on_track steps (lp_wf l) (rs @ new)"
proof -
  let ?N = "st_Name ` set steps"
  note D = on_trackD [OF track(1)] and suc = sorted_loop_succeeded [OF track, of e build job w, folded l_def]
  have "set (st_DependsOn s) \<subseteq> succeeded (lp_wf l)" if s: "s \<in> set steps" "st_Name s \<in> started rs \<union> started new" for s
  proof (cases "st_Name s \<in> started rs")
    case True
    then show ?thesis using D(5) s(1) suc(1) by blast
  next
    case False
    then obtain t where "t \<in> set steps" "st_Name t = st_Name s" "set (st_DependsOn t) \<subseteq> succeeded (lp_wf l)" using s(2) new by auto
    moreover from this have "t = s" using s(1) track(2) by (metis (no_types) good_steps_def distinct_map inj_onD)
    ultimately show ?thesis by simp
  qed
  moreover have "succeeded (lp_wf l) \<inter> ?N \<subseteq> started rs \<union> started new" using suc(2) D(3) by blast
  moreover have "started rs \<union> started new \<subseteq> ?N" unfolding new using D(4) by blast
  ultimately show ?thesis using sorted_loop_healthy [OF track, of e build job w, folded l_def] unfolding on_track_def started_append by blast
qed

text \<open>If something has not been started, some step is next.\<close>

lemma next_step:
  assumes "good_steps steps" "\<not> st_Name ` set steps \<subseteq> A"
  shows "\<exists>s \<in> set steps. st_Name s \<notin> A \<and> set (st_DependsOn s) \<subseteq> A"
proof -
  note sorted = assms(1) [unfolded good_steps_def]
  have "\<exists>s \<in> set (topologicalSortSteps steps). st_Name s \<notin> A" using sorted assms(2) by auto
  then obtain xs s ys where split: "topologicalSortSteps steps = xs @ s # ys" "st_Name s \<notin> A" "\<forall>x \<in> set xs. st_Name x \<in> A"
    using split_list_first_prop [of "topologicalSortSteps steps" "\<lambda>s. st_Name s \<notin> A"] by blast
  have "set (st_DependsOn s) \<subseteq> st_Name ` set xs" by (rule topologicalSortSteps_order [OF conjunct1 [OF sorted] split(1)])
  moreover have "s \<in> set steps" using sorted split(1) by auto
  ultimately show ?thesis using split by blast
qed

lemma flat_pass_on_track:
  fixes e rs P v steps
  defines "l \<equiv> flat_pass e rs P v"
  defines "new \<equiv> created_runners (w_log (lp_world l))"
  assumes track: "on_track steps P rs" "good_steps steps" "unfailed rs" and P: "wsp_Steps (wf_Spec P) = topologicalSortSteps steps" "w_log v = []"
    and own: "sets_owner (e_SetControllerReference e)" "can_own (e_SetControllerReference e)"
  shows "on_track steps (lp_wf l) (rs @ new)" "succeeded P \<subseteq> succeeded (lp_wf l)"
    and "list_all (\<lambda>r. rn_Phase r = RunnerPhaseSucceeded) rs \<Longrightarrow> started rs \<subseteq> succeeded (lp_wf l)"
    and "list_all (\<lambda>r. rn_Phase r = RunnerPhaseSucceeded) rs \<Longrightarrow> \<not> st_Name ` set steps \<subseteq> started rs \<Longrightarrow>
      card (started rs) < card (started (rs @ new))"
proof -
  have l: "l = sorted_loop e (buildStepRunner e) [] rs steps P v" by (simp add: l_def flat_pass_def sorted_loop_def P(1))
  obtain new' where "created_runners (w_log (lp_world l)) = created_runners (w_log v) @ new'"
    and new': "started new' = st_Name ` {s \<in> set steps. st_Name s \<notin> started rs \<and> set (st_DependsOn s) \<subseteq> succeeded (lp_wf l)}"
    by (rule flat_steps.sorted_loop_created [OF track own, of e "[]" v, folded l])
  then have new: "started new = st_Name ` {s \<in> set steps. st_Name s \<notin> started rs \<and> set (st_DependsOn s) \<subseteq> succeeded (lp_wf l)}"
    using P(2) by (simp add: new_def)
  show on: "on_track steps (lp_wf l) (rs @ new)" unfolding l by (rule sorted_loop_on_track [OF track new [unfolded l]])
  show "succeeded P \<subseteq> succeeded (lp_wf l)" unfolding l by (rule sorted_loop_succeeded(1) [OF track])
  assume fair: "list_all (\<lambda>r. rn_Phase r = RunnerPhaseSucceeded) rs"
  show suc: "started rs \<subseteq> succeeded (lp_wf l)" unfolding l by (rule sorted_loop_fair [OF track(1,2) fair])
  assume "\<not> st_Name ` set steps \<subseteq> started rs"
  then obtain s where "s \<in> set steps" "st_Name s \<notin> started rs" "set (st_DependsOn s) \<subseteq> started rs" using next_step [OF track(2)] by blast
  then have "st_Name s \<in> started new" "st_Name s \<notin> started rs" unfolding new using suc by auto
  moreover have "finite (started (rs @ new))" using on_trackD(4) [OF on] finite_subset by blast
  ultimately show "card (started rs) < card (started (rs @ new))" by (intro psubset_card_mono) (auto simp: started_append)
qed

section \<open>Runs in which nothing fails\<close>

text \<open>
  What is asked of a pass, in three parts: it reads the Workflow and its Runners as they are now; it is
  within its limits, the Workflow's timeout has not elapsed and the quota of the namespace does not
  refuse it; and the API server accepts the Runners it creates, as does \<open>SetControllerReference\<close>.
\<close>

definition fresh_reads :: "env \<Rightarrow> NamespacedName \<Rightarrow> Workflow \<Rightarrow> Runner list \<Rightarrow> world \<Rightarrow> bool" where
  "fresh_reads e req W rs w \<longleftrightarrow>
     e_GetWorkflow e w req = Inr W \<and> listStepRunners e W (snd (timeoutElapsed e W w)) = Inr rs"

definition within_limits :: "env \<Rightarrow> Workflow \<Rightarrow> world \<Rightarrow> bool" where
  "within_limits e W w \<longleftrightarrow> \<not> fst (timeoutElapsed e W w) \<and> \<not> quotaExceeded e W (snd (timeoutElapsed e W w))"

definition accepts_runners :: "env \<Rightarrow> bool" where
  "accepts_runners e \<longleftrightarrow>
     (\<forall>v r. e_Create e v (ORunner r) = None) \<and> sets_owner (e_SetControllerReference e) \<and> can_own (e_SetControllerReference e)"

definition cooperative :: "env \<Rightarrow> NamespacedName \<Rightarrow> Workflow \<Rightarrow> Runner list \<Rightarrow> world \<Rightarrow> bool" where
  "cooperative e req W rs w \<longleftrightarrow> w_log w = [] \<and> fresh_reads e req W rs w \<and> within_limits e W w \<and> accepts_runners e"

lemmas cooperative_parts = cooperative_def fresh_reads_def within_limits_def accepts_runners_def

text \<open>The server's copy of the Workflow after a pass that made the status patches \<open>ws\<close>, at most one.\<close>

definition next_version :: "Workflow \<Rightarrow> Workflow list \<Rightarrow> Workflow" where
  "next_version W ws = (case ws of [] \<Rightarrow> W | W' # _ \<Rightarrow> persist W W')"

text \<open>
  \<open>happy_run W0 k W rs\<close>: some passes from \<open>W0\<close> have led to \<open>W\<close> and the Runners \<open>rs\<close>.  Between passes the Runners
  change their phases in any way but never fail; \<open>k\<close> counts the passes that found all Runners of the
  Workflow succeeded.
\<close>

inductive happy_run :: "Workflow \<Rightarrow> nat \<Rightarrow> Workflow \<Rightarrow> Runner list \<Rightarrow> bool" for W0 where
  start: "happy_run W0 0 W0 []"
| pass: "\<lbrakk>happy_run W0 k W rs; map rn_Meta rs' = map rn_Meta rs; list_all (\<lambda>r. rn_Phase r \<noteq> RunnerPhaseFailed) rs';
     cooperative e req W rs' w; effects = w_log (snd (Reconcile_Workflow e req w))\<rbrakk>
   \<Longrightarrow> happy_run W0 (if list_all (\<lambda>r. rn_Phase r = RunnerPhaseSucceeded) rs' then Suc k else k)
        (next_version W (written effects)) (rs' @ created_runners effects)"

lemma flat_pass_quiet: "lp_updated (flat_pass e rs W w) \<or> lp_wf (flat_pass e rs W w) = W"
  using loop_quiet [of "step_loop_init W w" e "buildStepRunner e" "[]" "buildRunnerMap rs" "wsp_Steps (wf_Spec W)"]
  by (simp add: flat_pass_def quiet_step_def)

lemma pass_result:
  assumes coop: "cooperative e req W rs w" and W: "om_DeletionTimestamp (wf_Meta W) = None" "wsp_Jobs (wf_Spec W) = []"
    "wsp_Steps (wf_Spec W) \<noteq> []" "detectCycle (wsp_Steps (wf_Spec W)) = []"
  obtains P v where "wf_StepStatuses P = wf_StepStatuses W" "wsp_Steps (wf_Spec P) = topologicalSortSteps (wsp_Steps (wf_Spec W))"
    "w_log v = []"
    "created_runners (w_log (snd (Reconcile_Workflow e req w))) = created_runners (w_log (lp_world (flat_pass e rs P v)))"
    "wf_StepStatuses (next_version W (written (w_log (snd (Reconcile_Workflow e req w))))) = wf_StepStatuses (lp_wf (flat_pass e rs P v))"
    "wf_Phase (next_version W (written (w_log (snd (Reconcile_Workflow e req w))))) = computeFlatWorkflowPhase (lp_wf (flat_pass e rs P v))"
    "wf_Spec (lp_wf (flat_pass e rs P v)) = wf_Spec P"
proof -
  let ?w = "snd (timeoutElapsed e W w)"
  let ?P = "prepared e W ?w" and ?v = "snd (snd (startWorkflow e W ?w))"
  let ?l = "flat_pass e rs ?P ?v" and ?u = "fst (startWorkflow e W ?w)"
  let ?ph = "computeFlatWorkflowPhase (lp_wf ?l)" and ?log = "w_log (snd (Reconcile_Workflow e req w))"
  have "w_log ?w = []" using coop by (simp add: cooperative_parts timeoutElapsed_def split_beta split: option.split)
  then have v: "w_log ?v = []" by (simp add: startWorkflow_facts(5))
  have eq: "Reconcile_Workflow e req w = runFlatWorkflow e rs W ?w"
    using coop W by (simp add: cooperative_parts Reconcile_Workflow_def reconcileFlatWorkflow_def guardWorkflow_def split_beta)
  have w0: "written (w_log (lp_world ?l)) = []"
    using reconcileSteps_written [of e rs ?P ?v] v by (simp add: reconcileSteps_eq)
  from finishWorkflow_written [of e "''All steps completed successfully''" W ?ph "lp_updated ?l \<or> ?u" "lp_wf ?l" "lp_world ?l"]
  obtain xs where xs: "written ?log = xs" "created_runners ?log = created_runners (w_log (lp_world ?l))"
    "\<And>W'. W' \<in> set xs \<Longrightarrow> wf_StepStatuses W' = wf_StepStatuses (lp_wf ?l) \<and> wf_Phase W' = ?ph"
    "(lp_updated ?l \<or> ?u) \<or> ?ph \<noteq> wf_Phase (lp_wf ?l) \<longrightarrow> length xs = 1"
    unfolding eq runFlatWorkflow_eq Let_def reconcileSteps_eq fst_conv snd_conv w0 by (auto simp: list_all_iff)
  have frame: "wf_Spec (lp_wf ?l) = wf_Spec ?P" "wf_Phase (lp_wf ?l) = wf_Phase ?P"
    unfolding flat_pass_def by (simp_all add: loop_frame)
  have phase: "wf_Phase ?P = wf_Phase W" by (simp add: prepared_def startWorkflow_def split_beta Let_def)
  have same: "wf_StepStatuses (next_version W (written ?log)) = wf_StepStatuses (lp_wf ?l) \<and> wf_Phase (next_version W (written ?log)) = ?ph"
  proof (cases xs)
    case Nil
    with xs(4) have "\<not> lp_updated ?l" "?ph = wf_Phase (lp_wf ?l)" by auto
    moreover from this have "lp_wf ?l = ?P" using flat_pass_quiet by blast
    ultimately show ?thesis using Nil xs(1) phase by (simp add: next_version_def prepared_facts)
  next
    case (Cons W' ys)
    then show ?thesis using xs(1) xs(3) [of W'] by (simp add: next_version_def persist_def)
  qed
  show thesis
    by (rule that [OF prepared_facts v xs(2) conjunct1 [OF same] conjunct2 [OF same] frame(1)])
qed

lemma next_version_frame [simp]: "wf_Spec (next_version W ws) = wf_Spec W" "wf_Meta (next_version W ws) = wf_Meta W"
  by (simp_all add: next_version_def persist_def split: list.split)

lemma happy_run_frame: "happy_run W0 k W rs \<Longrightarrow> wf_Spec W = wf_Spec W0 \<and> wf_Meta W = wf_Meta W0"
  by (induction rule: happy_run.induct) simp_all

lemma happy_run_flat_run:
  "happy_run W0 k W rs \<Longrightarrow> wsp_Jobs (wf_Spec W0) = [] \<Longrightarrow> om_DeletionTimestamp (wf_Meta W0) = None \<Longrightarrow> flat_run W0 W"
proof (induction rule: happy_run.induct)
  case (pass k W rs rs' e req w effects)
  then have "Reconcile_Workflow e req w = reconcileFlatWorkflow e W w" "w_log w = []"
    using happy_run_frame [OF pass.hyps(1)] by (simp_all add: cooperative_parts Reconcile_Workflow_def)
  then show ?case using pass flat_run.pass [of W0 W _ e w] by (auto simp: next_version_def split: list.split)
qed (rule flat_run.start)

text \<open>All steps succeeded: the phase is Succeeded.\<close>

lemma all_succeeded_phase:
  assumes "st_Name ` set (wsp_Steps (wf_Spec W)) \<subseteq> succeeded W" "wsp_Steps (wf_Spec W) \<noteq> []" "distinct (map ss_Name (wf_StepStatuses W))"
  shows "computeFlatWorkflowPhase W = WorkflowPhaseSucceeded"
proof -
  have ph: "map_option ss_Phase (findStepStatus (wf_StepStatuses W) (st_Name s)) = Some StepPhaseSucceeded" if "s \<in> set (wsp_Steps (wf_Spec W))" for s
  proof -
    have "has_succeeded W (st_Name s)" using has_succeeded_iff [OF assms(3)] assms(1) that by blast
    then show ?thesis
      unfolding has_succeeded_def buildStepStatusMap_def map_of_index_by_distinct [OF assms(3)] findStepStatus_def .
  qed
  then have all: "map (\<lambda>st. map_option ss_Phase (findStepStatus (wf_StepStatuses W) (st_Name st))) (wsp_Steps (wf_Spec W)) =
      map (\<lambda>_. Some StepPhaseSucceeded) (wsp_Steps (wf_Spec W))"
    by (intro map_cong) auto
  have "wf_StepStatuses W \<noteq> []" using assms(1,2) by (cases "wf_StepStatuses W") (auto simp: succeeded_def)
  then show ?thesis
    unfolding computeFlatWorkflowPhase_phases [of W, unfolded Let_def all] by (auto simp: list_ex_iff)
qed

lemma happy_run_on_track:
  assumes "happy_run W0 k W rs" and W0: "om_DeletionTimestamp (wf_Meta W0) = None" "wsp_Jobs (wf_Spec W0) = []"
    "wsp_Steps (wf_Spec W0) = steps" "steps \<noteq> []" "distinct (map st_Name steps)" "detectCycle steps = []"
    "list_all unconditional steps" "wf_Status W0 = zero_WorkflowStatus"
  shows "on_track steps W rs \<and> (k \<le> card (started rs) \<or> st_Name ` set steps \<subseteq> started rs) \<and>
    (length steps < k \<longrightarrow> st_Name ` set steps \<subseteq> succeeded W \<and> wf_Phase W = WorkflowPhaseSucceeded)"
  using assms(1)
proof (induction rule: happy_run.induct)
  case start
  show ?case using W0(8) by (simp add: on_track_def healthy_def succeeded_def started_def zero_WorkflowStatus_def)
next
  case (pass k W rs rs' e req w effects)
  let ?W = "next_version W (written effects)" and ?new = "created_runners effects" and ?names = "st_Name ` set steps"
  let ?fair = "list_all (\<lambda>r. rn_Phase r = RunnerPhaseSucceeded) rs'"
  have W: "wf_Spec W = wf_Spec W0" "wf_Meta W = wf_Meta W0" using happy_run_frame [OF pass.hyps(1)] by simp_all
  have sorted: "set (topologicalSortSteps steps) = set steps" using topologicalSortSteps_complete [OF W0(5,6)] by (metis mset_eq_setD)
  obtain P v where p: "wf_StepStatuses P = wf_StepStatuses W" "wsp_Steps (wf_Spec P) = topologicalSortSteps steps" "w_log v = []"
    "?new = created_runners (w_log (lp_world (flat_pass e rs' P v)))" "wf_StepStatuses ?W = wf_StepStatuses (lp_wf (flat_pass e rs' P v))"
    "wf_Phase ?W = computeFlatWorkflowPhase (lp_wf (flat_pass e rs' P v))" "wf_Spec (lp_wf (flat_pass e rs' P v)) = wf_Spec P"
    using pass_result [OF pass.hyps(4)] W W0 pass.hyps(5) by metis
  let ?l = "flat_pass e rs' P v"
  have steps_eq: "map stepOf rs' = map stepOf rs" using pass.hyps(2) by (simp add: stepOf_def list_eq_iff_nth_eq)
  then have same: "started rs' = started rs" unfolding started_def by (metis image_set)
  have track: "on_track steps P rs'" by (rule on_track_cong [OF p(1) conjunct1 [OF pass.IH] steps_eq])
  have own: "sets_owner (e_SetControllerReference e)" "can_own (e_SetControllerReference e)"
    using pass.hyps(4) by (simp_all add: cooperative_parts)
  have good: "good_steps steps" "unfailed rs'" using W0(5,7) sorted pass.hyps(3) by (simp_all add: good_steps_def unfailed_def)
  note after = flat_pass_on_track [OF track good p(2,3) own(1,2), folded p(4)]
  have suc: "succeeded ?W = succeeded (lp_wf ?l)" "succeeded P = succeeded W" using p(1,5) by (simp_all add: succeeded_def)
  have track': "on_track steps ?W (rs' @ ?new)" using after(1) on_track_cong [OF p(5)] by simp
  have finite: "finite (started (rs' @ ?new))" "started (rs' @ ?new) \<subseteq> ?names"
    using track' finite_subset [of _ ?names] by (auto simp: on_track_def)
  have grows: "started rs \<subseteq> started (rs' @ ?new)" by (simp add: started_append same)
  have more: "card (started rs) < card (started (rs' @ ?new))" if ?fair "\<not> ?names \<subseteq> started rs" using after(4) that same by simp
  have all: "?names \<subseteq> started rs" if "length steps \<le> k"
  proof (rule ccontr)
    assume no: "\<not> ?names \<subseteq> started rs"
    then have "started rs \<subset> ?names" using pass.IH by (auto simp: on_track_def)
    then have "card (started rs) < card ?names" by (simp add: psubset_card_mono)
    then show False using no pass.IH that card_image_le [of "set steps" st_Name] card_length [of steps] by force
  qed
  have succeeded': "?names \<subseteq> succeeded ?W" if "length steps < (if ?fair then Suc k else k)"
  proof (cases "length steps < k")
    case True
    then show ?thesis using pass.IH after(2) suc by blast
  next
    case False
    with that have "?fair" "length steps \<le> k" by (auto split: if_splits)
    then show ?thesis using all after(3) same suc(1) by blast
  qed
  moreover have "wf_Phase ?W = WorkflowPhaseSucceeded" if "?names \<subseteq> succeeded ?W"
  proof -
    have "wsp_Steps (wf_Spec (lp_wf ?l)) \<noteq> []" "set (wsp_Steps (wf_Spec (lp_wf ?l))) = set steps"
      using p(2,7) sorted W0(4) by auto
    then show ?thesis using all_succeeded_phase [of "lp_wf ?l"] that suc(1) p(6) after(1) by (simp add: on_track_def)
  qed
  moreover have "(if ?fair then Suc k else k) \<le> card (started (rs' @ ?new)) \<or> ?names \<subseteq> started (rs' @ ?new)"
    using pass.IH more card_mono [OF finite(1) grows] grows by (cases "?names \<subseteq> started rs") auto
  ultimately show ?case using track' by blast
qed

text \<open>
  C3. A flat Workflow terminates: if its steps have different names, no dependency cycle and no
  \<open>on_failure\<close> condition, then it is Succeeded, with a completion time and every step Succeeded, once
  more passes than it has steps have found all their Runners succeeded, no matter how many other
  passes happen in between, and it stays so.  This holds of the runs in which every pass reads the
  current Workflow and Runners, its timeout has not elapsed and the quota of the namespace does not
  refuse it, its Runners can be owned and are created, its status patches are stored, and no Runner
  fails.
\<close>

theorem workflow_completes:
  assumes "happy_run W0 k W rs" "length (wsp_Steps (wf_Spec W0)) < k"
    and "wf_Status W0 = zero_WorkflowStatus" "om_DeletionTimestamp (wf_Meta W0) = None"
    and "wsp_Jobs (wf_Spec W0) = []" "wsp_Steps (wf_Spec W0) \<noteq> []" "distinct (map st_Name (wsp_Steps (wf_Spec W0)))"
    and "detectCycle (wsp_Steps (wf_Spec W0)) = []" "list_all (\<lambda>s. TrimSpace (st_When s) \<noteq> ''on_failure'') (wsp_Steps (wf_Spec W0))"
  shows "wf_Phase W = WorkflowPhaseSucceeded \<and> wst_CompletionTime (wf_Status W) \<noteq> None \<and>
    list_all (\<lambda>s. map_option ss_Phase (map_of (buildStepStatusMap W) (st_Name s)) = Some StepPhaseSucceeded) (wsp_Steps (wf_Spec W0))"
proof -
  let ?steps = "wsp_Steps (wf_Spec W0)"
  have track: "on_track ?steps W rs" "st_Name ` set ?steps \<subseteq> succeeded W" "wf_Phase W = WorkflowPhaseSucceeded"
    using happy_run_on_track [OF assms(1,4,5) refl assms(6-8) _ assms(3)] assms(2,9) by (simp_all add: unconditional_def list_all_iff)
  have "flat_inv W" by (rule flat_run_keeps [OF happy_run_flat_run [OF assms(1,5,4)] assms(7,3)])
  then have "wst_CompletionTime (wf_Status W) \<noteq> None" using track(3) by (simp add: flat_inv_def isWorkflowTerminal_def)
  moreover have "has_succeeded W (st_Name s)" if "s \<in> set ?steps" for s
    using that track(1,2) has_succeeded_iff [of W] by (auto simp: on_track_def)
  ultimately show ?thesis using track(3) by (simp add: list_all_iff has_succeeded_def)
qed

text \<open>Runs of any length exist: after each pass, let all Runners succeed and make the next.\<close>

definition succeed :: "Runner \<Rightarrow> Runner" where
  "succeed r = rn_setStatus (\<lambda>s. s\<lparr>rst_Phase := RunnerPhaseSucceeded\<rparr>) r"

lemma happy_run_exists:
  assumes "wsp_Timeout (wf_Spec W0) = None"
  shows "\<exists>W rs. happy_run W0 k W rs"
proof (induction k)
  case 0
  show ?case using happy_run.start by blast
next
  case (Suc k)
  then obtain W rs where run: "happy_run W0 k W rs" by blast
  let ?rs = "map succeed rs"
  let ?e = "(env_with W)\<lparr>e_ListRunners := (\<lambda>w ns ls. Inr ?rs)\<rparr>"
  have "wsp_Timeout (wf_Spec W) = None" using happy_run_frame [OF run] assms by simp
  then have coop: "cooperative ?e req W ?rs sample_world" for req
    using sample_env_ok by (simp add: cooperative_parts timeoutElapsed_def quotaExceeded_def checkNamespaceQuota_def
        maxConcurrentWorkflowsForNS_def listStepRunners_def env_with_def sample_world_def) (simp add: sample_env_def)
  have meta: "map rn_Meta ?rs = map rn_Meta rs" by (simp add: succeed_def)
  have phases: "list_all (\<lambda>r. rn_Phase r = RunnerPhaseSucceeded) ?rs" "list_all (\<lambda>r. rn_Phase r \<noteq> RunnerPhaseFailed) ?rs"
    by (simp_all add: succeed_def list_all_iff)
  from happy_run.pass [OF run meta phases(2) coop refl, of undefined] show ?case using phases(1) by auto
qed

theorem workflow_completes_witness:
  "\<exists>W rs. happy_run (sample_workflow chain []) 3 W rs \<and> wf_Phase W = WorkflowPhaseSucceeded \<and>
     map_option ss_Phase (map_of (buildStepStatusMap W) ''b'') = Some StepPhaseSucceeded"
proof -
  let ?W0 = "sample_workflow chain []"
  have "wsp_Timeout (wf_Spec ?W0) = None" by (simp add: sample_workflow_def)
  then obtain W rs where run: "happy_run ?W0 3 W rs" using happy_run_exists by blast
  have W0: "wsp_Steps (wf_Spec ?W0) = chain" "wf_Status ?W0 = zero_WorkflowStatus" "om_DeletionTimestamp (wf_Meta ?W0) = None" "wsp_Jobs (wf_Spec ?W0) = []"
    by (simp_all add: sample_workflow_def zero_WorkflowStatus_def zero_ObjectMeta_def)
  have "length chain < 3" "chain \<noteq> []" "distinct (map st_Name chain)" by (simp_all add: chain_def)
  moreover have "detectCycle chain = []" "list_all (\<lambda>s. TrimSpace (st_When s) \<noteq> ''on_failure'') chain" by code_simp+
  ultimately have "wf_Phase W = WorkflowPhaseSucceeded"
    "list_all (\<lambda>s. map_option ss_Phase (map_of (buildStepStatusMap W) (st_Name s)) = Some StepPhaseSucceeded) chain"
    using workflow_completes [OF run] W0 by simp_all
  then show ?thesis using run by (auto simp: chain_def)
qed

end
