(* ===== verification/Job_Progress.thy ===== *)
theory Job_Progress
  imports Workflow_Progress
begin

text \<open>
  That job-based Workflows finish: the argument of \<open>Workflow_Progress\<close> for the steps of each job, and for
  the jobs themselves.  A pass that finds the Runners finished starts a step or finishes a job, as
  long as there is one to finish.
\<close>

section \<open>The table of jobs\<close>

text \<open>No job has failed or been skipped.\<close>

definition sound_jobs :: "Workflow \<Rightarrow> bool" where
  "sound_jobs W \<longleftrightarrow> distinct (map jst_Name (wf_JobStatuses W)) \<and>
     list_all (\<lambda>j. jst_Phase j \<in> {JobPhaseWaiting, JobPhaseRunning, JobPhaseSucceeded}) (wf_JobStatuses W)"

definition job_phase :: "Workflow \<Rightarrow> string \<Rightarrow> JobPhase option" where
  "job_phase W n = map_option jst_Phase (findJobStatus (wf_JobStatuses W) n)"

definition jobs_done :: "Workflow \<Rightarrow> string set" where
  "jobs_done W = {n. job_phase W n = Some JobPhaseSucceeded}"

lemma job_map: "sound_jobs W \<Longrightarrow> map_of (buildJobStatusMap W) n = findJobStatus (wf_JobStatuses W) n"
  by (simp add: sound_jobs_def buildJobStatusMap_def map_of_index_by_distinct findJobStatus_def)

lemma sound_phase: "sound_jobs W \<Longrightarrow> job_phase W n = Some p \<Longrightarrow> p \<in> {JobPhaseWaiting, JobPhaseRunning, JobPhaseSucceeded}"
  by (auto simp: sound_jobs_def job_phase_def findJobStatus_def list_all_iff dest!: find_SomeD)

lemma job_phase_upsert: "job_phase (fst (upsertJobStatus e n p W w)) m = (if m = n then Some p else job_phase W m)"
  using job_table.upsert_same [of n e p W w] job_table.upsert_other [of m n e p W w]
  by (auto simp: job_phase_def findJobStatus_def)

lemma list_all_update_first: "list_all P xs \<Longrightarrow> (\<And>x. P (f x)) \<Longrightarrow> list_all P (update_first Q f xs)"
  using set_update_first [of Q f xs] by (fastforce simp: list_all_iff)

lemma sound_upsert:
  assumes "sound_jobs W" "p \<in> {JobPhaseWaiting, JobPhaseRunning, JobPhaseSucceeded}"
  shows "sound_jobs (fst (upsertJobStatus e n p W w))"
proof -
  let ?ok = "\<lambda>j. jst_Phase j \<in> {JobPhaseWaiting, JobPhaseRunning, JobPhaseSucceeded}"
  have "list_all ?ok (wf_JobStatuses (fst (upsertJobStatus e n p W w)))"
    using assms by (auto simp: upsertJobStatus_def sound_jobs_def split_beta intro!: list_all_update_first split: option.split)
  then show ?thesis using assms(1) job_table.upsert_distinct [of W e n p w] by (simp add: sound_jobs_def)
qed

lemma terminalJob_sound: "sound_jobs W \<Longrightarrow> terminalJob (map_of (buildJobStatusMap W) n) \<longleftrightarrow> n \<in> jobs_done W"
  using sound_phase [of W n]
  by (cases "findJobStatus (wf_JobStatuses W) n") (auto simp: job_map terminalJob_def jobs_done_def job_phase_def)

lemma evaluateJobWhen_sound:
  assumes "sound_jobs W" "TrimSpace (js_When job) \<noteq> ''on_failure''"
  shows "evaluateJobWhen job (buildJobStatusMap W) = (if set (js_Needs job) \<subseteq> jobs_done W then jobRun else jobWait)"
proof -
  let ?m = "buildJobStatusMap W"
  have wait: "(case map_of ?m n of None \<Rightarrow> True | Some js \<Rightarrow> jst_Phase js = JobPhasePending \<or> jst_Phase js = JobPhaseRunning \<or>
      jst_Phase js = JobPhaseWaiting) \<longleftrightarrow> n \<notin> jobs_done W" for n
    using sound_phase [OF assms(1), of n] assms(1)
    by (cases "findJobStatus (wf_JobStatuses W) n") (auto simp: job_map jobs_done_def job_phase_def)
  have ok: "jst_Phase (mget zero_JobStatus ?m n) = JobPhaseSucceeded" if "n \<in> jobs_done W" for n
    using that assms(1) by (auto simp: mget_def job_map jobs_done_def job_phase_def)
  show ?thesis
  proof (cases "set (js_Needs job) \<subseteq> jobs_done W")
    case True
    then have "list_all (\<lambda>need. jst_Phase (mget zero_JobStatus ?m need) = JobPhaseSucceeded) (js_Needs job)"
      using ok by (auto simp: list_all_iff)
    then show ?thesis using True assms(2) by (auto simp: evaluateJobWhen_def wait list_ex_iff Let_def defaultWhen_def)
  next
    case False
    then show ?thesis by (auto simp: evaluateJobWhen_def wait list_ex_iff)
  qed
qed

section \<open>One job\<close>

definition valid_job :: "JobSpec \<Rightarrow> bool" where
  "valid_job job \<longleftrightarrow> distinct (map st_Name (js_Steps job)) \<and> detectCycle (js_Steps job) = [] \<and>
     list_all unconditional (js_Steps job) \<and> TrimSpace (js_When job) \<noteq> ''on_failure''"

abbreviation step_names :: "JobSpec \<Rightarrow> string set" where
  "step_names job \<equiv> st_Name ` set (js_Steps job)"

abbreviation runners_of :: "JobSpec \<Rightarrow> Runner list \<Rightarrow> Runner list" where
  "runners_of job rs \<equiv> filterRunnersByJob rs (js_Name job)"

lemma job_flags_healthy:
  assumes "healthy W" "distinct (map ss_Name (wf_StepStatuses W))"
  shows "job_flags (buildStepStatusMap W) steps = (st_Name ` set steps \<subseteq> succeeded W, False)"
proof -
  let ?m = "buildStepStatusMap W"
  have "(\<exists>st. map_of ?m n = Some st \<and> ss_Phase st \<notin> {StepPhasePending, StepPhaseWaiting, StepPhaseRunning}) \<longleftrightarrow> n \<in> succeeded W" for n
    using healthy_lookup [OF assms(1), of n] has_succeeded_iff [OF assms(2), of n] by (auto simp: has_succeeded_def)
  moreover have "\<not> (\<exists>st. map_of ?m n = Some st \<and> ss_Phase st = StepPhaseFailed)" for n
    using healthy_lookup [OF assms(1), of n] by auto
  ultimately show ?thesis unfolding job_flags_spec by auto
qed

text \<open>\<open>runJob\<close> in a healthy Workflow: the job is Running, its steps are visited, and it is Succeeded if they all are.\<close>

definition entered :: "env \<Rightarrow> nat \<Rightarrow> JobStatus option \<Rightarrow> Workflow \<Rightarrow> world \<Rightarrow> Workflow \<times> world" where
  "entered e i js V v =
     (let job = job_at V i;
          (U, v) = (if map_option jst_Phase js \<noteq> Some JobPhaseRunning then upsertJobStatus e (js_Name job) JobPhaseRunning V v else (V, v))
      in (U\<lparr>wf_Spec := (wf_Spec U)\<lparr>wsp_Jobs := (wsp_Jobs (wf_Spec U))[i := job\<lparr>js_Steps := topologicalSortSteps (js_Steps job)\<rparr>]\<rparr>\<rparr>, v))"

definition visited :: "env \<Rightarrow> nat \<Rightarrow> Runner list \<Rightarrow> JobStatus option \<Rightarrow> Workflow \<Rightarrow> world \<Rightarrow> step_loop" where
  "visited e i rs js V v =
     (let job = job_at V i
      in sorted_loop e (buildJobStepRunner e (job\<lparr>js_Steps := topologicalSortSteps (js_Steps job)\<rparr>)) (js_Name job) (runners_of job rs) (js_Steps job)
           (fst (entered e i js V v)) (snd (entered e i js V v)))"

lemma entered_facts:
  "wf_StepStatuses (fst (entered e i js V v)) = wf_StepStatuses V" "w_log (snd (entered e i js V v)) = w_log v"
  "n \<noteq> js_Name (job_at V i) \<Longrightarrow> job_phase (fst (entered e i js V v)) n = job_phase V n"
  "js_Name (job_at V i) \<notin> jobs_done V \<Longrightarrow> js_Name (job_at V i) \<notin> jobs_done (fst (entered e i js V v))"
  "sound_jobs V \<Longrightarrow> sound_jobs (fst (entered e i js V v))"
proof -
  let ?u = "if map_option jst_Phase js \<noteq> Some JobPhaseRunning then upsertJobStatus e (js_Name (job_at V i)) JobPhaseRunning V v else (V, v)"
  have eq: "wf_StepStatuses (fst (entered e i js V v)) = wf_StepStatuses (fst ?u)" "wf_JobStatuses (fst (entered e i js V v)) = wf_JobStatuses (fst ?u)"
    "snd (entered e i js V v) = snd ?u"
    by (simp_all add: entered_def Let_def split_beta)
  have ph: "job_phase (fst (entered e i js V v)) = job_phase (fst ?u)" by (simp add: job_phase_def eq fun_eq_iff)
  show "wf_StepStatuses (fst (entered e i js V v)) = wf_StepStatuses V" "w_log (snd (entered e i js V v)) = w_log v" by (simp_all add: eq)
  show "job_phase (fst (entered e i js V v)) n = job_phase V n" if "n \<noteq> js_Name (job_at V i)" using that by (simp add: ph job_phase_upsert)
  show "js_Name (job_at V i) \<notin> jobs_done (fst (entered e i js V v))" if "js_Name (job_at V i) \<notin> jobs_done V"
    using that by (simp add: jobs_done_def ph job_phase_upsert)
  show "sound_jobs (fst (entered e i js V v))" if "sound_jobs V"
    using that sound_upsert [of V JobPhaseRunning] by (simp add: sound_jobs_def eq)
qed

lemma runJob_result:
  fixes e i rs js V v
  defines "l \<equiv> visited e i rs js V v" and "job \<equiv> job_at V i"
  assumes "healthy (lp_wf l)" "distinct (map ss_Name (wf_StepStatuses (lp_wf l)))" "set (topologicalSortSteps (js_Steps job)) = set (js_Steps job)"
  shows "fst (snd (runJob e i rs js V v)) = (if step_names job \<subseteq> succeeded (lp_wf l)
      then fst (upsertJobStatus e (js_Name job) JobPhaseSucceeded (lp_wf l) (lp_world l)) else lp_wf l)"
    "w_log (snd (snd (runJob e i rs js V v))) = w_log (lp_world l)"
proof -
  have "job_flags (buildStepStatusMap (lp_wf l)) (topologicalSortSteps (js_Steps job)) = (step_names job \<subseteq> succeeded (lp_wf l), False)"
    using job_flags_healthy [OF assms(3,4), of "topologicalSortSteps (js_Steps job)"] assms(5) by simp
  then show "fst (snd (runJob e i rs js V v)) = (if step_names job \<subseteq> succeeded (lp_wf l)
      then fst (upsertJobStatus e (js_Name job) JobPhaseSucceeded (lp_wf l) (lp_world l)) else lp_wf l)"
    "w_log (snd (snd (runJob e i rs js V v))) = w_log (lp_world l)"
    by (cases "map_option jst_Phase js = Some JobPhaseRunning";
        simp add: l_def visited_def entered_def sorted_loop_def runJob_def reconcileJobSteps_def reconcileStepLoop_eq Let_def split_beta
          job_def [symmetric] del: map_option_eq_Some)+
qed

lemma valid_job_good: "valid_job job \<Longrightarrow> good_steps (js_Steps job)"
  using topologicalSortSteps_complete [of "js_Steps job"] by (auto simp: valid_job_def good_steps_def dest: mset_eq_setD)

lemma runJob_on_track:
  fixes e i rs js V v
  defines "r \<equiv> runJob e i rs js V v" and "job \<equiv> job_at V i"
  assumes track: "on_track (js_Steps job) V (runners_of job rs)" and valid: "valid_job job"
    and jobs: "sound_jobs V" "js_Name job \<notin> jobs_done V"
    and rs: "unfailed rs"
    and own: "sets_owner (e_SetControllerReference e)" "can_own (e_SetControllerReference e)"
  obtains new where "created_runners (w_log (snd (snd r))) = created_runners (w_log v) @ new"
    "list_all (\<lambda>x. jobOf x = Some (js_Name job)) new"
    "on_track (js_Steps job) (fst (snd r)) (runners_of job rs @ new)"
    "succeeded V \<subseteq> succeeded (fst (snd r))" "succeeded (fst (snd r)) \<subseteq> succeeded V \<union> step_names job"
    "list_all (\<lambda>r. rn_Phase r = RunnerPhaseSucceeded) rs \<longrightarrow>
      js_Name job \<in> jobs_done (fst (snd r)) \<or> started new - started (runners_of job rs) \<noteq> {}"
    "sound_jobs (fst (snd r))" "\<And>n. n \<noteq> js_Name job \<Longrightarrow> job_phase (fst (snd r)) n = job_phase V n"
    "js_Name job \<in> jobs_done (fst (snd r)) \<longrightarrow> step_names job \<subseteq> succeeded (fst (snd r))"
proof -
  let ?R = "runners_of job rs" and ?W = "fst (entered e i js V v)" and ?l = "visited e i rs js V v"
  let ?job = "job\<lparr>js_Steps := topologicalSortSteps (js_Steps job)\<rparr>"
  have l: "?l = sorted_loop e (buildJobStepRunner e ?job) (js_Name job) ?R (js_Steps job) ?W (snd (entered e i js V v))"
    by (simp add: visited_def job_def Let_def)
  note ent = entered_facts [where e = e and i = i and js = js and V = V and v = v, folded job_def] and good = valid_job_good [OF valid]
  have W: "on_track (js_Steps job) ?W ?R" "succeeded ?W = succeeded V"
    using on_track_cong [OF ent(1) track refl] ent(1) by (simp_all add: succeeded_def)
  have R: "unfailed ?R" using rs by (simp add: unfailed_def filterRunnersByJob_def list_all_iff)
  note H = sorted_loop_healthy [OF W(1) good R] and suc = sorted_loop_succeeded [OF W(1) good R, unfolded W(2)]
  obtain new where new: "created_runners (w_log (lp_world ?l)) = created_runners (w_log (snd (entered e i js V v))) @ new"
    "\<forall>x \<in> set new. \<exists>W s w. s \<in> set (js_Steps job) \<and> om_Labels (rn_Meta x) = om_Labels (rn_Meta (fst (buildJobStepRunner e ?job W s w)))"
    "started new = st_Name ` {s \<in> set (js_Steps job). st_Name s \<notin> started ?R \<and> set (st_DependsOn s) \<subseteq> succeeded (lp_wf ?l)}"
    unfolding l by (rule job_steps.sorted_loop_created [OF W(1) good R own])
  note res = runJob_result [of e i rs js V v, folded job_def, folded r_def, unfolded l, OF H good_steps_sorted(4) [OF good], folded l]
  have st: "wf_StepStatuses (fst (snd r)) = wf_StepStatuses (lp_wf ?l)" by (simp add: res)
  then have suc': "succeeded (fst (snd r)) = succeeded (lp_wf ?l)" by (simp add: succeeded_def)
  have frame: "wf_JobStatuses (lp_wf ?l) = wf_JobStatuses ?W" by (simp add: l sorted_loop_def loop_frame)
  then have ph: "job_phase (lp_wf ?l) = job_phase ?W" by (simp add: job_phase_def fun_eq_iff)
  have fair: "js_Name job \<in> jobs_done (fst (snd r)) \<or> started new - started ?R \<noteq> {}" if "list_all (\<lambda>r. rn_Phase r = RunnerPhaseSucceeded) rs"
  proof -
    have "list_all (\<lambda>r. rn_Phase r = RunnerPhaseSucceeded) ?R" using that by (simp add: filterRunnersByJob_def list_all_iff)
    then have s: "started ?R \<subseteq> succeeded (lp_wf ?l)" unfolding l by (rule sorted_loop_fair [OF W(1) good])
    show ?thesis
    proof (cases "step_names job \<subseteq> started ?R")
      case True
      then show ?thesis using s by (auto simp: res jobs_done_def job_phase_upsert)
    next
      case False
      then obtain t where "t \<in> set (js_Steps job)" "st_Name t \<notin> started ?R" "set (st_DependsOn t) \<subseteq> started ?R" using next_step [OF good] by blast
      then show ?thesis unfolding new(3) using s by blast
    qed
  qed
  show thesis
  proof (rule that)
    show "created_runners (w_log (snd (snd r))) = created_runners (w_log v) @ new" using new(1) ent(2) res(2) by simp
    show "list_all (\<lambda>x. jobOf x = Some (js_Name job)) new" using new(2) by (fastforce simp: list_all_iff jobOf_def buildJobStepRunner_meta)
    show "on_track (js_Steps job) (fst (snd r)) (?R @ new)"
      by (rule on_track_cong [OF st _ refl]) (use sorted_loop_on_track [OF W(1) good R new(3) [unfolded l]] in \<open>simp add: l\<close>)
    show "succeeded V \<subseteq> succeeded (fst (snd r))" "succeeded (fst (snd r)) \<subseteq> succeeded V \<union> step_names job"
      unfolding suc' l using suc on_trackD(4) [OF track] by blast+
    show "sound_jobs (fst (snd r))"
      using ent(5) [OF jobs(1)] sound_upsert [of "lp_wf ?l" JobPhaseSucceeded] frame by (simp add: res sound_jobs_def)
    show "job_phase (fst (snd r)) n = job_phase V n" if "n \<noteq> js_Name job" for n using that ent(3) by (simp add: res job_phase_upsert ph)
    show "js_Name job \<in> jobs_done (fst (snd r)) \<longrightarrow> step_names job \<subseteq> succeeded (fst (snd r))"
      using ent(4) [OF jobs(2)] ph unfolding suc' by (auto simp: res jobs_done_def split: if_splits)
  qed (use fair in blast)
qed

lemma reconcileJob_on_track:
  fixes e i rs W V v
  defines "r \<equiv> reconcileJob e i rs (buildJobStatusMap W) V v" and "job \<equiv> job_at V i"
  assumes track: "on_track (js_Steps job) V (runners_of job rs)" and valid: "valid_job job"
    and jobs: "sound_jobs W" "sound_jobs V" "job_phase V (js_Name job) = job_phase W (js_Name job)"
      "js_Name job \<in> jobs_done V \<longrightarrow> step_names job \<subseteq> succeeded V"
    and rs: "unfailed rs"
    and own: "sets_owner (e_SetControllerReference e)" "can_own (e_SetControllerReference e)"
  obtains new where "created_runners (w_log (snd (snd r))) = created_runners (w_log v) @ new"
    "list_all (\<lambda>x. jobOf x = Some (js_Name job)) new"
    "on_track (js_Steps job) (fst (snd r)) (runners_of job rs @ new)"
    "succeeded V \<subseteq> succeeded (fst (snd r))" "succeeded (fst (snd r)) \<subseteq> succeeded V \<union> step_names job"
    "list_all (\<lambda>r. rn_Phase r = RunnerPhaseSucceeded) rs \<and> set (js_Needs job) \<subseteq> jobs_done W \<longrightarrow>
      js_Name job \<in> jobs_done (fst (snd r)) \<or> started new - started (runners_of job rs) \<noteq> {}"
    "sound_jobs (fst (snd r))" "\<And>n. n \<noteq> js_Name job \<Longrightarrow> job_phase (fst (snd r)) n = job_phase V n"
    "jobs_done V \<subseteq> jobs_done (fst (snd r))" "js_Name job \<in> jobs_done (fst (snd r)) \<longrightarrow> step_names job \<subseteq> succeeded (fst (snd r))"
proof -
  let ?m = "buildJobStatusMap W" and ?N = "set (js_Needs job) \<subseteq> jobs_done W"
  have same: "js_Name job \<in> jobs_done V \<longleftrightarrow> js_Name job \<in> jobs_done W" using jobs(3) by (simp add: jobs_done_def)
  have decision: "evaluateJobWhen job ?m = (if ?N then jobRun else jobWait)"
    using evaluateJobWhen_sound [OF jobs(1), of job] valid by (simp add: valid_job_def)
  consider (finished) "js_Name job \<in> jobs_done W" | (waits) "js_Name job \<notin> jobs_done W" "\<not> ?N" | (runs) "js_Name job \<notin> jobs_done W" ?N by blast
  then show thesis
  proof cases
    case finished
    then have "snd r = (V, v)" using terminalJob_sound [OF jobs(1)] by (simp add: r_def reconcileJob_def job_def)
    then show ?thesis using that [of "[]"] track finished same jobs(2,4) by simp
  next
    case waits
    then have "\<not> terminalJob (map_of ?m (js_Name job))" using terminalJob_sound [OF jobs(1)] by simp
    then have "snd r = (V, v) \<or> snd r = upsertJobStatus e (js_Name job) JobPhaseWaiting V v"
      using decision waits(2) by (auto simp: r_def reconcileJob_def job_def Let_def split_beta)
    then have r: "wf_StepStatuses (fst (snd r)) = wf_StepStatuses V" "w_log (snd (snd r)) = w_log v" "sound_jobs (fst (snd r))"
      "\<And>n. n \<noteq> js_Name job \<Longrightarrow> job_phase (fst (snd r)) n = job_phase V n" "js_Name job \<notin> jobs_done (fst (snd r))"
      using jobs(2) waits(1) same by (auto simp: sound_upsert job_phase_upsert jobs_done_def)
    have "jobs_done V \<subseteq> jobs_done (fst (snd r))" using r(4) waits(1) same by (auto simp: jobs_done_def) metis
    then show ?thesis using that [of "[]"] on_track_cong [OF r(1) track refl] r waits(2) by (simp add: succeeded_def)
  next
    case runs
    then have "\<not> terminalJob (map_of ?m (js_Name job))" using terminalJob_sound [OF jobs(1)] by simp
    then have r: "r = runJob e i rs (map_of ?m (js_Name job)) V v" using decision runs(2) by (simp add: r_def reconcileJob_def job_def)
    have notyet: "js_Name job \<notin> jobs_done V" using runs(1) same by simp
    note run = runJob_on_track [of V i rs, folded job_def, OF track valid jobs(2) notyet rs own, of "map_of ?m (js_Name job)" v, folded r]
    show ?thesis
    proof (rule run)
      fix new
      assume new: "created_runners (w_log (snd (snd r))) = created_runners (w_log v) @ new"
        "list_all (\<lambda>x. jobOf x = Some (js_Name job)) new" "on_track (js_Steps job) (fst (snd r)) (runners_of job rs @ new)"
        "succeeded V \<subseteq> succeeded (fst (snd r))" "succeeded (fst (snd r)) \<subseteq> succeeded V \<union> step_names job"
        "list_all (\<lambda>r. rn_Phase r = RunnerPhaseSucceeded) rs \<longrightarrow>
          js_Name job \<in> jobs_done (fst (snd r)) \<or> started new - started (runners_of job rs) \<noteq> {}"
        "sound_jobs (fst (snd r))" "\<And>n. n \<noteq> js_Name job \<Longrightarrow> job_phase (fst (snd r)) n = job_phase V n"
        "js_Name job \<in> jobs_done (fst (snd r)) \<longrightarrow> step_names job \<subseteq> succeeded (fst (snd r))"
      have "jobs_done V \<subseteq> jobs_done (fst (snd r))" using new(8) notyet by (auto simp: jobs_done_def) metis
      then show ?thesis using that [OF new(1-5) _ new(7,8) _ new(9)] new(6) by blast
    qed
  qed
qed

lemma on_track_other:
  assumes "on_track steps V rs" "healthy V'" "distinct (map ss_Name (wf_StepStatuses V'))"
    and "succeeded V' \<inter> st_Name ` set steps = succeeded V \<inter> st_Name ` set steps"
    and "\<forall>s \<in> set steps. set (st_DependsOn s) \<subseteq> st_Name ` set steps"
  shows "on_track steps V' rs"
proof -
  let ?N = "st_Name ` set steps"
  have V: "succeeded V \<inter> ?N \<subseteq> started rs" "started rs \<subseteq> ?N" "\<forall>s \<in> set steps. st_Name s \<in> started rs \<longrightarrow> set (st_DependsOn s) \<subseteq> succeeded V"
    using assms(1) by (simp_all add: on_track_def)
  have "succeeded V' \<inter> ?N \<subseteq> started rs" unfolding assms(4) by (rule V(1))
  moreover have "set (st_DependsOn s) \<subseteq> succeeded V'" if "s \<in> set steps" "st_Name s \<in> started rs" for s
  proof -
    have "set (st_DependsOn s) \<subseteq> succeeded V \<inter> ?N" using V(3) assms(5) that by blast
    then show ?thesis unfolding assms(4) [symmetric] by blast
  qed
  ultimately show ?thesis using assms(2,3) V(2) by (simp add: on_track_def)
qed

section \<open>All jobs\<close>

definition valid_jobs :: "JobSpec list \<Rightarrow> bool" where
  "valid_jobs jobs \<longleftrightarrow> list_all valid_job jobs \<and> distinct (map js_Name jobs) \<and>
     distinct (concat (map (\<lambda>job. map st_Name (js_Steps job)) jobs))"

lemma distinct_concat_disjoint:
  "distinct (concat (map f xs)) \<Longrightarrow> x \<in> set xs \<Longrightarrow> y \<in> set xs \<Longrightarrow> x \<noteq> y \<Longrightarrow> set (f x) \<inter> set (f y) = {}"
  by (induction xs) auto

lemma distinct_concat_part: "distinct (concat (map f xs)) \<Longrightarrow> x \<in> set xs \<Longrightarrow> distinct (f x)"
  by (induction xs) auto

lemma valid_jobsD:
  assumes "valid_jobs jobs" "job \<in> set jobs"
  shows "valid_job job" "\<forall>s \<in> set (js_Steps job). set (st_DependsOn s) \<subseteq> step_names job"
    "job' \<in> set jobs \<Longrightarrow> job' \<noteq> job \<Longrightarrow> js_Name job' \<noteq> js_Name job \<and> step_names job' \<inter> step_names job = {}"
proof -
  show v: "valid_job job" using assms by (simp add: valid_jobs_def list_all_iff)
  show "\<forall>s \<in> set (js_Steps job). set (st_DependsOn s) \<subseteq> step_names job"
    using v by (auto simp: valid_job_def detectCycle_def cycleDetector_empty_iff)
  assume "job' \<in> set jobs" "job' \<noteq> job"
  then show "js_Name job' \<noteq> js_Name job \<and> step_names job' \<inter> step_names job = {}"
    using assms distinct_concat_disjoint [of "\<lambda>job. map st_Name (js_Steps job)" jobs job' job]
    by (auto simp: valid_jobs_def distinct_map inj_on_def)
qed

definition jobs_on_track :: "JobSpec list \<Rightarrow> Workflow \<Rightarrow> Runner list \<Rightarrow> bool" where
  "jobs_on_track jobs W rs \<longleftrightarrow> sound_jobs W \<and>
     (\<forall>job \<in> set jobs. on_track (js_Steps job) W (runners_of job rs) \<and> (js_Name job \<in> jobs_done W \<longrightarrow> step_names job \<subseteq> succeeded W))"

lemma runners_of_append: "runners_of job (rs @ rs') = runners_of job rs @ runners_of job rs'"
  by (simp add: filterRunnersByJob_def)

lemma runners_of_labelled: "list_all (\<lambda>x. jobOf x = Some n) rs \<Longrightarrow> filterRunnersByJob rs m = (if m = n then rs else [])"
  by (induction rs) (auto simp: filterRunnersByJob_def jobOf_def)

definition job_loop :: "env \<Rightarrow> Runner list \<Rightarrow> bool \<Rightarrow> Workflow \<Rightarrow> world \<Rightarrow> nat \<Rightarrow> bool \<times> Workflow \<times> world" where
  "job_loop e rs u W w k = foldl (\<lambda>(updated, V, v) i.
     let (jobUpdated, V, v) = reconcileJob e i rs (buildJobStatusMap W) V v in (updated \<or> jobUpdated, V, v)) (u, W, w) [0..<k]"

lemma job_loop_simps:
  "job_loop e rs u W w 0 = (u, W, w)"
  "snd (job_loop e rs u W w (Suc k)) =
     snd (reconcileJob e k rs (buildJobStatusMap W) (fst (snd (job_loop e rs u W w k))) (snd (snd (job_loop e rs u W w k))))"
  "fst (job_loop e rs u W w (Suc k)) \<longleftrightarrow> fst (job_loop e rs u W w k) \<or>
     fst (reconcileJob e k rs (buildJobStatusMap W) (fst (snd (job_loop e rs u W w k))) (snd (snd (job_loop e rs u W w k))))"
  by (simp_all add: job_loop_def split_beta)

lemma reconcileJobs_loop: "reconcileJobs e rs u W w = job_loop e rs u W w (length (wsp_Jobs (wf_Spec W)))"
  by (simp add: reconcileJobs_def job_loop_def Let_def)

text \<open>The state of the loop before the job \<open>k\<close>: the jobs before it have been dealt with, the others are as they were.\<close>

definition jobs_processed :: "JobSpec list \<Rightarrow> Workflow \<Rightarrow> Runner list \<Rightarrow> nat \<Rightarrow> Workflow \<Rightarrow> Runner list \<Rightarrow> bool" where
  "jobs_processed jobs W rs k V new \<longleftrightarrow>
     jobs_on_track jobs V (rs @ new) \<and> (\<forall>x \<in> set new. \<exists>j < k. jobOf x = Some (js_Name (jobs ! j))) \<and>
     length (wsp_Jobs (wf_Spec V)) = length jobs \<and>
     (\<forall>j. k \<le> j \<longrightarrow> job_at V j = jobs ! j) \<and>
     (\<forall>j. k \<le> j \<and> j < length jobs \<longrightarrow> job_phase V (js_Name (jobs ! j)) = job_phase W (js_Name (jobs ! j))) \<and>
     jobs_done W \<subseteq> jobs_done V \<and>
     (list_all (\<lambda>r. rn_Phase r = RunnerPhaseSucceeded) rs \<longrightarrow>
        (\<forall>j < k. set (js_Needs (jobs ! j)) \<subseteq> jobs_done W \<longrightarrow>
           js_Name (jobs ! j) \<in> jobs_done V \<or> started (runners_of (jobs ! j) new) - started (runners_of (jobs ! j) rs) \<noteq> {}))"

lemma jobs_processed_step:
  assumes valid: "valid_jobs jobs" and W: "sound_jobs W" and k: "k < length jobs" and P: "jobs_processed jobs W rs k V new"
    and rs: "unfailed rs"
    and own: "sets_owner (e_SetControllerReference e)" "can_own (e_SetControllerReference e)"
  shows "\<exists>more. created_runners (w_log (snd (snd (reconcileJob e k rs (buildJobStatusMap W) V v)))) = created_runners (w_log v) @ more \<and>
    jobs_processed jobs W rs (Suc k) (fst (snd (reconcileJob e k rs (buildJobStatusMap W) V v))) (new @ more)"
proof -
  let ?job = "jobs ! k" and ?r = "reconcileJob e k rs (buildJobStatusMap W) V v"
  let ?V = "fst (snd ?r)"
  note P' = P [unfolded jobs_processed_def jobs_on_track_def]
  have job: "job_at V k = ?job" "?job \<in> set jobs" using P' k by auto
  note vj = valid_jobsD [OF valid job(2)]
  have dist: "jobs ! j = ?job \<longleftrightarrow> j = k" "js_Name (jobs ! j) = js_Name ?job \<longleftrightarrow> j = k" if "j < length jobs" for j
    using valid k that nth_eq_iff_index_eq [of "map js_Name jobs" j k] by (auto simp: valid_jobs_def)
  have none: "runners_of ?job new = []"
    using P' k dist(2) by (fastforce simp: filterRunnersByJob_def jobOf_def filter_empty_conv split: option.splits)
  have track: "on_track (js_Steps ?job) V (runners_of ?job rs)"
    using P' job(2) none by (metis runners_of_append append_Nil2)
  have phase: "job_phase V (js_Name ?job) = job_phase W (js_Name ?job)" and V: "sound_jobs V"
    and dn: "js_Name ?job \<in> jobs_done V \<longrightarrow> step_names ?job \<subseteq> succeeded V" using P' k by auto
  note step = reconcileJob_on_track [of V k rs, unfolded job(1), OF track vj(1) W V phase dn rs own, of v]
  show ?thesis
  proof (rule step)
    fix more
    assume more: "created_runners (w_log (snd (snd ?r))) = created_runners (w_log v) @ more"
      "list_all (\<lambda>x. jobOf x = Some (js_Name ?job)) more" "on_track (js_Steps ?job) ?V (runners_of ?job rs @ more)"
      "succeeded V \<subseteq> succeeded ?V" "succeeded ?V \<subseteq> succeeded V \<union> step_names ?job"
      "list_all (\<lambda>r. rn_Phase r = RunnerPhaseSucceeded) rs \<and> set (js_Needs ?job) \<subseteq> jobs_done W \<longrightarrow>
        js_Name ?job \<in> jobs_done ?V \<or> started more - started (runners_of ?job rs) \<noteq> {}"
      "sound_jobs ?V" "\<And>n. n \<noteq> js_Name ?job \<Longrightarrow> job_phase ?V n = job_phase V n" "jobs_done V \<subseteq> jobs_done ?V"
      "js_Name ?job \<in> jobs_done ?V \<longrightarrow> step_names ?job \<subseteq> succeeded ?V"
    have lab: "runners_of ?job more = more" "\<And>j. j < length jobs \<Longrightarrow> j \<noteq> k \<Longrightarrow> runners_of (jobs ! j) more = []"
      using runners_of_labelled [OF more(2)] dist(2) by simp_all
    have all: "on_track (js_Steps job') ?V (runners_of job' (rs @ new @ more))" if j: "job' \<in> set jobs" for job'
    proof (cases "job' = ?job")
      case True
      then show ?thesis using more(3) none lab(1) by (simp add: runners_of_append)
    next
      case False
      note other = valid_jobsD [OF valid j] vj(3) [OF j False]
      have "succeeded ?V \<inter> step_names job' = succeeded V \<inter> step_names job'" using more(4,5) other(4) by blast
      moreover have "runners_of job' (rs @ new @ more) = runners_of job' (rs @ new)"
        using runners_of_labelled [OF more(2)] other(4) by (simp add: runners_of_append)
      ultimately show ?thesis using on_track_other [OF _ _ _ _ other(2)] P' j more(3) by (metis on_track_def)
    qed
    have "\<exists>j < Suc k. jobOf x = Some (js_Name (jobs ! j))" if "x \<in> set (new @ more)" for x
    proof (cases "x \<in> set new")
      case True
      then obtain j where "j < k" "jobOf x = Some (js_Name (jobs ! j))" using P' by blast
      then show ?thesis by (intro exI [of _ j]) simp
    next
      case False
      then show ?thesis using that more(2) by (intro exI [of _ k]) (simp add: list_all_iff)
    qed
    moreover have "length (wsp_Jobs (wf_Spec ?V)) = length jobs" using P' reconcileJob_facts(1) [of e k rs "buildJobStatusMap W" V v] by simp
    moreover have "job_at ?V j = jobs ! j" if "Suc k \<le> j" for j
      using that P' reconcileJob_facts(2) [of j k e rs "buildJobStatusMap W" V v] by simp
    moreover have "job_phase ?V (js_Name (jobs ! j)) = job_phase W (js_Name (jobs ! j))" if "Suc k \<le> j \<and> j < length jobs" for j
      using that P' more(8) dist(2) [of j] by simp
    moreover have "js_Name (jobs ! j) \<in> jobs_done ?V \<or>
        started (runners_of (jobs ! j) (new @ more)) - started (runners_of (jobs ! j) rs) \<noteq> {}"
      if j: "list_all (\<lambda>r. rn_Phase r = RunnerPhaseSucceeded) rs" "j < Suc k" "set (js_Needs (jobs ! j)) \<subseteq> jobs_done W" for j
    proof (cases "j = k")
      case True
      then show ?thesis using j more(6) none lab(1) by (simp add: runners_of_append)
    next
      case False
      then have "j < k" "runners_of (jobs ! j) (new @ more) = runners_of (jobs ! j) new"
        using j(2) lab(2) [of j] k by (simp_all add: runners_of_append)
      then show ?thesis using j P' more(9) by auto
    qed
    moreover have "step_names job' \<subseteq> succeeded ?V" if j: "job' \<in> set jobs" "js_Name job' \<in> jobs_done ?V" for job'
    proof (cases "job' = ?job")
      case False
      then have "js_Name job' \<in> jobs_done V" using j vj(3) more(8) [of "js_Name job'"] by (simp add: jobs_done_def)
      then show ?thesis using P' j(1) more(4) by blast
    qed (use more(10) j in blast)
    then have "jobs_on_track jobs ?V (rs @ new @ more)" using more(7) all by (simp add: jobs_on_track_def)
    moreover have "jobs_done W \<subseteq> jobs_done ?V" using P' more(9) by blast
    ultimately have "jobs_processed jobs W rs (Suc k) ?V (new @ more)" unfolding jobs_processed_def by simp
    then show ?thesis using more(1) by blast
  qed
qed

lemma reconcileJobs_on_track:
  assumes valid: "valid_jobs jobs" and W: "jobs_on_track jobs W rs" "wsp_Jobs (wf_Spec W) = jobs"
    and rs: "unfailed rs"
    and own: "sets_owner (e_SetControllerReference e)" "can_own (e_SetControllerReference e)"
  shows "\<exists>new. created_runners (w_log (snd (snd (reconcileJobs e rs u W w)))) = created_runners (w_log w) @ new \<and>
    jobs_processed jobs W rs (length jobs) (fst (snd (reconcileJobs e rs u W w))) new"
proof -
  have "\<exists>new. created_runners (w_log (snd (snd (job_loop e rs u W w k)))) = created_runners (w_log w) @ new \<and>
      jobs_processed jobs W rs k (fst (snd (job_loop e rs u W w k))) new" if "k \<le> length jobs" for k
    using that
  proof (induction k)
    case 0
    show ?case using W by (intro exI [of _ "[]"]) (simp add: job_loop_simps jobs_processed_def)
  next
    case (Suc k)
    let ?s = "job_loop e rs u W w k"
    obtain new where new: "created_runners (w_log (snd (snd ?s))) = created_runners (w_log w) @ new"
      "jobs_processed jobs W rs k (fst (snd ?s)) new" using Suc by auto
    from jobs_processed_step [OF valid _ _ new(2) rs own, of "snd (snd ?s)"] Suc.prems W(1) obtain more where
      "created_runners (w_log (snd (snd (job_loop e rs u W w (Suc k))))) = created_runners (w_log (snd (snd ?s))) @ more"
      "jobs_processed jobs W rs (Suc k) (fst (snd (job_loop e rs u W w (Suc k)))) (new @ more)"
      unfolding job_loop_simps(2) by (auto simp: jobs_on_track_def)
    then show ?case using new(1) by (intro exI [of _ "new @ more"]) simp
  qed
  then show ?thesis unfolding reconcileJobs_loop W(2) by blast
qed

text \<open>A loop that reports no update has changed no status.\<close>

lemma runJob_quiet: "fst (runJob e i rs js W w) \<or> wf_Status (fst (snd (runJob e i rs js W w))) = wf_Status W"
proof (cases "map_option jst_Phase js = Some JobPhaseRunning")
  case True
  let ?job = "(job_at W i)\<lparr>js_Steps := topologicalSortSteps (js_Steps (job_at W i))\<rparr>"
  let ?W = "W\<lparr>wf_Spec := (wf_Spec W)\<lparr>wsp_Jobs := (wsp_Jobs (wf_Spec W))[i := ?job]\<rparr>\<rparr>"
  let ?l = "loop_from e (buildJobStepRunner e ?job) (js_Name ?job) (buildRunnerMap (filterRunnersByJob rs (js_Name ?job))) (step_loop_init ?W w) (js_Steps ?job)"
  have "lp_updated ?l \<or> lp_wf ?l = ?W" using loop_quiet [of "step_loop_init ?W w"] by (simp add: quiet_step_def)
  then have "lp_updated ?l \<or> wf_Status (lp_wf ?l) = wf_Status W" by auto
  then show ?thesis using True
    by (simp add: runJob_def reconcileJobSteps_def reconcileStepLoop_eq Let_def split_beta del: map_option_eq_Some)
qed (simp add: runJob_def Let_def split_beta del: map_option_eq_Some)

lemma reconcileJobs_quiet: "fst (reconcileJobs e rs u W w) \<or> wf_Status (fst (snd (reconcileJobs e rs u W w))) = wf_Status W"
proof -
  have "fst (reconcileJob e i rs m V v) \<or> wf_Status (fst (snd (reconcileJob e i rs m V v))) = wf_Status V" for i m V v
    using runJob_quiet by (auto simp: reconcileJob_def Let_def split_beta split: jobDecision.split)
  then have "fst (job_loop e rs u W w k) \<or> wf_Status (fst (snd (job_loop e rs u W w k))) = wf_Status W" for k
    by (induction k) (auto simp: job_loop_simps, metis)
  then show ?thesis by (simp add: reconcileJobs_loop)
qed

section \<open>Runs\<close>

text \<open>If a job is not finished, some job is next.\<close>

lemma next_job:
  assumes "distinct (map js_Name jobs)" "detectJobCycle jobs = []" "\<not> js_Name ` set jobs \<subseteq> A"
  shows "\<exists>job \<in> set jobs. js_Name job \<notin> A \<and> set (js_Needs job) \<subseteq> A"
proof (rule ccontr)
  assume none: "\<not> ?thesis"
  let ?R = "dep_rel js_Name js_Needs jobs"
  from assms(2) have deps: "\<And>job. job \<in> set jobs \<Longrightarrow> set (js_Needs job) \<subseteq> js_Name ` set jobs" and "acyclic ?R"
    by (auto simp: detectJobCycle_def cycleDetector_empty_iff)
  then have "wf (?R\<inverse>)" by (intro finite_acyclic_wf_converse finite_dep_rel)
  then have "n \<in> js_Name ` set jobs \<longrightarrow> n \<in> A" for n
  proof (induction n)
    case (less n)
    show ?case
    proof
      assume "n \<in> js_Name ` set jobs"
      then obtain job where job: "job \<in> set jobs" "js_Name job = n" by auto
      have "d \<in> A" if "d \<in> set (js_Needs job)" for d
      proof -
        have "(n, d) \<in> ?R" using job that assms(1) by (auto simp: dep_rel_def find_key_distinct)
        then show ?thesis using less deps [OF job(1)] that by blast
      qed
      then show "n \<in> A" using none job by blast
    qed
  qed
  then show False using assms(3) by blast
qed

lemma job_pass_result:
  assumes coop: "cooperative e req W rs w" and W: "om_DeletionTimestamp (wf_Meta W) = None"
    "wsp_Jobs (wf_Spec W) \<noteq> []" "detectJobCycle (wsp_Jobs (wf_Spec W)) = []"
  obtains P v u where "wf_StepStatuses P = wf_StepStatuses W" "wf_JobStatuses P = wf_JobStatuses W" "wf_Spec P = wf_Spec W" "w_log v = []"
    "created_runners (w_log (snd (Reconcile_Workflow e req w))) = created_runners (w_log (snd (snd (reconcileJobs e rs u P v))))"
    "wf_StepStatuses (next_version W (written (w_log (snd (Reconcile_Workflow e req w))))) = wf_StepStatuses (fst (snd (reconcileJobs e rs u P v)))"
    "wf_JobStatuses (next_version W (written (w_log (snd (Reconcile_Workflow e req w))))) = wf_JobStatuses (fst (snd (reconcileJobs e rs u P v)))"
    "wf_Phase (next_version W (written (w_log (snd (Reconcile_Workflow e req w))))) = computeJobWorkflowPhase (fst (snd (reconcileJobs e rs u P v)))"
    "wst_CompletionTime (wf_Status (next_version W (written (w_log (snd (Reconcile_Workflow e req w)))))) = None \<longrightarrow>
      isWorkflowTerminal (wf_Phase (next_version W (written (w_log (snd (Reconcile_Workflow e req w)))))) \<longrightarrow>
      isWorkflowTerminal (wf_Phase W) \<and> wst_CompletionTime (wf_Status W) = None"
proof -
  let ?w = "snd (timeoutElapsed e W w)"
  let ?P = "fst (snd (startWorkflow e W ?w))" and ?v = "snd (snd (startWorkflow e W ?w))" and ?u = "fst (startWorkflow e W ?w)"
  let ?r = "reconcileJobs e rs ?u ?P ?v"
  let ?V = "fst (snd ?r)" and ?ph = "computeJobWorkflowPhase (fst (snd ?r))" and ?log = "w_log (snd (Reconcile_Workflow e req w))"
  have "w_log ?w = []" using coop by (simp add: cooperative_parts timeoutElapsed_def split_beta split: option.split)
  then have v: "w_log ?v = []" by (simp add: startWorkflow_facts(5))
  have "Reconcile_Workflow e req w = runJobWorkflow e rs W ?w"
    using coop W by (simp add: cooperative_parts Reconcile_Workflow_def reconcileJobWorkflow_def guardWorkflow_def split_beta)
  then have eq: "Reconcile_Workflow e req w =
      finishWorkflow e ''All jobs completed successfully'' W ?ph (fst ?r) ?V (snd (snd ?r))"
    by (simp add: runJobWorkflow_def split_beta Let_def)
  have w0: "written (w_log (snd (snd ?r))) = []" using reconcileJobs_written [of e rs ?u ?P ?v] v by simp
  from finishWorkflow_written [of e "''All jobs completed successfully''" W ?ph "fst ?r" ?V "snd (snd ?r)"]
  obtain xs where xs: "written ?log = xs" "created_runners ?log = created_runners (w_log (snd (snd ?r)))"
    "\<And>W'. W' \<in> set xs \<Longrightarrow> wf_StepStatuses W' = wf_StepStatuses ?V \<and> wf_JobStatuses W' = wf_JobStatuses ?V \<and> wf_Phase W' = ?ph \<and>
       (isWorkflowTerminal ?ph \<longrightarrow> wst_CompletionTime (wf_Status W') \<noteq> None)"
    "fst ?r \<or> ?ph \<noteq> wf_Phase ?V \<longrightarrow> length xs = 1"
    unfolding eq w0 by (auto simp: list_all_iff)
  note P = startWorkflow_facts [where e = e and W = W and w = ?w]
  have phase: "wf_Phase ?P = wf_Phase W" by (simp add: startWorkflow_def split_beta Let_def)
  let ?W = "next_version W (written ?log)"
  have same: "wf_StepStatuses ?W = wf_StepStatuses ?V \<and> wf_JobStatuses ?W = wf_JobStatuses ?V \<and> wf_Phase ?W = ?ph \<and>
     (wst_CompletionTime (wf_Status ?W) = None \<longrightarrow> isWorkflowTerminal (wf_Phase ?W) \<longrightarrow>
        isWorkflowTerminal (wf_Phase W) \<and> wst_CompletionTime (wf_Status W) = None)"
  proof (cases xs)
    case Nil
    with xs(4) have "\<not> fst ?r" "?ph = wf_Phase ?V" by auto
    moreover from this have "wf_Status ?V = wf_Status ?P" using reconcileJobs_quiet by blast
    ultimately show ?thesis using Nil xs(1) phase P(1,2) by (simp add: next_version_def)
  next
    case (Cons W' ys)
    then show ?thesis using xs(1) xs(3) [of W'] by (auto simp: next_version_def persist_def)
  qed
  show thesis by (rule that [OF P(1,2,3) v xs(2)]) (use same in blast)+
qed

definition job_potential :: "JobSpec list \<Rightarrow> Workflow \<Rightarrow> Runner list \<Rightarrow> nat" where
  "job_potential jobs W rs = sum_list (map (\<lambda>job. card (started (runners_of job rs))) jobs) + card (js_Name ` set jobs \<inter> jobs_done W)"

definition job_bound :: "JobSpec list \<Rightarrow> nat" where
  "job_bound jobs = sum_list (map (\<lambda>job. length (js_Steps job)) jobs) + length jobs"

lemma job_potential_bound: "jobs_on_track jobs W rs \<Longrightarrow> job_potential jobs W rs \<le> job_bound jobs"
proof -
  assume track: "jobs_on_track jobs W rs"
  have "card (started (runners_of job rs)) \<le> length (js_Steps job)" if "job \<in> set jobs" for job
  proof -
    have "card (started (runners_of job rs)) \<le> card (step_names job)"
      using track that by (intro card_mono) (auto simp: jobs_on_track_def on_track_def)
    also have "\<dots> \<le> length (js_Steps job)" by (metis card_length length_map set_map)
    finally show ?thesis .
  qed
  moreover have "card (js_Name ` set jobs \<inter> jobs_done W) \<le> length jobs"
    by (metis card_length card_mono finite_set inf_le1 le_trans length_map set_map)
  ultimately show ?thesis unfolding job_potential_def job_bound_def by (intro add_mono sum_list_mono) auto
qed

lemma sum_list_less:
  "(\<And>x. x \<in> set xs \<Longrightarrow> f x \<le> (g x :: nat)) \<Longrightarrow> y \<in> set xs \<Longrightarrow> f y < g y \<Longrightarrow> sum_list (map f xs) < sum_list (map g xs)"
proof (induction xs)
  case (Cons x xs)
  then have "sum_list (map f xs) \<le> sum_list (map g xs)" by (intro sum_list_mono) simp
  then show ?case using Cons by (cases "y = x") (auto intro: add_less_le_mono add_le_less_mono)
qed simp

lemma runners_of_meta: "map rn_Meta rs' = map rn_Meta rs \<Longrightarrow> map stepOf (filterRunnersByJob rs' n) = map stepOf (filterRunnersByJob rs n)"
proof -
  let ?Q = "\<lambda>m. case map_of (om_Labels m) job_label of None \<Rightarrow> False | Some jn \<Rightarrow> jn = n"
  have "map stepOf (filterRunnersByJob rs n) = map (\<lambda>m. map_of (om_Labels m) step_label) (filter ?Q (map rn_Meta rs))" for rs
    by (simp add: filterRunnersByJob_def filter_map comp_def stepOf_def)
  then show "map rn_Meta rs' = map rn_Meta rs \<Longrightarrow> map stepOf (filterRunnersByJob rs' n) = map stepOf (filterRunnersByJob rs n)" by simp
qed

lemma job_state_cong:
  assumes "wf_StepStatuses W' = wf_StepStatuses W" "wf_JobStatuses W' = wf_JobStatuses W"
  shows "succeeded W' = succeeded W" "jobs_done W' = jobs_done W" "sound_jobs W' = sound_jobs W"
  using assms by (simp_all add: succeeded_def jobs_done_def job_phase_def sound_jobs_def)

lemma jobs_on_track_cong:
  assumes "wf_StepStatuses W' = wf_StepStatuses W" "wf_JobStatuses W' = wf_JobStatuses W" "map rn_Meta rs' = map rn_Meta rs" "jobs_on_track jobs W rs"
  shows "jobs_on_track jobs W' rs'"
  using assms(4) on_track_cong [OF assms(1) _ runners_of_meta [OF assms(3)]] unfolding jobs_on_track_def job_state_cong [OF assms(1,2)] by blast

lemma all_jobs_done_phase:
  assumes "js_Name ` set (wsp_Jobs (wf_Spec W)) \<subseteq> jobs_done W" "wsp_Jobs (wf_Spec W) \<noteq> []"
  shows "computeJobWorkflowPhase W = WorkflowPhaseSucceeded"
proof -
  have ok: "\<exists>j. findJobStatus (wf_JobStatuses W) n = Some j \<and> \<not> isActiveJobPhase j \<and> \<not> isFailedJobPhase j"
    if "n \<in> js_Name ` set (wsp_Jobs (wf_Spec W))" for n
    using assms(1) that by (auto simp: jobs_done_def job_phase_def isActiveJobPhase_def isFailedJobPhase_def)
  moreover have "wf_JobStatuses W \<noteq> []" using assms by (cases "wsp_Jobs (wf_Spec W)") (auto simp: jobs_done_def job_phase_def findJobStatus_def)
  ultimately show ?thesis by (auto simp: computeJobWorkflowPhase_def job_kind.succeeded_iff getSpecJobNames_def)
qed

lemma job_names_kept: "map js_Name (wsp_Jobs (wf_Spec (fst (snd (reconcileJobs e rs u W w))))) = map js_Name (wsp_Jobs (wf_Spec W))"
proof -
  have "map js_Name (wsp_Jobs (wf_Spec (fst (snd (runJob e i rs js V v))))) = map js_Name (wsp_Jobs (wf_Spec V))" for i js V v
    by (cases "i < length (wsp_Jobs (wf_Spec V))") (simp_all add: runJob_facts(1) map_update list_update_beyond list_update_same_conv)
  then have "map js_Name (wsp_Jobs (wf_Spec (fst (snd (reconcileJob e i rs m V v))))) = map js_Name (wsp_Jobs (wf_Spec V))" for i m V v
    by (auto simp: reconcileJob_def Let_def split_beta split: jobDecision.split)
  then have "map js_Name (wsp_Jobs (wf_Spec (fst (snd (job_loop e rs u W w k))))) = map js_Name (wsp_Jobs (wf_Spec W))" for k
    by (induction k) (simp_all add: job_loop_simps)
  then show ?thesis by (simp add: reconcileJobs_loop)
qed

lemma job_potential_grows:
  assumes P: "jobs_processed jobs W rs (length jobs) V new" and track: "jobs_on_track jobs W rs"
  shows "job_potential jobs W rs \<le> job_potential jobs V (rs @ new)"
    and "list_all (\<lambda>r. rn_Phase r = RunnerPhaseSucceeded) rs \<Longrightarrow> distinct (map js_Name jobs) \<Longrightarrow> detectJobCycle jobs = [] \<Longrightarrow>
      \<not> js_Name ` set jobs \<subseteq> jobs_done W \<Longrightarrow> job_potential jobs W rs < job_potential jobs V (rs @ new)"
proof -
  let ?a = "\<lambda>job. card (started (runners_of job rs))" and ?b = "\<lambda>job. card (started (runners_of job (rs @ new)))"
  let ?N = "js_Name ` set jobs"
  have fin: "finite (started (runners_of job (rs @ new)))" if "job \<in> set jobs" for job
    using P that finite_subset [of "started (runners_of job (rs @ new))" "step_names job"]
    by (auto simp: jobs_processed_def jobs_on_track_def on_track_def)
  have a: "?a job \<le> ?b job" if "job \<in> set jobs" for job
    using fin [OF that] by (intro card_mono) (auto simp: runners_of_append started_append)
  have d: "?N \<inter> jobs_done W \<subseteq> ?N \<inter> jobs_done V" using P by (auto simp: jobs_processed_def)
  have b: "card (?N \<inter> jobs_done W) \<le> card (?N \<inter> jobs_done V)" using d by (intro card_mono) auto
  show "job_potential jobs W rs \<le> job_potential jobs V (rs @ new)"
    unfolding job_potential_def using a b by (intro add_mono sum_list_mono) auto
  assume fair: "list_all (\<lambda>r. rn_Phase r = RunnerPhaseSucceeded) rs" and "distinct (map js_Name jobs)" "detectJobCycle jobs = []" "\<not> ?N \<subseteq> jobs_done W"
  then obtain job where job: "job \<in> set jobs" "js_Name job \<notin> jobs_done W" "set (js_Needs job) \<subseteq> jobs_done W"
    using next_job by blast
  then have "js_Name job \<in> jobs_done V \<or> started (runners_of job new) - started (runners_of job rs) \<noteq> {}"
    using P fair by (auto simp: jobs_processed_def in_set_conv_nth)
  then show "job_potential jobs W rs < job_potential jobs V (rs @ new)"
  proof
    assume "js_Name job \<in> jobs_done V"
    then have "card (?N \<inter> jobs_done W) < card (?N \<inter> jobs_done V)" using d job by (intro psubset_card_mono) auto
    then show ?thesis unfolding job_potential_def using a by (intro add_le_less_mono sum_list_mono) auto
  next
    assume "started (runners_of job new) - started (runners_of job rs) \<noteq> {}"
    then have "?a job < ?b job" using fin [OF job(1)] by (intro psubset_card_mono) (auto simp: runners_of_append started_append)
    then show ?thesis unfolding job_potential_def using a b job(1) by (intro add_less_le_mono sum_list_less) auto
  qed
qed

lemma happy_run_jobs:
  assumes "happy_run W0 k W rs" and W0: "om_DeletionTimestamp (wf_Meta W0) = None" "wsp_Jobs (wf_Spec W0) = jobs" "jobs \<noteq> []"
    "valid_jobs jobs" "detectJobCycle jobs = []" "wf_Status W0 = zero_WorkflowStatus"
  shows "jobs_on_track jobs W rs \<and> (k \<le> job_potential jobs W rs \<or> js_Name ` set jobs \<subseteq> jobs_done W) \<and>
    (js_Name ` set jobs \<subseteq> jobs_done W \<longrightarrow> wf_Phase W = WorkflowPhaseSucceeded) \<and>
    (isWorkflowTerminal (wf_Phase W) \<longrightarrow> wst_CompletionTime (wf_Status W) \<noteq> None)"
  using assms(1)
proof (induction rule: happy_run.induct)
  case start
  have "jobs_done W0 = {}" "\<not> js_Name ` set jobs \<subseteq> {}" using W0(3,6) by (auto simp: jobs_done_def job_phase_def findJobStatus_def zero_WorkflowStatus_def)
  then show ?case using W0(6)
    by (simp add: jobs_on_track_def on_track_def sound_jobs_def healthy_def succeeded_def started_def filterRunnersByJob_def
        zero_WorkflowStatus_def isWorkflowTerminal_def)
next
  case (pass k W rs rs' e req w effects)
  let ?W = "next_version W (written effects)" and ?new = "created_runners effects" and ?N = "js_Name ` set jobs"
  let ?fair = "list_all (\<lambda>r. rn_Phase r = RunnerPhaseSucceeded) rs'"
  have W: "wf_Spec W = wf_Spec W0" "wf_Meta W = wf_Meta W0" using happy_run_frame [OF pass.hyps(1)] by simp_all
  obtain P v u where p: "wf_StepStatuses P = wf_StepStatuses W" "wf_JobStatuses P = wf_JobStatuses W" "wf_Spec P = wf_Spec W" "w_log v = []"
    "?new = created_runners (w_log (snd (snd (reconcileJobs e rs' u P v))))"
    "wf_StepStatuses ?W = wf_StepStatuses (fst (snd (reconcileJobs e rs' u P v)))"
    "wf_JobStatuses ?W = wf_JobStatuses (fst (snd (reconcileJobs e rs' u P v)))"
    "wf_Phase ?W = computeJobWorkflowPhase (fst (snd (reconcileJobs e rs' u P v)))"
    "wst_CompletionTime (wf_Status ?W) = None \<longrightarrow> isWorkflowTerminal (wf_Phase ?W) \<longrightarrow>
      isWorkflowTerminal (wf_Phase W) \<and> wst_CompletionTime (wf_Status W) = None"
    using job_pass_result [OF pass.hyps(4)] W W0 pass.hyps(5) by metis
  let ?V = "fst (snd (reconcileJobs e rs' u P v))"
  have own: "sets_owner (e_SetControllerReference e)" "can_own (e_SetControllerReference e)" using pass.hyps(4) by (simp_all add: cooperative_parts)
  have track: "jobs_on_track jobs P rs'" by (rule jobs_on_track_cong [OF p(1,2) pass.hyps(2) conjunct1 [OF pass.IH]])
  have jobs: "wsp_Jobs (wf_Spec P) = jobs" using p(3) W W0(2) by simp
  from reconcileJobs_on_track [OF W0(4) track jobs _ own, of u v] pass.hyps(3)
  have processed: "jobs_processed jobs P rs' (length jobs) ?V ?new" using p(4,5) by (auto simp: unfailed_def)
  note cong = job_state_cong [OF p(6,7)] job_state_cong [OF p(1,2)]
  have track': "jobs_on_track jobs ?W (rs' @ ?new)" using processed jobs_on_track_cong [OF p(6,7) refl] by (simp add: jobs_processed_def)
  have mono: "jobs_done W \<subseteq> jobs_done ?W" using processed cong by (simp add: jobs_processed_def)
  have pot: "job_potential jobs P rs' = job_potential jobs W rs" "job_potential jobs ?W (rs' @ ?new) = job_potential jobs ?V (rs' @ ?new)"
  proof -
    have "started (runners_of job rs') = started (runners_of job rs)" for job
      unfolding started_def by (metis runners_of_meta [OF pass.hyps(2)] image_set)
    then show "job_potential jobs P rs' = job_potential jobs W rs" by (simp add: job_potential_def cong)
  qed (simp add: job_potential_def cong)
  have "distinct (map js_Name jobs)" using W0(4) by (simp add: valid_jobs_def)
  note grows = job_potential_grows [OF processed track, unfolded pot(1) pot(2) [symmetric]]
  have "(if ?fair then Suc k else k) \<le> job_potential jobs ?W (rs' @ ?new) \<or> ?N \<subseteq> jobs_done ?W"
  proof (cases "?N \<subseteq> jobs_done W")
    case False
    then show ?thesis using pass.IH grows(1) grows(2) [OF _ \<open>distinct (map js_Name jobs)\<close> W0(5)] cong by auto
  qed (use mono in blast)
  moreover have "wf_Phase ?W = WorkflowPhaseSucceeded" if "?N \<subseteq> jobs_done ?W"
  proof -
    have "js_Name ` set (wsp_Jobs (wf_Spec ?V)) = ?N" "wsp_Jobs (wf_Spec ?V) \<noteq> []"
      using job_names_kept [of e rs' u P v] jobs W0(3) by (metis image_set, auto)
    then show ?thesis using all_jobs_done_phase [of ?V] that cong p(8) by simp
  qed
  moreover have "isWorkflowTerminal (wf_Phase ?W) \<longrightarrow> wst_CompletionTime (wf_Status ?W) \<noteq> None" using p(9) pass.IH by blast
  ultimately show ?case using track' by blast
qed

text \<open>
  C4. A job-based Workflow terminates: if its jobs and all their steps have different names, there is no
  cycle among the jobs or among the steps of a job, no \<open>on_failure\<close> condition and no flat steps, then it
  is Succeeded, with a completion time and every job and every step Succeeded, once more passes than it
  has steps and jobs have found all their Runners succeeded, no matter how many other passes happen in
  between, and it stays so.  This holds of the runs in which every pass reads the current Workflow and
  Runners, its timeout has not elapsed and the quota of the namespace does not refuse it, its Runners
  can be owned and are created, its status patches are stored, and no Runner fails.
\<close>

theorem job_workflow_completes:
  assumes "happy_run W0 k W rs" "sum_list (map (\<lambda>job. length (js_Steps job)) (wsp_Jobs (wf_Spec W0))) + length (wsp_Jobs (wf_Spec W0)) < k"
    and "wf_Status W0 = zero_WorkflowStatus" "om_DeletionTimestamp (wf_Meta W0) = None"
    and "wsp_Steps (wf_Spec W0) = []" "wsp_Jobs (wf_Spec W0) \<noteq> []"
    and "distinct (map js_Name (wsp_Jobs (wf_Spec W0)))" "distinct (concat (map (\<lambda>job. map st_Name (js_Steps job)) (wsp_Jobs (wf_Spec W0))))"
    and "detectJobCycle (wsp_Jobs (wf_Spec W0)) = []"
    and "list_all (\<lambda>job. detectCycle (js_Steps job) = [] \<and> TrimSpace (js_When job) \<noteq> ''on_failure'' \<and>
      list_all (\<lambda>s. TrimSpace (st_When s) \<noteq> ''on_failure'') (js_Steps job)) (wsp_Jobs (wf_Spec W0))"
  shows "wf_Phase W = WorkflowPhaseSucceeded \<and> wst_CompletionTime (wf_Status W) \<noteq> None \<and>
    list_all (\<lambda>job. map_option jst_Phase (findJobStatus (wf_JobStatuses W) (js_Name job)) = Some JobPhaseSucceeded \<and>
      list_all (\<lambda>s. map_option ss_Phase (map_of (buildStepStatusMap W) (st_Name s)) = Some StepPhaseSucceeded) (js_Steps job))
      (wsp_Jobs (wf_Spec W0))"
proof -
  let ?jobs = "wsp_Jobs (wf_Spec W0)"
  have "distinct (map st_Name (js_Steps job))" if "job \<in> set ?jobs" for job
    using distinct_concat_part [OF assms(8) that] .
  then have valid: "valid_jobs ?jobs" using assms(7,8,10) by (simp add: valid_jobs_def valid_job_def list_all_iff unconditional_def)
  note run = happy_run_jobs [OF assms(1,4) refl assms(6) valid assms(9,3)]
  have "k \<le> job_bound ?jobs \<or> js_Name ` set ?jobs \<subseteq> jobs_done W" using run job_potential_bound le_trans by blast
  then have all: "js_Name ` set ?jobs \<subseteq> jobs_done W" using assms(2) by (auto simp: job_bound_def)
  then have phase: "wf_Phase W = WorkflowPhaseSucceeded" "wst_CompletionTime (wf_Status W) \<noteq> None"
    using run by (auto simp: isWorkflowTerminal_def)
  have "has_succeeded W (st_Name s)" if "job \<in> set ?jobs" "s \<in> set (js_Steps job)" for job s
  proof -
    have "st_Name s \<in> succeeded W" "distinct (map ss_Name (wf_StepStatuses W))"
      using run all that by (auto simp: jobs_on_track_def on_track_def)
    then show ?thesis using has_succeeded_iff by simp
  qed
  then show ?thesis using phase all by (auto simp: list_all_iff has_succeeded_def jobs_done_def job_phase_def)
qed

text \<open>Two jobs, the second after the first.\<close>

definition last_step :: "WorkflowStep list" where
  "last_step = [zero_WorkflowStep\<lparr>st_Name := ''c''\<rparr>]"

theorem job_workflow_completes_witness:
  "\<exists>W rs. happy_run (job_workflow (two_jobs chain last_step) [] []) 6 W rs \<and> wf_Phase W = WorkflowPhaseSucceeded \<and>
     map_option ss_Phase (map_of (buildStepStatusMap W) ''c'') = Some StepPhaseSucceeded"
proof -
  let ?jobs = "two_jobs chain last_step"
  let ?W0 = "job_workflow ?jobs [] []"
  have "wsp_Timeout (wf_Spec ?W0) = None" by (simp add: job_workflow_def sample_workflow_def Let_def)
  then obtain W rs where run: "happy_run ?W0 6 W rs" using happy_run_exists by blast
  have W0: "wsp_Jobs (wf_Spec ?W0) = ?jobs" "wf_Status ?W0 = zero_WorkflowStatus" "om_DeletionTimestamp (wf_Meta ?W0) = None"
    "wsp_Steps (wf_Spec ?W0) = []"
    by (simp_all add: job_workflow_def sample_workflow_def zero_WorkflowStatus_def zero_ObjectMeta_def Let_def)
  have "sum_list (map (\<lambda>job. length (js_Steps job)) ?jobs) + length ?jobs < 6" "?jobs \<noteq> []" "distinct (map js_Name ?jobs)"
    "distinct (concat (map (\<lambda>job. map st_Name (js_Steps job)) ?jobs))"
    by (simp_all add: two_jobs_def chain_def last_step_def)
  moreover have "detectJobCycle ?jobs = []" by code_simp
  moreover have "list_all (\<lambda>job. detectCycle (js_Steps job) = [] \<and> TrimSpace (js_When job) \<noteq> ''on_failure'' \<and>
      list_all (\<lambda>s. TrimSpace (st_When s) \<noteq> ''on_failure'') (js_Steps job)) ?jobs" by code_simp
  ultimately have "wf_Phase W = WorkflowPhaseSucceeded"
    "list_all (\<lambda>job. list_all (\<lambda>s. map_option ss_Phase (map_of (buildStepStatusMap W) (st_Name s)) = Some StepPhaseSucceeded) (js_Steps job)) ?jobs"
    using job_workflow_completes [OF run] W0 by (simp_all add: list_all_iff)
  then show ?thesis using run by (auto simp: two_jobs_def last_step_def)
qed

end
