(* ===== verification/Go_Net.thy ===== *)
theory Go_Net
  imports Go_Strings "HOL-Library.Word"
begin

text \<open>
  What the webhook server uses of Go's package net: \<open>ParseIP\<close>, \<open>ParseCIDR\<close>, \<open>IPNet.Contains\<close> and
  \<open>SplitHostPort\<close>, on IPv4 and IPv6 addresses.  An address is its list of bytes, 4 or 16 of them.
\<close>

unbundle bit_operations_syntax

type_synonym byte = "8 word"

section \<open>Parsing addresses\<close>

definition is_digit :: "char \<Rightarrow> bool" where
  "is_digit c \<longleftrightarrow> (let n = of_char c :: nat in 48 \<le> n \<and> n \<le> 57)"

fun decimal :: "nat \<Rightarrow> string \<Rightarrow> nat" where
  "decimal acc [] = acc"
| "decimal acc (c # cs) = decimal (10 * acc + (of_char c - 48)) cs"

text \<open>One field of a dotted address: digits without a leading zero, at most 255.\<close>

definition parse_octet :: "string \<Rightarrow> byte option" where
  "parse_octet s =
     (if s = [] \<or> \<not> list_all is_digit s \<or> (length s > 1 \<and> hd s = CHR ''0'') \<or> decimal 0 s > 255 then None
      else Some (word_of_nat (decimal 0 s)))"

definition parseIPv4 :: "string \<Rightarrow> byte list option" where
  "parseIPv4 s =
     (case map parse_octet (Split s CHR ''.'') of
        [Some a, Some b, Some c, Some d] \<Rightarrow> Some [a, b, c, d]
      | _ \<Rightarrow> None)"

definition hex_value :: "char \<Rightarrow> nat option" where
  "hex_value c =
     (let n = of_char c :: nat
      in if 48 \<le> n \<and> n \<le> 57 then Some (n - 48)
         else if 97 \<le> n \<and> n \<le> 102 then Some (n - 87)
         else if 65 \<le> n \<and> n \<le> 70 then Some (n - 55)
         else None)"

text \<open>
  The loop of \<open>netip.parseIPv6\<close> over the groups: \<open>ip\<close> holds the bytes so far, \<open>ellipsis\<close> the position
  of a double colon.  At most eight groups are read.
\<close>

definition hex_group :: "string \<Rightarrow> string \<times> string" where
  "hex_group s = (takeWhile (\<lambda>c. hex_value c \<noteq> None) s, dropWhile (\<lambda>c. hex_value c \<noteq> None) s)"

fun hexadecimal :: "nat \<Rightarrow> string \<Rightarrow> nat" where
  "hexadecimal acc [] = acc"
| "hexadecimal acc (c # cs) = hexadecimal (16 * acc + the (hex_value c)) cs"

fun ipv6_groups :: "nat \<Rightarrow> byte list \<Rightarrow> nat option \<Rightarrow> string \<Rightarrow> (byte list \<times> nat option \<times> string) option" where
  "ipv6_groups 0 ip ellipsis s = Some (ip, ellipsis, s)"
| "ipv6_groups (Suc n) ip ellipsis s =
     (let (digits, rest) = hex_group s
      in if digits = [] \<or> length digits > 4 then None
         else if rest \<noteq> [] \<and> hd rest = CHR ''.'' then
           (if (ellipsis = None \<and> length ip \<noteq> 12) \<or> length ip + 4 > 16 then None
            else case parseIPv4 s of None \<Rightarrow> None | Some bs \<Rightarrow> Some (ip @ bs, ellipsis, []))
         else
           let acc = hexadecimal 0 digits;
               ip = ip @ [word_of_nat (acc div 256), word_of_nat (acc mod 256)]
           in case rest of
                [] \<Rightarrow> Some (ip, ellipsis, [])
              | [c] \<Rightarrow> None
              | c # d # rest' \<Rightarrow>
                  if c \<noteq> CHR '':'' then None
                  else if d = CHR '':''
                    then (if ellipsis \<noteq> None then None
                          else if rest' = [] then Some (ip, Some (length ip), [])
                          else ipv6_groups n ip (Some (length ip)) rest')
                  else ipv6_groups n ip ellipsis (d # rest'))"

definition parseIPv6 :: "string \<Rightarrow> byte list option" where
  "parseIPv6 s =
     (if s = ''::'' then Some (replicate 16 0)
      else
        let (ellipsis, s) = (if HasPrefix s ''::'' then (Some 0, drop 2 s) else (None, s))
        in case ipv6_groups 8 [] ellipsis s of
             None \<Rightarrow> None
           | Some (ip, ellipsis, rest) \<Rightarrow>
               if rest \<noteq> [] then None
               else if length ip < 16
                 then (case ellipsis of
                         None \<Rightarrow> None
                       | Some k \<Rightarrow> Some (take k ip @ replicate (16 - length ip) 0 @ drop k ip))
               else if ellipsis \<noteq> None then None else Some ip)"

text \<open>
  \<open>netip.ParseAddr\<close>: the first dot or colon decides the kind of address.  Both callers refuse an
  address with a zone, so a percent sign makes the parse fail wherever it is.
\<close>

datatype address = V4 "byte list" | V6 "byte list"

definition ParseAddr :: "string \<Rightarrow> address option" where
  "ParseAddr s =
     (if CHR ''%'' \<in> set s then None
      else case find (\<lambda>c. c = CHR ''.'' \<or> c = CHR '':'') s of
        None \<Rightarrow> None
      | Some c \<Rightarrow> if c = CHR ''.'' then map_option V4 (parseIPv4 s) else map_option V6 (parseIPv6 s))"

definition v4InV6Prefix :: "byte list" where
  "v4InV6Prefix = replicate 10 0 @ [0xff, 0xff]"

fun As16 :: "address \<Rightarrow> byte list" where
  "As16 (V4 bs) = v4InV6Prefix @ bs"
| "As16 (V6 bs) = bs"

fun BitLen :: "address \<Rightarrow> nat" where
  "BitLen (V4 bs) = 32"
| "BitLen (V6 bs) = 128"

definition ParseIP :: "string \<Rightarrow> byte list option" where
  "ParseIP s = map_option As16 (ParseAddr s)"

definition To4 :: "byte list \<Rightarrow> byte list option" where
  "To4 ip = (if length ip = 4 then Some ip
             else if length ip = 16 \<and> take 12 ip = v4InV6Prefix then Some (drop 12 ip)
             else None)"

section \<open>Networks\<close>

definition byte_mask :: "nat \<Rightarrow> byte" where
  "byte_mask n = (if n \<ge> 8 then 0xff else NOT (drop_bit n 0xff))"

definition CIDRMask :: "nat \<Rightarrow> nat \<Rightarrow> byte list" where
  "CIDRMask ones bits = map (\<lambda>i. byte_mask (ones - 8 * i)) [0..<bits div 8]"

definition mask_bytes :: "byte list \<Rightarrow> byte list \<Rightarrow> byte list" where
  "mask_bytes ip m = map2 (AND) ip m"

definition IP_Mask :: "byte list \<Rightarrow> byte list \<Rightarrow> byte list" where
  "IP_Mask ip m =
     mask_bytes (if length m = 4 \<and> length ip = 16 \<and> take 12 ip = v4InV6Prefix then drop 12 ip else ip) m"

record IPNet =
  net_IP :: "byte list"
  net_Mask :: "byte list"

text \<open>\<open>dtoi\<close> on the whole text: digits only, below 0xFFFFFF.\<close>

definition parse_prefix :: "string \<Rightarrow> nat option" where
  "parse_prefix s =
     (if s = [] \<or> \<not> list_all is_digit s \<or> decimal 0 s \<ge> 0xFFFFFF then None else Some (decimal 0 s))"

definition ParseCIDR :: "string \<Rightarrow> IPNet option" where
  "ParseCIDR s =
     (case Cut s CHR ''/'' of
        None \<Rightarrow> None
      | Some (addr, pfx) \<Rightarrow>
          (case (ParseAddr addr, parse_prefix pfx) of
             (Some a, Some n) \<Rightarrow>
               if n > BitLen a then None
               else let m = CIDRMask n (BitLen a) in Some \<lparr>net_IP = IP_Mask (As16 a) m, net_Mask = m\<rparr>
           | _ \<Rightarrow> None))"

definition networkNumberAndMask :: "IPNet \<Rightarrow> byte list \<times> byte list" where
  "networkNumberAndMask n =
     (let ip = (case To4 (net_IP n) of Some x \<Rightarrow> x | None \<Rightarrow> net_IP n); m = net_Mask n
      in if length ip \<noteq> 4 \<and> length ip \<noteq> 16 then ([], [])
         else if length m = 4 then (if length ip \<noteq> 4 then ([], []) else (ip, m))
         else if length m = 16 then (ip, if length ip = 4 then drop 12 m else m)
         else ([], []))"

definition IPNet_Contains :: "IPNet \<Rightarrow> byte list \<Rightarrow> bool" where
  "IPNet_Contains n ip =
     (let (nn, m) = networkNumberAndMask n;
          ip = (case To4 ip of Some x \<Rightarrow> x | None \<Rightarrow> ip)
      in length ip = length nn \<and> mask_bytes nn m = mask_bytes ip m)"

section \<open>SplitHostPort\<close>

text \<open>The host of \<open>host:port\<close> or \<open>[host]:port\<close>; the port itself is not used.\<close>

definition index_of :: "char \<Rightarrow> string \<Rightarrow> nat option" where
  "index_of c s = (let n = length (takeWhile (\<lambda>x. x \<noteq> c) s) in if n < length s then Some n else None)"

definition last_index_of :: "char \<Rightarrow> string \<Rightarrow> nat option" where
  "last_index_of c s = map_option (\<lambda>n. length s - 1 - n) (index_of c (rev s))"

definition SplitHostPort :: "string \<Rightarrow> string option" where
  "SplitHostPort hostport =
     (case last_index_of CHR '':'' hostport of
        None \<Rightarrow> None
      | Some i \<Rightarrow>
          let parts =
            (if hd hostport = CHR ''['' then
               (case index_of CHR '']'' hostport of
                  None \<Rightarrow> None
                | Some e \<Rightarrow> if e + 1 = i then Some (take (e - 1) (drop 1 hostport), 1, e + 1) else None)
             else
               let host = take i hostport
               in if CHR '':'' \<in> set host then None else Some (host, 0, 0))
          in case parts of
               None \<Rightarrow> None
             | Some (host, j, k) \<Rightarrow>
                 if CHR ''['' \<in> set (drop j hostport) \<or> CHR '']'' \<in> set (drop k hostport) then None
                 else Some host)"

section \<open>What a network contains\<close>

text \<open>The bits of an address, the most significant first.\<close>

definition byte_bits :: "byte \<Rightarrow> bool list" where
  "byte_bits b = map (\<lambda>i. bit b (7 - i)) [0..<8]"

definition addr_bits :: "byte list \<Rightarrow> bool list" where
  "addr_bits bs = concat (map byte_bits bs)"

lemma byte_mask_bit: "k \<le> 8 \<Longrightarrow> i < 8 \<Longrightarrow> bit (byte_mask k) i \<longleftrightarrow> 8 - k \<le> i"
proof -
  assume "k \<le> 8" "i < 8"
  then have "k \<in> {0, 1, 2, 3, 4, 5, 6, 7, 8}" "i \<in> {0, 1, 2, 3, 4, 5, 6, 7}" by auto
  then show ?thesis
    by (auto simp: byte_mask_def bit_not_iff bit_drop_bit_eq)
qed

lemma byte_mask_eq:
  assumes "k \<le> 8"
  shows "a AND byte_mask k = b AND byte_mask k \<longleftrightarrow> take k (byte_bits a) = take k (byte_bits b)"
proof -
  have "a AND byte_mask k = b AND byte_mask k \<longleftrightarrow> (\<forall>i<8. 8 - k \<le> i \<longrightarrow> bit a i = bit b i)"
    using byte_mask_bit [OF assms] by (auto simp: bit_eq_iff bit_and_iff dest: bit_imp_le_length)
  also have "\<dots> \<longleftrightarrow> (\<forall>j<k. bit a (7 - j) = bit b (7 - j))"
  proof
    assume l: "\<forall>i<8. 8 - k \<le> i \<longrightarrow> bit a i = bit b i"
    show "\<forall>j<k. bit a (7 - j) = bit b (7 - j)"
    proof (intro allI impI)
      fix j assume "j < k"
      with assms show "bit a (7 - j) = bit b (7 - j)" by (intro l [rule_format]) auto
    qed
  next
    assume r: "\<forall>j<k. bit a (7 - j) = bit b (7 - j)"
    show "\<forall>i<8. 8 - k \<le> i \<longrightarrow> bit a i = bit b i"
    proof (intro allI impI)
      fix i :: nat assume "i < 8" "8 - k \<le> i"
      with r [rule_format, of "7 - i"] assms show "bit a i = bit b i" by auto
    qed
  qed
  also have "\<dots> \<longleftrightarrow> take k (byte_bits a) = take k (byte_bits b)"
    using assms by (auto simp: byte_bits_def list_eq_iff_nth_eq)
  finally show ?thesis .
qed

lemma length_byte_bits [simp]: "length (byte_bits b) = 8"
  by (simp add: byte_bits_def)

lemma masks_Suc:
  "map (\<lambda>i. byte_mask (n - 8 * i)) [0..<Suc k] = byte_mask n # map (\<lambda>i. byte_mask (n - 8 - 8 * i)) [0..<k]"
  by (rule nth_equalityI) (auto simp: nth_Cons less_Suc_eq_0_disj simp del: upt_Suc split: nat.split)

lemma masked_eq_iff:
  assumes "length xs = k" "length ys = k"
  shows "mask_bytes xs (map (\<lambda>i. byte_mask (n - 8 * i)) [0..<k]) = mask_bytes ys (map (\<lambda>i. byte_mask (n - 8 * i)) [0..<k]) \<longleftrightarrow>
    take n (addr_bits xs) = take n (addr_bits ys)"
  using assms
proof (induction k arbitrary: n xs ys)
  case 0
  then show ?case by simp
next
  case (Suc k)
  then obtain x xs' y ys' where l: "xs = x # xs'" "ys = y # ys'" "length xs' = k" "length ys' = k"
    by (metis length_Suc_conv)
  have head: "x AND byte_mask n = y AND byte_mask n \<longleftrightarrow> take n (byte_bits x) = take n (byte_bits y)"
  proof (cases "n \<le> 8")
    case False
    then have "byte_mask n = byte_mask 8" by (simp add: byte_mask_def)
    with False byte_mask_eq [of 8 x y] show ?thesis by simp
  qed (rule byte_mask_eq)
  have "take n (addr_bits xs) = take n (addr_bits ys) \<longleftrightarrow>
      take n (byte_bits x) = take n (byte_bits y) \<and> take (n - 8) (addr_bits xs') = take (n - 8) (addr_bits ys')"
    by (auto simp: addr_bits_def l)
  then show ?case
    using head Suc.IH [of xs' ys' "n - 8"] l by (simp add: mask_bytes_def masks_Suc del: upt_Suc)
qed

lemma mask_idem: "length xs = length m \<Longrightarrow> mask_bytes (mask_bytes xs m) m = mask_bytes xs m"
  by (induction xs m rule: list_induct2) (simp_all add: mask_bytes_def and.assoc)

text \<open>Membership of an IPv4 address in an IPv4 network: the first \<open>n\<close> bits agree.\<close>

lemma IPNet_Contains_V4:
  assumes "length net = 4" "length ip = 4" "n \<le> 32"
  shows "IPNet_Contains \<lparr>net_IP = IP_Mask (As16 (V4 net)) (CIDRMask n 32), net_Mask = CIDRMask n 32\<rparr> (As16 (V4 ip)) \<longleftrightarrow>
    take n (addr_bits net) = take n (addr_bits ip)"
proof -
  have len: "length (CIDRMask n 32) = 4" "length v4InV6Prefix = 12" by (simp_all add: CIDRMask_def v4InV6Prefix_def)
  have masked: "IP_Mask (As16 (V4 net)) (CIDRMask n 32) = mask_bytes net (CIDRMask n 32)"
    using assms(1) len by (simp add: IP_Mask_def)
  have to4: "To4 (As16 (V4 ip)) = Some ip" "To4 (mask_bytes net (CIDRMask n 32)) = Some (mask_bytes net (CIDRMask n 32))"
    using assms len by (simp_all add: To4_def mask_bytes_def)
  have "IPNet_Contains \<lparr>net_IP = IP_Mask (As16 (V4 net)) (CIDRMask n 32), net_Mask = CIDRMask n 32\<rparr> (As16 (V4 ip)) \<longleftrightarrow>
      mask_bytes (mask_bytes net (CIDRMask n 32)) (CIDRMask n 32) = mask_bytes ip (CIDRMask n 32)"
    using assms len to4 by (simp add: IPNet_Contains_def networkNumberAndMask_def masked mask_bytes_def Let_def del: As16.simps)
  also have "\<dots> \<longleftrightarrow> mask_bytes net (CIDRMask n 32) = mask_bytes ip (CIDRMask n 32)"
    using mask_idem [of net "CIDRMask n 32"] assms(1) len by simp
  also have "\<dots> \<longleftrightarrow> take n (addr_bits net) = take n (addr_bits ip)"
    unfolding CIDRMask_def using masked_eq_iff [of net 4 ip n] assms(1,2) by simp
  finally show ?thesis .
qed

section \<open>Reading back dotted addresses\<close>

definition digit :: "nat \<Rightarrow> char" where
  "digit d = char_of (48 + d)"

lemma of_char_digit [simp]: "d < 10 \<Longrightarrow> of_char (digit d) = 48 + d"
  by (simp add: digit_def)

lemma digit_zero [simp]: "d < 10 \<Longrightarrow> digit d = CHR ''0'' \<longleftrightarrow> d = 0"
proof -
  assume "d < 10"
  moreover have "of_char CHR ''0'' = (48 :: nat)" by simp
  moreover have "digit 0 = CHR ''0''" by code_simp
  ultimately show ?thesis using of_char_digit [of d] by (metis add_cancel_left_right)
qed

lemma is_digit_digit [simp]: "d < 10 \<Longrightarrow> is_digit (digit d)"
  by (simp add: is_digit_def)

lemma show_nat_digits: "show_nat n = (if n < 10 then [digit n] else show_nat (n div 10) @ [digit (n mod 10)])"
  by (subst show_nat.simps) (simp add: digit_def)

lemma decimal_snoc: "decimal acc (cs @ [c]) = 10 * decimal acc cs + (of_char c - 48)"
  by (induction cs arbitrary: acc) simp_all

lemma show_nat_spec:
  "show_nat n \<noteq> [] \<and> list_all is_digit (show_nat n) \<and> decimal 0 (show_nat n) = n \<and>
   (length (show_nat n) > 1 \<longrightarrow> hd (show_nat n) \<noteq> CHR ''0'')"
proof (induction n rule: show_nat.induct)
  case (1 n)
  show ?case
  proof (cases "n < 10")
    case True
    then show ?thesis by (simp add: show_nat_digits [of n])
  next
    case False
    then have IH: "show_nat (n div 10) \<noteq> []" "list_all is_digit (show_nat (n div 10))" "decimal 0 (show_nat (n div 10)) = n div 10"
      "length (show_nat (n div 10)) > 1 \<Longrightarrow> hd (show_nat (n div 10)) \<noteq> CHR ''0''"
      using 1 by auto
    have "hd (show_nat (n div 10)) \<noteq> CHR ''0''"
    proof (cases "length (show_nat (n div 10)) > 1")
      case True
      then show ?thesis by (rule IH(4))
    next
      case short: False
      have "show_nat m \<noteq> []" for m by (subst show_nat_digits) simp
      then have "n div 10 < 10" using short by (subst (asm) show_nat_digits) (auto split: if_splits)
      with False show ?thesis by (subst show_nat_digits) simp
    qed
    then show ?thesis using False IH by (subst (1 2 3 4 5) show_nat_digits) (simp add: decimal_snoc)
  qed
qed

lemma digit_not: "is_digit c \<Longrightarrow> c \<noteq> CHR ''.'' \<and> c \<noteq> CHR '':'' \<and> c \<noteq> CHR ''/'' \<and> c \<noteq> CHR ''%'' \<and> c \<noteq> CHR ''['' \<and> c \<noteq> CHR '']''"
  by (auto simp: is_digit_def Let_def)

lemma show_nat_digit_set: "c \<in> set (show_nat n) \<Longrightarrow> is_digit c"
  using show_nat_spec [of n] by (auto simp: list_all_iff)

lemma parse_octet_show: "parse_octet (show_nat (unat b)) = Some b" for b :: byte
proof -
  have "unat b < 256" using unsigned_less [of b] by simp
  then show ?thesis using show_nat_spec [of "unat b"] by (auto simp: parse_octet_def)
qed

lemma Split_append: "sep \<notin> set x \<Longrightarrow> Split (x @ sep # y) sep = x # Split y sep"
  by (induction x) auto

lemma Split_none: "sep \<notin> set x \<Longrightarrow> Split x sep = [x]"
  by (induction x) auto

lemma Cut_append: "sep \<notin> set x \<Longrightarrow> Cut (x @ sep # y) sep = Some (x, y)"
  by (induction x) auto

text \<open>The dotted text of an IPv4 address.\<close>

fun v4_text :: "byte list \<Rightarrow> string" where
  "v4_text [] = []"
| "v4_text [b] = show_nat (unat b)"
| "v4_text (b # bs) = show_nat (unat b) @ CHR ''.'' # v4_text bs"

lemma v4_text_set: "c \<in> set (v4_text bs) \<Longrightarrow> is_digit c \<or> c = CHR ''.''"
  by (induction bs rule: v4_text.induct) (auto dest: show_nat_digit_set)

lemma find_first: "\<not> list_ex P x \<Longrightarrow> P c \<Longrightarrow> find P (x @ c # y) = Some c"
  by (induction x) auto

lemma ParseAddr_v4_text:
  assumes "length bs = 4"
  shows "ParseAddr (v4_text bs) = Some (V4 bs)"
proof -
  obtain a b c d where bs: "bs = [a, b, c, d]"
    using assms by (auto simp: numeral_eq_Suc length_Suc_conv)
  have dot: "CHR ''.'' \<notin> set (show_nat n)" for n using show_nat_digit_set digit_not by blast
  have "CHR ''%'' \<notin> set (v4_text bs)" using v4_text_set digit_not by fastforce
  moreover have "find (\<lambda>c. c = CHR ''.'' \<or> c = CHR '':'') (v4_text bs) = Some CHR ''.''"
    unfolding bs v4_text.simps
    by (rule find_first) (auto simp: list_ex_iff dest: show_nat_digit_set digit_not)
  moreover have "parseIPv4 (v4_text bs) = Some bs"
    by (simp add: bs parseIPv4_def Split_append Split_none dot parse_octet_show)
  ultimately show ?thesis by (simp add: ParseAddr_def)
qed

lemma ParseCIDR_v4_text:
  assumes "length bs = 4" "n \<le> 32"
  shows "ParseCIDR (v4_text bs @ CHR ''/'' # show_nat n) =
    Some \<lparr>net_IP = IP_Mask (As16 (V4 bs)) (CIDRMask n 32), net_Mask = CIDRMask n 32\<rparr>"
proof -
  have "CHR ''/'' \<notin> set (v4_text bs)" using v4_text_set digit_not by fastforce
  moreover have "parse_prefix (show_nat n) = Some n"
    using assms(2) show_nat_spec [of n] by (simp add: parse_prefix_def)
  ultimately show ?thesis
    using assms by (simp add: ParseCIDR_def Cut_append ParseAddr_v4_text Let_def)
qed

lemma last_index_of_append: "c \<notin> set y \<Longrightarrow> last_index_of c (x @ c # y) = Some (length x)"
proof -
  assume "c \<notin> set y"
  then have "takeWhile (\<lambda>x. x \<noteq> c) (rev y @ c # rev x) = rev y" by (subst takeWhile_append2) auto
  then show ?thesis by (simp add: last_index_of_def index_of_def)
qed

lemma SplitHostPort_v4_text:
  assumes "bs \<noteq> []"
  shows "SplitHostPort (v4_text bs @ CHR '':'' # show_nat port) = Some (v4_text bs)"
proof -
  have clean: "CHR '':'' \<notin> set (v4_text bs)" "CHR ''['' \<notin> set (v4_text bs)" "CHR '']'' \<notin> set (v4_text bs)"
    using v4_text_set digit_not by fastforce+
  have port: "CHR '':'' \<notin> set (show_nat port)" "CHR ''['' \<notin> set (show_nat port)" "CHR '']'' \<notin> set (show_nat port)"
    using show_nat_digit_set digit_not by blast+
  have ne: "v4_text bs \<noteq> []" using assms show_nat_spec by (cases bs rule: v4_text.cases) auto
  then have "hd (v4_text bs @ CHR '':'' # show_nat port) \<noteq> CHR ''[''" using clean(2) by (cases "v4_text bs") auto
  then show ?thesis using clean port last_index_of_append [OF port(1), of "v4_text bs"]
    by (simp add: SplitHostPort_def Let_def)
qed

end
