(* ===== verification/Webhook_Server.thy ===== *)
theory Webhook_Server
  imports Conditions Crypto Go_Net
begin

text \<open>
  The webhook server of \<open>internal/webhook/events/server.go\<close>: its table of routes, the rate limit, the
  checks of a request (address, rate, signature, payload, parameters) and the Workflow it creates.
  Here a request is handled in one step: the locks of the server protect the two maps, and what a
  handler reads of them it reads once.  \<open>Webhook_Concurrency\<close> splits the step into the critical
  sections and interleaves the handlers.  \<open>encoding/json\<close>, the text \<open>%v\<close> of a float64 and the order in
  which Go visits a map are fields of a record the operations take as an argument.
\<close>

section \<open>State\<close>

record RouteConfig =
  rc_Trigger :: EventTrigger
  rc_SecretValue :: string

record Server =
  srv_routes :: "(string, RouteConfig) gomap"
  srv_rateData :: "(string, time list) gomap"

definition NewServer :: Server where
  "NewServer = \<lparr>srv_routes = [], srv_rateData = []\<rparr>"

text \<open>A decoded payload; a number is its float64, an opaque value.\<close>

datatype json =
    JNull
  | JBool bool
  | JNumber opaque
  | JString string
  | JArray "json list"
  | JObject "(string \<times> json) list"

text \<open>
  \<open>h_range i j m\<close> lists the entries of the map \<open>m\<close> in the order of the loop for the step \<open>j\<close> of
  the flat steps (\<open>i = 0\<close>) or of the job \<open>i - 1\<close>.
\<close>

record http_env =
  h_Unmarshal :: "string \<Rightarrow> (string, json) gomap option"
  h_Marshal :: "json \<Rightarrow> string"
  h_FormatFloat :: "opaque \<Rightarrow> string"
  h_range :: "nat \<Rightarrow> nat \<Rightarrow> (string, string) gomap \<Rightarrow> (string \<times> string) list"

text \<open>
  The body of a request is what its connection delivers; \<open>rq_ReadError\<close> says that reading fails
  after these bytes.
\<close>

record Request =
  rq_Path :: string
  rq_RemoteAddr :: string
  rq_ContentLength :: int
  rq_Body :: string
  rq_ReadError :: bool
  rq_Header :: "string \<Rightarrow> string"

record Response =
  rsp_Code :: int
  rsp_Body :: string

section \<open>Rate limit\<close>

definition minute :: int where
  "minute = 60000000000"

text \<open>
  The loop that drops old entries in place: \<open>i\<close> reads, \<open>j\<close> writes, and the slice is cut at \<open>j\<close>.  It keeps
  exactly the entries that a filter keeps, because \<open>j\<close> never overtakes \<open>i\<close>.
\<close>

function compact_loop :: "('a \<Rightarrow> bool) \<Rightarrow> nat \<Rightarrow> nat \<Rightarrow> 'a list \<Rightarrow> 'a list \<times> nat" where
  "compact_loop keep i j xs =
     (if i < length xs
      then (if keep (xs ! i) then compact_loop keep (i + 1) (j + 1) (xs[j := xs ! i]) else compact_loop keep (i + 1) j xs)
      else (xs, j))"
  by pat_completeness auto

termination
  by (relation "measure (\<lambda>(keep, i, j, xs). length xs - i)") auto

declare compact_loop.simps [simp del]

definition compact :: "('a \<Rightarrow> bool) \<Rightarrow> 'a list \<Rightarrow> 'a list" where
  "compact keep xs = (let (xs, j) = compact_loop keep 0 0 xs in take j xs)"

definition allow :: "env \<Rightarrow> int \<Rightarrow> time list \<Rightarrow> world \<Rightarrow> bool \<times> time list \<times> world" where
  "allow e maxPerMinute counts w =
     (if maxPerMinute \<le> 0 then (True, counts, w)
      else
        let (now, w) = Now e w;
            cutoff = now - minute;
            counts = compact (\<lambda>t. t > cutoff) counts
        in if int (length counts) \<ge> maxPerMinute then (False, counts, w)
           else (True, counts @ [now], w))"

lemma compact_loop_spec:
  "j \<le> i \<Longrightarrow> i \<le> length xs \<Longrightarrow> case compact_loop keep i j xs of (ys, k) \<Rightarrow> take k ys = take j xs @ filter keep (drop i xs)"
proof (induction keep i j xs rule: compact_loop.induct)
  case (1 keep i j xs)
  show ?case
  proof (cases "i < length xs")
    case True
    then have d: "drop i xs = xs ! i # drop (Suc i) xs" by (rule Cons_nth_drop_Suc [symmetric])
    have "take (Suc j) (xs[j := xs ! i]) = take j xs @ [xs ! i]" using 1(3) True by (simp add: take_Suc_conv_app_nth)
    then show ?thesis using 1 True d by (subst compact_loop.simps) (auto simp: drop_update_cancel)
  next
    case False
    then show ?thesis using 1(4) by (subst compact_loop.simps) simp
  qed
qed

lemma compact_filter [simp]: "compact keep xs = filter keep xs"
  using compact_loop_spec [of 0 0 xs keep] by (simp add: compact_def split: prod.splits)

section \<open>Routes\<close>

definition RegisterRoute :: "env \<Rightarrow> EventTrigger \<Rightarrow> Server \<Rightarrow> world \<Rightarrow> string option \<times> Server" where
  "RegisterRoute e trigger srv w =
     (let noPath = (Some (''EventTrigger '' @ om_Namespace (et_Meta trigger) @ ''/'' @ om_Name (et_Meta trigger) @
                          '' has no webhook path''), srv)
      in case ets_Webhook (et_Spec trigger) of
           None \<Rightarrow> noPath
         | Some wh \<Rightarrow>
             if wh_Path wh = [] then noPath
             else
               let secret =
                 (case wh_SecretRef wh of
                    None \<Rightarrow> Inr []
                  | Some ref \<Rightarrow>
                      let ns = (if sr_Namespace ref = [] then om_Namespace (et_Meta trigger) else sr_Namespace ref)
                      in (case e_GetSecret e w \<lparr>nn_Namespace = ns, nn_Name = sr_Name ref\<rparr> of
                            Inl err \<Rightarrow> Inl (''failed to fetch webhook secret '' @ ns @ ''/'' @ sr_Name ref @ '': '' @ err_text err)
                          | Inr s \<Rightarrow>
                              let v = mget [] (sec_Data s) ''hmac-secret''
                              in Inr (if v = [] then mget [] (sec_Data s) ''token'' else v)))
               in (case secret of
                     Inl msg \<Rightarrow> (Some msg, srv)
                   | Inr secretValue \<Rightarrow>
                       (None, srv\<lparr>srv_routes := AList.update (wh_Path wh)
                          \<lparr>rc_Trigger = trigger, rc_SecretValue = secretValue\<rparr> (srv_routes srv)\<rparr>)))"

definition DeregisterRoute :: "string \<Rightarrow> Server \<Rightarrow> Server" where
  "DeregisterRoute path srv =
     srv\<lparr>srv_routes := AList.delete path (srv_routes srv), srv_rateData := AList.delete path (srv_rateData srv)\<rparr>"

section \<open>The checks of a request\<close>

definition maxPayloadSize :: nat where
  "maxPayloadSize = 1048576"

text \<open>\<open>io.ReadAll\<close> on a limited reader: an error after the limit is not seen.\<close>

definition readBody :: "Request \<Rightarrow> string option" where
  "readBody rq =
     (if rq_ContentLength rq > int maxPayloadSize then None
      else if rq_ReadError rq \<and> length (rq_Body rq) < maxPayloadSize then None
      else Some (take maxPayloadSize (rq_Body rq)))"

definition validateHMAC :: "string \<Rightarrow> string \<Rightarrow> string \<Rightarrow> string \<Rightarrow> bool" where
  "validateHMAC secret body sig prefix \<longleftrightarrow>
     HasPrefix sig prefix \<and> drop (length prefix) sig = EncodeToString (hmac_sha256 secret body)"

text \<open>The address check: the status code of a refusal.\<close>

definition checkIP :: "string list \<Rightarrow> string \<Rightarrow> (int \<times> string) option" where
  "checkIP allowedIPs remoteAddr =
     (if allowedIPs = [] then None
      else
        let host = (case SplitHostPort remoteAddr of Some h \<Rightarrow> h | None \<Rightarrow> remoteAddr)
        in case ParseIP host of
             None \<Rightarrow> Some (400, ''Bad Request'')
           | Some remoteIP \<Rightarrow>
               if list_ex (\<lambda>cidr. case ParseCIDR cidr of None \<Rightarrow> False | Some net \<Rightarrow> IPNet_Contains net remoteIP) allowedIPs
               then None else Some (403, ''Forbidden''))"

definition checkSignature :: "string \<Rightarrow> string \<Rightarrow> (string \<Rightarrow> string) \<Rightarrow> bool" where
  "checkSignature secretValue body header =
     (if secretValue = [] then True
      else
        let sig = header ''X-Hub-Signature-256''
        in if sig = [] then
             (let sig = header ''X-Hub-Signature''
              in if sig \<noteq> [] then validateHMAC secretValue body sig ''sha1='' else False)
           else validateHMAC secretValue body sig ''sha256='')"

section \<open>Parameters\<close>

definition sanitizeValue :: "string \<Rightarrow> string" where
  "sanitizeValue s = filter (\<lambda>c. c \<notin> set '';|&$`(){}<>'' \<and> c \<notin> {NL, CHR 0x0D, CHR 0x09, SQ, DQ}) s"

text \<open>The loop over the parts of a path; a missing key and a null both end it.\<close>

fun follow :: "string list \<Rightarrow> json \<Rightarrow> json option" where
  "follow [] current = Some current"
| "follow (part # parts) current =
     (case current of
        JObject m \<Rightarrow>
          (case map_of m part of
             None \<Rightarrow> None
           | Some JNull \<Rightarrow> None
           | Some v \<Rightarrow> follow parts v)
      | _ \<Rightarrow> None)"

definition extractDotPath :: "http_env \<Rightarrow> (string, json) gomap \<Rightarrow> string \<Rightarrow> string" where
  "extractDotPath h data path =
     (case follow (Split path CHR ''.'') (JObject data) of
        None \<Rightarrow> []
      | Some (JString s) \<Rightarrow> s
      | Some (JNumber f) \<Rightarrow> h_FormatFloat h f
      | Some v \<Rightarrow> h_Marshal h v)"

definition extractParam :: "http_env \<Rightarrow> (string, json) gomap \<Rightarrow> ParameterMapping \<Rightarrow> string + string" where
  "extractParam h payload m =
     (let val = extractDotPath h payload (TrimPrefix (pm_Source m) ''$.'')
      in if val = [] \<and> pm_Required m
         then Inl (''required parameter '' @ quote (pm_Name m) @ '' (source: '' @ pm_Source m @ '') not found in payload'')
         else
           let val = (if val = [] then pm_Default m else val)
           in Inr (if val \<noteq> [] \<and> pm_Sanitize m then sanitizeValue val else val))"

text \<open>
  The loop over the mappings.  The test for an empty value stands before the sanitizing, so that
  \<open>extractParam\<close> says both what is stored and, by \<open>present\<close>, whether it is.
\<close>

definition present :: "http_env \<Rightarrow> (string, json) gomap \<Rightarrow> ParameterMapping \<Rightarrow> bool" where
  "present h payload m \<longleftrightarrow>
     extractDotPath h payload (TrimPrefix (pm_Source m) ''$.'') \<noteq> [] \<or> pm_Default m \<noteq> []"

fun extractParams :: "http_env \<Rightarrow> ParameterMapping list \<Rightarrow> (string, json) gomap \<Rightarrow> (string, string) gomap \<Rightarrow>
    string + (string, string) gomap" where
  "extractParams h [] payload out = Inr out"
| "extractParams h (m # ms) payload out =
     (case extractParam h payload m of
        Inl msg \<Rightarrow> Inl msg
      | Inr val \<Rightarrow> extractParams h ms payload (if present h payload m then AList.update (pm_Name m) val out else out))"

section \<open>The Workflow of a request\<close>

definition injectEnv :: "(string \<times> string) list \<Rightarrow> WorkflowStep \<Rightarrow> WorkflowStep" where
  "injectEnv params step =
     step\<lparr>st_Env := sappend (st_Env step) (map (\<lambda>(k, v). \<lparr>ev_Name = k, ev_Value = v, ev_ValueFrom = []\<rparr>) params)\<rparr>"

definition injectParams :: "http_env \<Rightarrow> (string, string) gomap \<Rightarrow> WorkflowSpec \<Rightarrow> WorkflowSpec" where
  "injectParams h params spec =
     (if params = [] then spec
      else spec\<lparr>
        wsp_Steps := map (\<lambda>(i, step). injectEnv (h_range h 0 i params) step) (enumerate 0 (wsp_Steps spec)),
        wsp_Jobs := map (\<lambda>(j, job). job\<lparr>js_Steps := map (\<lambda>(i, step). injectEnv (h_range h (Suc j) i params) step)
                      (enumerate 0 (js_Steps job))\<rparr>) (enumerate 0 (wsp_Jobs spec))\<rparr>)"

definition createWorkflow :: "env \<Rightarrow> http_env \<Rightarrow> EventTrigger \<Rightarrow> (string, string) gomap \<Rightarrow> world \<Rightarrow> string option \<times> world" where
  "createWorkflow e h trigger params w =
     (let tns = om_Namespace (et_Meta trigger); spec = et_Spec trigger
      in if ets_AllowedNamespaces spec \<noteq> [] \<and> tns \<notin> set (ets_AllowedNamespaces spec)
         then (Some (''trigger namespace '' @ tns @ '' not in allowed namespaces''), w)
         else
           let ref = ets_WorkflowTemplate spec;
               ns = (if wtr_Namespace ref \<noteq> [] then wtr_Namespace ref else tns)
           in case e_GetWorkflow e w \<lparr>nn_Namespace = ns, nn_Name = wtr_Name ref\<rparr> of
                Inl err \<Rightarrow> (Some (''failed to fetch workflow template: '' @ err_text err), w)
              | Inr template \<Rightarrow>
                  let workflow = template\<lparr>wf_Meta := zero_ObjectMeta\<lparr>om_GenerateName := om_Name (wf_Meta template) @ ''-'',
                        om_Namespace := tns, om_Labels := [(''app.kubernetes.io/name'', ''runner-operator''),
                          (''runner-operator.io/event-trigger'', om_Name (et_Meta trigger))]\<rparr>,
                        wf_Spec := injectParams h params (wf_Spec template)\<rparr>
                  in case e_SetControllerReference e (et_Meta trigger) (wf_Meta workflow) of
                       Inl err \<Rightarrow> (Some (''failed to set owner reference: '' @ err_text err), w)
                     | Inr meta \<Rightarrow>
                         let (err, w) = do_Create e (OWorkflow (workflow\<lparr>wf_Meta := meta\<rparr>)) w
                         in (map_option (\<lambda>err. ''failed to create workflow: '' @ err_text err) err, w))"

section \<open>handleRequest\<close>

text \<open>The rate limit of a route; the counter of its path is created on first use.\<close>

definition checkRate :: "env \<Rightarrow> EventTrigger \<Rightarrow> string \<Rightarrow> Server \<Rightarrow> world \<Rightarrow> bool \<times> Server \<times> world" where
  "checkRate e trigger path srv w =
     (case ets_RateLimit (et_Spec trigger) of
        None \<Rightarrow> (True, srv, w)
      | Some rl \<Rightarrow>
          if rl_MaxPerMinute rl > 0
          then (let (ok, counts, w) = allow e (rl_MaxPerMinute rl) (mget [] (srv_rateData srv) path) w
                in (ok, srv\<lparr>srv_rateData := AList.update path counts (srv_rateData srv)\<rparr>, w))
          else (True, srv, w))"

text \<open>What follows the rate limit.\<close>

definition deliver :: "env \<Rightarrow> http_env \<Rightarrow> RouteConfig \<Rightarrow> Request \<Rightarrow> world \<Rightarrow> Response \<times> world" where
  "deliver e h route rq w =
     (case readBody rq of
        None \<Rightarrow> (\<lparr>rsp_Code = 400, rsp_Body = ''Bad Request''\<rparr>, w)
      | Some body \<Rightarrow>
          if \<not> checkSignature (rc_SecretValue route) body (rq_Header rq)
          then (\<lparr>rsp_Code = 401, rsp_Body = ''Unauthorized''\<rparr>, w)
          else case h_Unmarshal h body of
            None \<Rightarrow> (\<lparr>rsp_Code = 400, rsp_Body = ''Bad Request''\<rparr>, w)
          | Some payload \<Rightarrow>
              (case extractParams h (ets_Parameters (et_Spec (rc_Trigger route))) payload [] of
                 Inl msg \<Rightarrow> (\<lparr>rsp_Code = 400, rsp_Body = ''Bad Request: missing required parameter''\<rparr>, w)
               | Inr params \<Rightarrow>
                   let (err, w) = createWorkflow e h (rc_Trigger route) params w
                   in case err of
                        Some _ \<Rightarrow> (\<lparr>rsp_Code = 500, rsp_Body = ''Internal Server Error''\<rparr>, w)
                      | None \<Rightarrow> (\<lparr>rsp_Code = 202, rsp_Body = ''Accepted''\<rparr>, w)))"

text \<open>
  A registered route has a webhook configuration (\<open>routes_have_webhook\<close> of \<open>Trigger_Properties\<close>).  For
  one without it \<open>trigger.Spec.Webhook\<close> would be a nil dereference, a panic that net/http recovers from
  by closing the connection; the response of that branch stands for it.
\<close>

definition handleRequest :: "env \<Rightarrow> http_env \<Rightarrow> Request \<Rightarrow> Server \<Rightarrow> world \<Rightarrow> Response \<times> Server \<times> world" where
  "handleRequest e h rq srv w =
     (case map_of (srv_routes srv) (rq_Path rq) of
        None \<Rightarrow> (\<lparr>rsp_Code = 404, rsp_Body = ''Not Found''\<rparr>, srv, w)
      | Some route \<Rightarrow>
          (case ets_Webhook (et_Spec (rc_Trigger route)) of
             None \<Rightarrow> (\<lparr>rsp_Code = 500, rsp_Body = ''nil pointer dereference''\<rparr>, srv, w)
           | Some wh \<Rightarrow>
               (case checkIP (wh_AllowedIPs wh) (rq_RemoteAddr rq) of
                  Some (code, body) \<Rightarrow> (\<lparr>rsp_Code = code, rsp_Body = body\<rparr>, srv, w)
                | None \<Rightarrow>
                    let (ok, srv, w) = checkRate e (rc_Trigger route) (wh_Path wh) srv w
                    in if \<not> ok then (\<lparr>rsp_Code = 429, rsp_Body = ''Too Many Requests''\<rparr>, srv, w)
                       else let (resp, w) = deliver e h route rq w in (resp, srv, w))))"

end
