(* ===== verification/EventTrigger_Controller.thy ===== *)
theory EventTrigger_Controller
  imports Webhook_Server
begin

text \<open>
  The EventTrigger controller of \<open>internal/controller/eventtrigger_controller.go\<close>, which keeps the route
  table of the webhook server in step with the EventTriggers, and the mapping from a changed secret
  to the triggers to reconcile.  The state of a pass is the server and the log of requests.
\<close>

section \<open>Reconcile\<close>

text \<open>The path of a trigger's webhook, if it has one.\<close>

definition webhookPath :: "EventTrigger \<Rightarrow> string option" where
  "webhookPath t =
     (case ets_Webhook (et_Spec t) of
        None \<Rightarrow> None
      | Some wh \<Rightarrow> if wh_Path wh = [] then None else Some (wh_Path wh))"

text \<open>The two refusals: an event, an unregistered status with its error, a condition, and a patch.\<close>

definition refuseTrigger ::
  "env \<Rightarrow> string \<Rightarrow> string \<Rightarrow> string \<Rightarrow> string \<Rightarrow> string \<Rightarrow> EventTrigger \<Rightarrow> world \<Rightarrow> Result \<times> world" where
  "refuseTrigger e event eventMsg lastError reason msg t w =
     (let w = emit (Event ''Warning'' event eventMsg) w;
          patchBase = t;
          t = et_setStatus (\<lambda>s. s\<lparr>etst_Registered := False, etst_LastError := lastError\<rparr>) t;
          (t, w) = setTriggerCondition e ConditionFalse reason msg t w;
          (res, w) = do_PatchTrigger e patchBase t w
      in (case res of Inl err \<Rightarrow> Error err | Inr _ \<Rightarrow> Done, w))"

definition namespaceAllowed :: "EventTrigger \<Rightarrow> bool" where
  "namespaceAllowed t \<longleftrightarrow>
     ets_AllowedNamespaces (et_Spec t) = [] \<or> om_Namespace (et_Meta t) \<in> set (ets_AllowedNamespaces (et_Spec t))"

text \<open>The first other trigger with the same path.\<close>

definition pathCollision :: "EventTrigger \<Rightarrow> string \<Rightarrow> EventTrigger list \<Rightarrow> EventTrigger option" where
  "pathCollision t path allTriggers =
     find (\<lambda>x. om_UID (et_Meta x) \<noteq> om_UID (et_Meta t) \<and>
               map_option wh_Path (ets_Webhook (et_Spec x)) = Some path) allTriggers"

text \<open>
  The registration and its status.  The check at the end reads the status the patch returned.
\<close>

definition registerTrigger :: "env \<Rightarrow> string \<Rightarrow> EventTrigger \<Rightarrow> Server \<Rightarrow> world \<Rightarrow> Result \<times> Server \<times> world" where
  "registerTrigger e path t srv w =
     (let patchBase = t;
          (err, srv) = RegisterRoute e t srv w;
          (updated, t, w) =
            (case err of
               Some msg \<Rightarrow>
                 let w = emit (Event ''Warning'' ''RouteRegistrationFailed''
                           (''Failed to register webhook route '' @ quote path @ '': '' @ msg)) w;
                     t = et_setStatus (\<lambda>s. s\<lparr>etst_Registered := False,
                           etst_LastError := ''route registration failed: '' @ msg\<rparr>) t;
                     (t, w) = setTriggerCondition e ConditionFalse ReasonTriggerRouteFailed ''Failed to register webhook route'' t w
                 in (True, t, w)
             | None \<Rightarrow>
                 if etst_Registered (et_Status t) then (False, t, w)
                 else
                   let w = emit (Event ''Normal'' ''RouteRegistered'' (''Webhook route '' @ quote path @ '' registered'')) w;
                       t = et_setStatus (\<lambda>s. s\<lparr>etst_Registered := True, etst_LastError := []\<rparr>) t;
                       (t, w) = setTriggerCondition e ConditionTrue ReasonTriggerRouteRegistered ''Webhook route registered'' t w
                   in (True, t, w));
          (res, w) = (if updated then do_PatchTrigger e patchBase t w else (Inr t, w))
      in case res of
           Inl err \<Rightarrow> (Error err, srv, w)
         | Inr t \<Rightarrow>
             (if etst_Registered (et_Status t) then Done
              else Error (OtherErr (''route '' @ quote path @ '' not registered'')), srv, w))"

definition Reconcile_Trigger :: "env \<Rightarrow> NamespacedName \<Rightarrow> Server \<Rightarrow> world \<Rightarrow> Result \<times> Server \<times> world" where
  "Reconcile_Trigger e req srv w =
     (case e_GetTrigger e w req of
        Inl err \<Rightarrow> (IgnoreNotFound err, srv, w)
      | Inr t \<Rightarrow>
          if om_DeletionTimestamp (et_Meta t) \<noteq> None
          then (Done, case webhookPath t of None \<Rightarrow> srv | Some path \<Rightarrow> DeregisterRoute path srv, w)
          else if \<not> namespaceAllowed t
          then (let ns = om_Namespace (et_Meta t);
                    (res, w) = refuseTrigger e ''NamespaceNotAllowed'' (''Trigger namespace '' @ ns @ '' is not in allowedNamespaces'')
                      (''namespace '' @ ns @ '' not in allowedNamespaces'') ReasonTriggerNamespaceBlocked
                      ''Trigger namespace not in allowedNamespaces'' t w
                in (res, srv, w))
          else case webhookPath t of
            None \<Rightarrow> (Done, srv, w)
          | Some path \<Rightarrow>
              (case e_ListTriggers e w of
                 Inl err \<Rightarrow> (Error err, srv, w)
               | Inr allTriggers \<Rightarrow>
                   (case pathCollision t path allTriggers of
                      Some existing \<Rightarrow>
                        let (res, w) = refuseTrigger e ''PathCollision''
                              (''Webhook path '' @ quote path @ '' already in use by EventTrigger '' @ om_Name (et_Meta existing))
                              (''webhook path '' @ quote path @ '' already in use by '' @ om_Name (et_Meta existing))
                              ReasonTriggerPathCollision ''Webhook path already in use'' t w
                        in (res, srv, w)
                    | None \<Rightarrow> registerTrigger e path t srv w)))"

section \<open>mapSecretToTriggers\<close>

text \<open>The watch on secrets calls it with a Secret.\<close>

definition refersTo :: "EventTrigger \<Rightarrow> Secret \<Rightarrow> bool" where
  "refersTo t secret \<longleftrightarrow>
     (case ets_Webhook (et_Spec t) of
        None \<Rightarrow> False
      | Some wh \<Rightarrow>
          (case wh_SecretRef wh of
             None \<Rightarrow> False
           | Some ref \<Rightarrow>
               sr_Name ref = sec_Name secret \<and>
               \<not> (sr_Namespace ref \<noteq> [] \<and> sr_Namespace ref \<noteq> sec_Namespace secret) \<and>
               \<not> (sr_Namespace ref = [] \<and> sec_Namespace secret \<noteq> om_Namespace (et_Meta t))))"

definition mapSecretToTriggers :: "env \<Rightarrow> Secret \<Rightarrow> world \<Rightarrow> NamespacedName list" where
  "mapSecretToTriggers e secret w =
     (case e_ListTriggers e w of
        Inl err \<Rightarrow> []
      | Inr allTriggers \<Rightarrow>
          map (\<lambda>t. \<lparr>nn_Namespace = om_Namespace (et_Meta t), nn_Name = om_Name (et_Meta t)\<rparr>)
            (filter (\<lambda>t. refersTo t secret) allTriggers))"

end
