(* ===== verification/Webhook_Properties.thy ===== *)
theory Webhook_Properties
  imports Webhook_Server "HOL-Library.Sublist" "HOL-Library.Multiset"
begin

text \<open>
  What the webhook server guarantees: who can make it create a Workflow, how often, from which
  addresses, and what the Workflow holds.
\<close>

section \<open>Signatures\<close>

lemma validateHMAC_iff:
  "validateHMAC secret body sig pfx \<longleftrightarrow> sig = pfx @ EncodeToString (hmac_sha256 secret body)"
  by (auto simp: validateHMAC_def HasPrefix_iff)

definition signed :: "string \<Rightarrow> string \<Rightarrow> (string \<Rightarrow> string) \<Rightarrow> bool" where
  "signed secret body header \<longleftrightarrow>
     (let digest = EncodeToString (hmac_sha256 secret body)
      in header ''X-Hub-Signature-256'' = ''sha256='' @ digest \<or>
         header ''X-Hub-Signature-256'' = [] \<and> header ''X-Hub-Signature'' = ''sha1='' @ digest)"

lemma checkSignature_iff: "checkSignature secret body header \<longleftrightarrow> secret = [] \<or> signed secret body header"
  by (auto simp: checkSignature_def signed_def validateHMAC_iff Let_def)

text \<open>
  The signature check accepts exactly the requests whose header is the keyed digest of their
  body: \<open>X-Hub-Signature-256\<close> must be \<open>sha256=\<close> followed by the 64 hexadecimal digits of the
  HMAC-SHA-256 of the body under the route's secret, or, if that header is absent,
  \<open>X-Hub-Signature\<close> must be \<open>sha1=\<close> followed by the same digest (although its name announces SHA-1).
  A request without a signature never passes, and a signature fits no two digests.
\<close>

lemma checkSignature_exact:
  "(checkSignature (c # secret) body header \<longleftrightarrow>
      (let digest = EncodeToString (hmac_sha256 (c # secret) body)
       in header ''X-Hub-Signature-256'' = ''sha256='' @ digest \<or>
          header ''X-Hub-Signature-256'' = [] \<and> header ''X-Hub-Signature'' = ''sha1='' @ digest)) \<and>
   length (EncodeToString (hmac_sha256 (c # secret) body)) = 64 \<and>
   \<not> checkSignature (c # secret) body (\<lambda>_. []) \<and>
   (EncodeToString (hmac_sha256 (c # secret) body) = EncodeToString (hmac_sha256 k m) \<longleftrightarrow>
    hmac_sha256 (c # secret) body = hmac_sha256 k m)"
  by (simp add: checkSignature_iff signed_def EncodeToString_inj)

section \<open>Rate limit\<close>

text \<open>
  A sequence of requests to one route, each handled in a world of its own: the instants admitted
  and the counter afterwards.
\<close>

abbreviation instant :: "env \<Rightarrow> world \<Rightarrow> time" where
  "instant e w \<equiv> e_clock e (w_reads w)"

definition rate_step :: "env \<Rightarrow> int \<Rightarrow> time list \<times> time list \<Rightarrow> world \<Rightarrow> time list \<times> time list" where
  "rate_step e limit st w =
     (let (ok, counts, _) = allow e limit (snd st) w
      in (if ok then fst st @ [instant e w] else fst st, counts))"

lemma rate_step_eq:
  "limit > 0 \<Longrightarrow> rate_step e limit (adm, cs) w =
     (let cs' = filter (\<lambda>t. t > instant e w - minute) cs
      in if int (length cs') < limit then (adm @ [instant e w], cs' @ [instant e w]) else (adm, cs'))"
  by (simp add: rate_step_def allow_def Now_def Let_def)

definition in_window :: "time \<Rightarrow> time list \<Rightarrow> time list" where
  "in_window t ts = filter (\<lambda>x. t - minute < x \<and> x \<le> t) ts"

definition rate_inv :: "int \<Rightarrow> time \<Rightarrow> time list \<times> time list \<Rightarrow> bool" where
  "rate_inv limit now st \<longleftrightarrow>
     snd st = filter (\<lambda>x. now - minute < x) (fst st) \<and> (\<forall>x \<in> set (fst st). x \<le> now) \<and>
     (\<forall>t. int (length (in_window t (fst st))) \<le> limit)"

lemma rate_step_inv:
  assumes "l > 0" "l \<le> limit" "rate_inv limit prev st" "prev \<le> instant e w"
  shows "rate_inv limit (instant e w) (rate_step e l st w)"
    and "fst (rate_step e l st w) =
      (if int (length (in_window (instant e w) (fst st))) < l then fst st @ [instant e w] else fst st)"
proof -
  obtain adm cs where st: "st = (adm, cs)" by (cases st)
  define now where "now = instant e w"
  let ?cs = "filter (\<lambda>t. t > now - minute) cs"
  have le: "\<forall>x \<in> set adm. x \<le> now" using assms(3,4) by (force simp: rate_inv_def st now_def)
  have cs: "?cs = filter (\<lambda>x. now - minute < x) adm"
    using assms(3,4) by (auto simp: rate_inv_def st now_def intro!: filter_cong)
  have win: "in_window now adm = ?cs" using le unfolding in_window_def cs by (auto intro!: filter_cong)
  have old: "int (length (in_window t adm)) \<le> limit" for t using assms(3) by (simp add: rate_inv_def st)
  show "fst (rate_step e l st w) =
      (if int (length (in_window (instant e w) (fst st))) < l then fst st @ [instant e w] else fst st)"
    using win by (simp add: st rate_step_eq [OF assms(1)] Let_def now_def)
  have new: "int (length (in_window t (adm @ [now]))) \<le> limit" if "int (length ?cs) < l" for t
  proof (cases "t - minute < now \<and> now \<le> t")
    case True
    then have "in_window t adm = filter (\<lambda>x. t - minute < x) ?cs"
      using le unfolding cs in_window_def filter_filter by (auto intro!: filter_cong)
    then have "length (in_window t adm) \<le> length ?cs" by (metis length_filter_le)
    with True that assms(2) show ?thesis by (simp add: in_window_def)
  next
    case False
    then have "in_window t (adm @ [now]) = in_window t adm" by (auto simp: in_window_def)
    with old show ?thesis by simp
  qed
  have "rate_step e l st w = (if int (length ?cs) < l then (adm @ [now], ?cs @ [now]) else (adm, ?cs))"
    by (simp add: st rate_step_eq [OF assms(1)] Let_def now_def)
  then show "rate_inv limit (instant e w) (rate_step e l st w)"
    using le cs old new unfolding now_def [symmetric] by (auto simp: rate_inv_def minute_def)
qed

lemma rate_run_inv:
  assumes "limit > 0" "sorted (map (instant e) (w # ws))"
  shows "rate_inv limit (instant e (last (w # ws))) (foldl (rate_step e limit) ([], []) (w # ws))"
  using assms(2)
proof (induction ws rule: rev_induct)
  case Nil
  have "rate_inv limit (instant e w) ([], [])" using assms(1) by (simp add: rate_inv_def in_window_def)
  then show ?case using rate_step_inv(1) [OF assms(1) order_refl] by auto
next
  case (snoc x xs)
  then have "rate_inv limit (instant e (last (w # xs))) (foldl (rate_step e limit) ([], []) (w # xs))"
    "instant e (last (w # xs)) \<le> instant e x"
    by (auto simp: sorted_append)
  then show ?case using rate_step_inv(1) [OF assms(1) order_refl] by auto
qed

text \<open>
  The rate limit is a true sliding window: for requests at non-decreasing instants, no period
  of one minute, wherever it starts, contains more than \<open>maxPerMinute\<close> admitted requests; and a
  request is only refused when that many were admitted during the minute before it.
\<close>

lemma rate_limit_sliding_window:
  assumes "limit > 0" "sorted (map (\<lambda>w. e_clock e (w_reads w)) (ws @ [w]))"
  shows "let st = foldl (rate_step e limit) ([], []) ws; admitted = fst st; now = e_clock e (w_reads w)
    in (\<forall>t. int (length (filter (\<lambda>x. t - minute < x \<and> x \<le> t) admitted)) \<le> limit) \<and>
       fst (allow e limit (snd st) w) =
         (int (length (filter (\<lambda>x. now - minute < x \<and> x \<le> now) admitted)) < limit)"
proof (cases ws)
  case Nil
  then show ?thesis using assms(1) by (simp add: allow_def Now_def Let_def)
next
  case (Cons v vs)
  let ?st = "foldl (rate_step e limit) ([], []) ws"
  have inv: "rate_inv limit (instant e (last ws)) ?st"
    using rate_run_inv [OF assms(1), of e v vs] assms(2) by (simp add: Cons sorted_append)
  have "instant e (last ws) \<le> instant e w" using assms(2) by (auto simp: Cons sorted_append)
  then have "fst (rate_step e limit ?st w) =
      (if int (length (in_window (instant e w) (fst ?st))) < limit then fst ?st @ [instant e w] else fst ?st)"
    using rate_step_inv(2) [OF assms(1) order_refl inv] by simp
  then have "fst (allow e limit (snd ?st) w) = (int (length (in_window (instant e w) (fst ?st))) < limit)"
    by (auto simp: rate_step_def split_beta Let_def split: if_splits)
  with inv show ?thesis by (simp add: rate_inv_def in_window_def Let_def)
qed

lemma rate_limit_sliding_window_example:
  "let at = (\<lambda>n. sample_world\<lparr>w_reads := n\<rparr>)
   in fst (allow sample_env 2 (snd (foldl (rate_step sample_env 2) ([], []) [at 0, at 1])) (at 2)) = False"
proof -
  have clock: "e_clock sample_env n = int n" for n by (simp add: sample_env_def)
  have "fst (foldl (rate_step sample_env 2) ([], []) [sample_world\<lparr>w_reads := 0\<rparr>, sample_world\<lparr>w_reads := 1\<rparr>]) = [0, 1]"
    by (simp add: rate_step_eq minute_def clock Let_def)
  then show ?thesis
    using rate_limit_sliding_window [of 2 sample_env "[sample_world\<lparr>w_reads := 0\<rparr>, sample_world\<lparr>w_reads := 1\<rparr>]" "sample_world\<lparr>w_reads := 2\<rparr>"]
    by (simp add: Let_def minute_def clock)
qed

section \<open>Addresses\<close>

text \<open>
  C24. The address list works on the bits of the address: a request from an IPv4 address passes a
  list of IPv4 networks if and only if, for one of them, the first \<open>n\<close> bits of its address and of
  the network agree, where \<open>n\<close> is the length after the slash; otherwise it is refused with 403.
\<close>

theorem checkIP_exact:
  assumes "nets \<noteq> []" "list_all (\<lambda>(net, n). length net = 4 \<and> n \<le> 32) nets" "length ip = 4"
  shows "checkIP (map (\<lambda>(net, n). v4_text net @ ''/'' @ show_nat n) nets) (v4_text ip @ '':'' @ show_nat port) =
    (if list_ex (\<lambda>(net, n). take n (addr_bits net) = take n (addr_bits ip)) nets then None else Some (403, ''Forbidden''))"
proof -
  have "ip \<noteq> []" using assms(3) by auto
  then have host: "SplitHostPort (v4_text ip @ '':'' @ show_nat port) = Some (v4_text ip)"
    using SplitHostPort_v4_text [of ip port] by simp
  have parse: "ParseIP (v4_text ip) = Some (As16 (V4 ip))"
    using ParseAddr_v4_text [OF assms(3)] by (simp add: ParseIP_def)
  have "(case ParseCIDR (v4_text net @ ''/'' @ show_nat n) of None \<Rightarrow> False | Some N \<Rightarrow> IPNet_Contains N (As16 (V4 ip))) \<longleftrightarrow>
      take n (addr_bits net) = take n (addr_bits ip)" if "(net, n) \<in> set nets" for net n
  proof -
    have "length net = 4" "n \<le> 32" using assms(2) that by (auto simp: list_all_iff)
    then show ?thesis
      using ParseCIDR_v4_text [of net n] IPNet_Contains_V4 [of net ip n] assms(3) by (simp del: As16.simps)
  qed
  then have "list_ex (\<lambda>cidr. case ParseCIDR cidr of None \<Rightarrow> False | Some N \<Rightarrow> IPNet_Contains N (As16 (V4 ip)))
      (map (\<lambda>(net, n). v4_text net @ ''/'' @ show_nat n) nets) \<longleftrightarrow>
      list_ex (\<lambda>(net, n). take n (addr_bits net) = take n (addr_bits ip)) nets"
    by (force simp: list_ex_iff)
  then show ?thesis using assms(1) by (simp only: checkIP_def host parse Let_def option.case) simp
qed

theorem checkIP_exact_witness:
  "checkIP [''10.128.0.0/9''] ''10.200.1.2:80'' = None"
proof -
  have "v4_text [10, 128, 0, 0] @ ''/'' @ show_nat 9 = ''10.128.0.0/9''"
    "v4_text [10, 200, 1, 2] @ '':'' @ show_nat 80 = ''10.200.1.2:80''" by code_simp+
  moreover have "take 9 (addr_bits [10, 128, 0, 0]) = take 9 (addr_bits [10, 200, 1, 2])" by code_simp
  ultimately show ?thesis
    using checkIP_exact [of "[([10, 128, 0, 0], 9)]" "[10, 200, 1, 2]" 80] by simp
qed

section \<open>Parameters\<close>

text \<open>What a parameter is set to: the extracted value or the default, sanitized if asked for.\<close>

definition param_value :: "http_env \<Rightarrow> (string, json) gomap \<Rightarrow> ParameterMapping \<Rightarrow> string" where
  "param_value h payload m =
     (let val = extractDotPath h payload (TrimPrefix (pm_Source m) ''$.'');
          val = (if val = [] then pm_Default m else val)
      in if pm_Sanitize m then sanitizeValue val else val)"

lemma sanitizeValue_Nil [simp]: "sanitizeValue [] = []"
  by (simp add: sanitizeValue_def)

lemma extractParam_eq:
  "extractParam h payload m =
     (if extractDotPath h payload (TrimPrefix (pm_Source m) ''$.'') = [] \<and> pm_Required m
      then extractParam h payload m else Inr (param_value h payload m))"
  "(\<exists>msg. extractParam h payload m = Inl msg) \<longleftrightarrow>
     extractDotPath h payload (TrimPrefix (pm_Source m) ''$.'') = [] \<and> pm_Required m"
  by (auto simp: extractParam_def param_value_def Let_def)

lemma extractParams_spec:
  "case extractParams h ms payload out of
     Inl msg \<Rightarrow> list_ex (\<lambda>m. pm_Required m \<and> extractDotPath h payload (TrimPrefix (pm_Source m) ''$.'') = []) ms
   | Inr params \<Rightarrow>
       list_all (\<lambda>m. pm_Required m \<longrightarrow> extractDotPath h payload (TrimPrefix (pm_Source m) ''$.'') \<noteq> []) ms \<and>
       map_of params k = (case find (\<lambda>m. pm_Name m = k) (rev (filter (present h payload) ms)) of
                            None \<Rightarrow> map_of out k | Some m \<Rightarrow> Some (param_value h payload m))"
proof (induction ms arbitrary: out)
  case Nil
  then show ?case by simp
next
  case (Cons m ms)
  show ?case
  proof (cases "extractParam h payload m")
    case (Inl msg)
    then show ?thesis using extractParam_eq(2) [of h payload m] by auto
  next
    case (Inr val)
    then have ok: "\<not> (extractDotPath h payload (TrimPrefix (pm_Source m) ''$.'') = [] \<and> pm_Required m)" "val = param_value h payload m"
      using extractParam_eq [of h payload m] by auto
    define out' where "out' = (if present h payload m then AList.update (pm_Name m) val out else out)"
    have step: "extractParams h (m # ms) payload out = extractParams h ms payload out'" using Inr by (simp add: out'_def)
    have "map_of out' k = (if present h payload m \<and> pm_Name m = k then Some (param_value h payload m) else map_of out k)"
      by (simp add: out'_def ok)
    then show ?thesis
      using Cons.IH [of out'] ok(1) unfolding step
      by (cases "extractParams h ms payload out'")
         (auto simp: find_append split: option.splits)
  qed
qed

text \<open>
  The text of a payload at a dotted path, as the API describes it: the parts of the path select
  fields of nested objects; an absent field and a null have no text, a string is its own text, and
  the other values are printed by the library.
\<close>

definition field_at :: "(string, json) gomap \<Rightarrow> string \<Rightarrow> json option" where
  "field_at payload path =
     foldl (\<lambda>v part. case v of Some (JObject m) \<Rightarrow> map_of m part | _ \<Rightarrow> None) (Some (JObject payload)) (Split path CHR ''.'')"

definition text_at :: "http_env \<Rightarrow> (string, json) gomap \<Rightarrow> ParameterMapping \<Rightarrow> string" where
  "text_at h payload m =
     (case field_at payload (TrimPrefix (pm_Source m) ''$.'') of
        None \<Rightarrow> [] | Some JNull \<Rightarrow> [] | Some (JString s) \<Rightarrow> s
      | Some (JNumber x) \<Rightarrow> h_FormatFloat h x | Some v \<Rightarrow> h_Marshal h v)"

lemma follow_foldl:
  fixes parts c
  defines "sel \<equiv> \<lambda>v part. case v of Some (JObject m) \<Rightarrow> map_of m part | _ \<Rightarrow> None"
  assumes "c \<noteq> JNull"
  shows "follow parts c = (case foldl sel (Some c) parts of Some JNull \<Rightarrow> None | v \<Rightarrow> v)"
  using assms(2)
proof (induction parts arbitrary: c)
  case Nil
  then show ?case by (cases c) simp_all
next
  case (Cons part parts)
  have none: "foldl sel None ps = None" for ps by (induction ps) (simp_all add: sel_def)
  have null: "foldl sel (Some JNull) ps = (if ps = [] then Some JNull else None)" for ps
    by (cases ps) (simp_all add: sel_def none [unfolded sel_def])
  show ?case
  proof (cases c)
    case (JObject m)
    then show ?thesis
      using Cons.IH by (cases "map_of m part") (auto simp: sel_def none [unfolded sel_def] null [unfolded sel_def] split: json.split)
  qed (use Cons.prems in \<open>simp_all add: sel_def none [unfolded sel_def]\<close>)
qed

lemma text_at_eq: "text_at h payload m = extractDotPath h payload (TrimPrefix (pm_Source m) ''$.'')"
  by (simp add: text_at_def extractDotPath_def field_at_def follow_foldl split: option.split json.split)

text \<open>
  C29. Parameters are extracted as configured.  The extraction fails exactly when a required parameter
  has no text in the payload (an absent or null field, or an empty text).  Otherwise, if every
  parameter has a text or a default, a name is set if and only if a mapping has it, and the last
  such mapping decides: the value is the text of the payload at its path, or the default where that
  is empty, and if it is to be sanitized, without any of the characters \<open>;|&$`(){}<>\<close>, the quotes,
  tabs and line ends, and otherwise unchanged.  (An optional parameter with neither text nor default
  is outside the statement: the API comment and the code differ on it.)
\<close>

theorem extractParams_exact:
  assumes "list_all (\<lambda>m. pm_Required m \<or> text_at h payload m \<noteq> [] \<or> pm_Default m \<noteq> []) ms"
  shows "case extractParams h ms payload [] of
      Inl msg \<Rightarrow> list_ex (\<lambda>m. pm_Required m \<and> text_at h payload m = []) ms
    | Inr params \<Rightarrow>
        \<not> list_ex (\<lambda>m. pm_Required m \<and> text_at h payload m = []) ms \<and>
        map_of params k = map_option
          (\<lambda>m. let val = (if text_at h payload m = [] then pm_Default m else text_at h payload m)
               in if pm_Sanitize m
                  then filter (\<lambda>c. c \<notin> set '';|&$`(){}<>'' \<and> c \<notin> {NL, CHR 0x0D, CHR 0x09, SQ, DQ}) val else val)
          (find (\<lambda>m. pm_Name m = k) (rev ms))"
proof (cases "extractParams h ms payload []")
  case (Inl msg)
  then show ?thesis
    using extractParams_spec [where h = h and ms = ms and payload = payload and out = "[]"] by (simp add: text_at_eq)
next
  case (Inr params)
  then have spec: "list_all (\<lambda>m. pm_Required m \<longrightarrow> text_at h payload m \<noteq> []) ms"
    "map_of params k = (case find (\<lambda>m. pm_Name m = k) (rev (filter (present h payload) ms)) of
       None \<Rightarrow> map_of [] k | Some m \<Rightarrow> Some (param_value h payload m))"
    using extractParams_spec [where h = h and ms = ms and payload = payload and out = "[]" and k = k] by (simp_all add: text_at_eq)
  have "filter (present h payload) ms = ms"
    using assms spec(1) by (auto simp: filter_id_conv list_all_iff present_def text_at_eq)
  moreover have "param_value h payload =
      (\<lambda>m. let val = (if text_at h payload m = [] then pm_Default m else text_at h payload m)
           in if pm_Sanitize m
              then filter (\<lambda>c. c \<notin> set '';|&$`(){}<>'' \<and> c \<notin> {NL, CHR 0x0D, CHR 0x09, SQ, DQ}) val else val)"
    by (rule ext) (simp only: param_value_def sanitizeValue_def text_at_eq Let_def)
  ultimately show ?thesis
    using Inr spec by (auto simp: list_ex_iff list_all_iff split: option.split)
qed

definition ref_mapping :: ParameterMapping where
  "ref_mapping = \<lparr>pm_Name = ''REF'', pm_Source = ''$.head.ref'', pm_Sanitize = True, pm_Default = [], pm_Required = True\<rparr>"

definition plain_http :: http_env where
  "plain_http = \<lparr>h_Unmarshal = (\<lambda>body. None), h_Marshal = (\<lambda>v. []), h_FormatFloat = (\<lambda>f. f), h_range = (\<lambda>i j m. m)\<rparr>"

theorem extractParams_exact_witness:
  "case extractParams plain_http [ref_mapping] [(''head'', JObject [(''ref'', JString ''main; ls'')])] [] of
     Inl msg \<Rightarrow> False | Inr params \<Rightarrow> map_of params ''REF'' = Some ''main ls''"
proof -
  let ?p = "[(''head'', JObject [(''ref'', JString ''main; ls'')])]"
  have path: "TrimPrefix ''$.head.ref'' ''$.'' = ''head.ref''" "Split ''head.ref'' CHR ''.'' = [''head'', ''ref'']" by code_simp+
  then have t: "text_at plain_http ?p ref_mapping = ''main; ls''" by (simp add: text_at_def field_at_def ref_mapping_def)
  then have "list_all (\<lambda>m. pm_Required m \<or> text_at plain_http ?p m \<noteq> [] \<or> pm_Default m \<noteq> []) [ref_mapping]"
    by (simp add: ref_mapping_def)
  from extractParams_exact [OF this, of "''REF''"] t show ?thesis
    by (cases "extractParams plain_http [ref_mapping] ?p []") (simp_all add: ref_mapping_def)
qed

section \<open>What a request can do\<close>

lemma checkRate_log: "w_log (snd (snd (checkRate e t path srv w))) = w_log w"
  by (auto simp: checkRate_def allow_def Now_def Let_def split: option.split)

lemma checkRate_routes: "srv_routes (fst (snd (checkRate e t path srv w))) = srv_routes srv"
  by (auto simp: checkRate_def allow_def Now_def Let_def split: option.split)

text \<open>The Workflow a trigger sends for a template, before its owner is set.\<close>

definition from_template :: "http_env \<Rightarrow> EventTrigger \<Rightarrow> (string, string) gomap \<Rightarrow> Workflow \<Rightarrow> Workflow" where
  "from_template h t params template =
     template\<lparr>wf_Meta := zero_ObjectMeta\<lparr>om_GenerateName := om_Name (wf_Meta template) @ ''-'',
       om_Namespace := om_Namespace (et_Meta t), om_Labels := [(''app.kubernetes.io/name'', ''runner-operator''),
         (''runner-operator.io/event-trigger'', om_Name (et_Meta t))]\<rparr>,
       wf_Spec := injectParams h params (wf_Spec template)\<rparr>"

definition template_ref :: "EventTrigger \<Rightarrow> NamespacedName" where
  "template_ref t =
     (let ref = ets_WorkflowTemplate (et_Spec t)
      in \<lparr>nn_Namespace = (if wtr_Namespace ref \<noteq> [] then wtr_Namespace ref else om_Namespace (et_Meta t)), nn_Name = wtr_Name ref\<rparr>)"

lemma createWorkflow_spec:
  assumes "createWorkflow e h t params w = (err, w')" "err = None \<or> w_log w' \<noteq> w_log w"
  obtains template meta where "e_GetWorkflow e w (template_ref t) = Inr template"
    "e_SetControllerReference e (et_Meta t) (wf_Meta (from_template h t params template)) = Inr meta"
    "w_log w' = w_log w @ [Create (OWorkflow ((from_template h t params template)\<lparr>wf_Meta := meta\<rparr>))]"
    "ets_AllowedNamespaces (et_Spec t) = [] \<or> om_Namespace (et_Meta t) \<in> set (ets_AllowedNamespaces (et_Spec t))"
proof -
  have ns: "\<not> (ets_AllowedNamespaces (et_Spec t) \<noteq> [] \<and> om_Namespace (et_Meta t) \<notin> set (ets_AllowedNamespaces (et_Spec t)))"
    using assms by (auto simp: createWorkflow_def Let_def split: if_splits)
  show ?thesis
  proof (cases "e_GetWorkflow e w (template_ref t)")
    case (Inl x)
    then show ?thesis using assms ns by (auto simp: createWorkflow_def template_ref_def Let_def)
  next
    case (Inr template)
    show ?thesis
    proof (cases "e_SetControllerReference e (et_Meta t) (wf_Meta (from_template h t params template))")
      case (Inl x)
      then show ?thesis using assms ns \<open>e_GetWorkflow e w (template_ref t) = Inr template\<close>
        by (auto simp: createWorkflow_def template_ref_def from_template_def Let_def)
    next
      case meta: (Inr meta)
      have "w_log w' = w_log w @ [Create (OWorkflow ((from_template h t params template)\<lparr>wf_Meta := meta\<rparr>))]"
        using assms(1) ns Inr meta
        by (auto simp: createWorkflow_def template_ref_def from_template_def do_request_defs Let_def)
      with that Inr meta ns show ?thesis by blast
    qed
  qed
qed

text \<open>What lies behind the rate limit: any effect of a delivery has passed the later checks.\<close>

lemma deliver_gates:
  assumes "deliver e h route rq w = (resp, w')" "rsp_Code resp = 202 \<or> w_log w' \<noteq> w_log w"
    and "sets_owner (e_SetControllerReference e)"
  obtains body payload params template W where "readBody rq = Some body"
    "checkSignature (rc_SecretValue route) body (rq_Header rq)" "h_Unmarshal h body = Some payload"
    "extractParams h (ets_Parameters (et_Spec (rc_Trigger route))) payload [] = Inr params"
    "ets_AllowedNamespaces (et_Spec (rc_Trigger route)) = [] \<or>
     om_Namespace (et_Meta (rc_Trigger route)) \<in> set (ets_AllowedNamespaces (et_Spec (rc_Trigger route)))"
    "e_GetWorkflow e w (template_ref (rc_Trigger route)) = Inr template"
    "w_log w' = w_log w @ [Create (OWorkflow W)]" "wf_Spec W = injectParams h params (wf_Spec template)"
    "wf_Namespace W = om_Namespace (et_Meta (rc_Trigger route))"
    "map_of (om_Labels (wf_Meta W)) ''runner-operator.io/event-trigger'' = Some (om_Name (et_Meta (rc_Trigger route)))"
proof -
  note del = assms(1)
  obtain body where body: "readBody rq = Some body" "checkSignature (rc_SecretValue route) body (rq_Header rq)"
    using del assms(2) by (auto simp: deliver_def split: option.splits if_splits)
  obtain payload where payload: "h_Unmarshal h body = Some payload"
    using del assms(2) body by (auto simp: deliver_def split: option.splits)
  obtain params where params: "extractParams h (ets_Parameters (et_Spec (rc_Trigger route))) payload [] = Inr params"
    using del assms(2) body payload by (auto simp: deliver_def split: sum.splits)
  obtain err where create: "createWorkflow e h (rc_Trigger route) params w = (err, w')" "err = None \<or> w_log w' \<noteq> w_log w"
    using del assms(2) body payload params by (auto simp: deliver_def Let_def split: prod.splits option.splits)
  obtain template meta where t: "e_GetWorkflow e w (template_ref (rc_Trigger route)) = Inr template"
      "e_SetControllerReference e (et_Meta (rc_Trigger route)) (wf_Meta (from_template h (rc_Trigger route) params template)) = Inr meta"
      "w_log w' = w_log w @ [Create (OWorkflow ((from_template h (rc_Trigger route) params template)\<lparr>wf_Meta := meta\<rparr>))]"
      "ets_AllowedNamespaces (et_Spec (rc_Trigger route)) = [] \<or>
       om_Namespace (et_Meta (rc_Trigger route)) \<in> set (ets_AllowedNamespaces (et_Spec (rc_Trigger route)))"
    using createWorkflow_spec [OF create] by blast
  have meta: "om_Namespace meta = om_Namespace (et_Meta (rc_Trigger route))"
      "map_of (om_Labels meta) ''runner-operator.io/event-trigger'' = Some (om_Name (et_Meta (rc_Trigger route)))"
    using sets_ownerD [OF assms(3) t(2)] by (simp_all add: from_template_def)
  show ?thesis
    by (rule that) (use body payload params t meta in \<open>(simp add: from_template_def; fail)\<close>)+
qed

text \<open>
  C6. Nothing happens without every check: a request that is accepted, or that leads to any request
  to the API server, came in on a registered route, from an allowed address, within the rate
  limit, with a readable body whose signature is valid (unless the route has no secret) and which
  decodes to an object with all required parameters, for a trigger whose namespace is allowed.
  It then creates exactly one Workflow: the trigger's template with the extracted parameters, in
  the trigger's namespace and labelled with the trigger's name.
\<close>

theorem webhook_gates:
  assumes "handleRequest e h rq srv w = (resp, srv', w')" "rsp_Code resp = 202 \<or> w_log w' \<noteq> w_log w"
    and "sets_owner (e_SetControllerReference e)"
  shows "\<exists>route wh body payload params template W w1. map_of (srv_routes srv) (rq_Path rq) = Some route \<and>
    ets_Webhook (et_Spec (rc_Trigger route)) = Some wh \<and> checkIP (wh_AllowedIPs wh) (rq_RemoteAddr rq) = None \<and>
    fst (checkRate e (rc_Trigger route) (wh_Path wh) srv w) \<and> readBody rq = Some body \<and>
    (rc_SecretValue route = [] \<or> signed (rc_SecretValue route) body (rq_Header rq)) \<and>
    h_Unmarshal h body = Some payload \<and> extractParams h (ets_Parameters (et_Spec (rc_Trigger route))) payload [] = Inr params \<and>
    (ets_AllowedNamespaces (et_Spec (rc_Trigger route)) = [] \<or>
     om_Namespace (et_Meta (rc_Trigger route)) \<in> set (ets_AllowedNamespaces (et_Spec (rc_Trigger route)))) \<and>
    e_GetWorkflow e w1 (template_ref (rc_Trigger route)) = Inr template \<and>
    w_log w' = w_log w @ [Create (OWorkflow W)] \<and> wf_Spec W = injectParams h params (wf_Spec template) \<and>
    wf_Namespace W = om_Namespace (et_Meta (rc_Trigger route)) \<and>
    map_of (om_Labels (wf_Meta W)) ''runner-operator.io/event-trigger'' = Some (om_Name (et_Meta (rc_Trigger route)))"
proof -
  have ip: "checkIP a b = Some (c, d) \<Longrightarrow> c \<noteq> 202" for a b c d
    by (auto simp: checkIP_def Let_def split: if_splits option.splits)
  obtain route wh where route: "map_of (srv_routes srv) (rq_Path rq) = Some route"
      "ets_Webhook (et_Spec (rc_Trigger route)) = Some wh" "checkIP (wh_AllowedIPs wh) (rq_RemoteAddr rq) = None"
    using assms(1,2) ip by (auto simp: handleRequest_def split: option.splits)
  obtain ok srv1 w1 where rate: "checkRate e (rc_Trigger route) (wh_Path wh) srv w = (ok, srv1, w1)" by (metis prod_cases3)
  have log1: "w_log w1 = w_log w" using checkRate_log [of e "rc_Trigger route" "wh_Path wh" srv w] rate by simp
  have ok: "ok" and del: "deliver e h route rq w1 = (resp, w')"
    using assms(1,2) route rate log1 by (auto simp: handleRequest_def Let_def split: prod.splits if_splits)
  have "rsp_Code resp = 202 \<or> w_log w' \<noteq> w_log w1" using assms(2) log1 by simp
  from deliver_gates [OF del this assms(3)] obtain body payload params template W where d: "readBody rq = Some body"
    "checkSignature (rc_SecretValue route) body (rq_Header rq)" "h_Unmarshal h body = Some payload"
    "extractParams h (ets_Parameters (et_Spec (rc_Trigger route))) payload [] = Inr params"
    "ets_AllowedNamespaces (et_Spec (rc_Trigger route)) = [] \<or>
     om_Namespace (et_Meta (rc_Trigger route)) \<in> set (ets_AllowedNamespaces (et_Spec (rc_Trigger route)))"
    "e_GetWorkflow e w1 (template_ref (rc_Trigger route)) = Inr template"
    "w_log w' = w_log w1 @ [Create (OWorkflow W)]" "wf_Spec W = injectParams h params (wf_Spec template)"
    "wf_Namespace W = om_Namespace (et_Meta (rc_Trigger route))"
    "map_of (om_Labels (wf_Meta W)) ''runner-operator.io/event-trigger'' = Some (om_Name (et_Meta (rc_Trigger route)))"
    by metis
  show ?thesis
    by (intro exI conjI) (use route rate ok d log1 in \<open>(simp add: checkSignature_iff [symmetric]; fail)\<close>)+
qed

definition hook_trigger :: EventTrigger where
  "hook_trigger = \<lparr>et_Meta = zero_ObjectMeta\<lparr>om_Name := ''push'', om_Namespace := ''ci'', om_UID := ''u1''\<rparr>,
     et_Spec = \<lparr>ets_Webhook = Some \<lparr>wh_Path = ''/push'', wh_SecretRef = None, wh_AllowedIPs = []\<rparr>,
       ets_WorkflowTemplate = \<lparr>wtr_Name = ''build'', wtr_Namespace = []\<rparr>, ets_Parameters = [],
       ets_RateLimit = Some \<lparr>rl_MaxPerMinute = 1, rl_MaxConcurrent = 0\<rparr>, ets_AllowedNamespaces = []\<rparr>,
     et_Status = \<lparr>etst_Conditions = [], etst_LastTriggerTime = None, etst_WorkflowCount = 0, etst_LastError = [],
       etst_Registered = True\<rparr>\<rparr>"

definition hook_server :: Server where
  "hook_server = \<lparr>srv_routes = [(''/push'', \<lparr>rc_Trigger = hook_trigger, rc_SecretValue = ''key''\<rparr>)], srv_rateData = []\<rparr>"

definition hook_http :: http_env where
  "hook_http = \<lparr>h_Unmarshal = (\<lambda>body. if body = ''{}'' then Some [] else None), h_Marshal = (\<lambda>v. []),
     h_FormatFloat = (\<lambda>f. f), h_range = (\<lambda>i j m. m)\<rparr>"

definition hook_request :: "string \<Rightarrow> Request" where
  "hook_request sig = \<lparr>rq_Path = ''/push'', rq_RemoteAddr = ''10.0.0.1:80'', rq_ContentLength = 2, rq_Body = ''{}'',
     rq_ReadError = False, rq_Header = (\<lambda>k. if k = ''X-Hub-Signature-256'' then sig else [])\<rparr>"

definition hook_env :: env where
  "hook_env = sample_env\<lparr>e_GetWorkflow := \<lambda>w nn. Inr \<lparr>wf_Meta = zero_ObjectMeta\<lparr>om_Name := nn_Name nn\<rparr>,
     wf_Spec = \<lparr>wsp_Jobs = [], wsp_Steps = [], wsp_Timeout = None\<rparr>, wf_Status = zero_WorkflowStatus\<rparr>\<rparr>"

lemma hook_rate: "checkRate hook_env hook_trigger ''/push'' hook_server sample_world =
  (True, hook_server\<lparr>srv_rateData := [(''/push'', [0])]\<rparr>, sample_world\<lparr>w_reads := 1\<rparr>)"
  by (simp add: checkRate_def hook_trigger_def hook_server_def allow_def Now_def hook_env_def sample_env_def sample_world_def Let_def)

lemma hook_body: "readBody (hook_request sig) = Some ''{}''"
  by (simp add: readBody_def hook_request_def maxPayloadSize_def)

lemma hook_handle:
  "handleRequest hook_env hook_http (hook_request sig) hook_server sample_world =
     (case deliver hook_env hook_http \<lparr>rc_Trigger = hook_trigger, rc_SecretValue = ''key''\<rparr> (hook_request sig) (sample_world\<lparr>w_reads := 1\<rparr>) of
        (resp, w) \<Rightarrow> (resp, hook_server\<lparr>srv_rateData := [(''/push'', [0])]\<rparr>, w))"
proof -
  have "map_of (srv_routes hook_server) (rq_Path (hook_request sig)) = Some \<lparr>rc_Trigger = hook_trigger, rc_SecretValue = ''key''\<rparr>"
    "ets_Webhook (et_Spec hook_trigger) = Some \<lparr>wh_Path = ''/push'', wh_SecretRef = None, wh_AllowedIPs = []\<rparr>"
    by (simp_all add: hook_server_def hook_request_def hook_trigger_def)
  then show ?thesis by (simp add: handleRequest_def checkIP_def hook_rate)
qed

lemma hook_deliver:
  assumes "signed ''key'' ''{}'' (rq_Header (hook_request sig))"
  shows "rsp_Code (fst (deliver hook_env hook_http \<lparr>rc_Trigger = hook_trigger, rc_SecretValue = ''key''\<rparr> (hook_request sig) w)) = 202"
proof -
  have "fst (createWorkflow hook_env hook_http hook_trigger [] w) = None"
    by (simp add: createWorkflow_def hook_trigger_def hook_env_def sample_env_def do_request_defs Let_def)
  moreover have "h_Unmarshal hook_http ''{}'' = Some []" "ets_Parameters (et_Spec hook_trigger) = []"
    by (simp_all add: hook_http_def hook_trigger_def)
  ultimately show ?thesis
    using assms by (simp add: deliver_def hook_body checkSignature_iff Let_def split_beta)
qed

theorem webhook_gates_witness:
  "let r = handleRequest hook_env hook_http (hook_request (''sha256='' @ EncodeToString (hmac_sha256 ''key'' ''{}''))) hook_server sample_world
   in rsp_Code (fst r) = 202 \<and> map wf_Namespace (created_workflows (w_log (snd (snd r)))) = [''ci'']"
proof -
  let ?rq = "hook_request (''sha256='' @ EncodeToString (hmac_sha256 ''key'' ''{}''))"
  obtain resp srv' w' where r: "handleRequest hook_env hook_http ?rq hook_server sample_world = (resp, srv', w')" by (metis prod_cases3)
  have "signed ''key'' ''{}'' (rq_Header ?rq)" by (simp add: signed_def hook_request_def)
  then have "rsp_Code resp = 202"
    using hook_deliver [of "''sha256='' @ EncodeToString (hmac_sha256 ''key'' ''{}'')" "sample_world\<lparr>w_reads := 1\<rparr>"] r
    unfolding hook_handle by (simp only: split_beta fst_conv) auto
  moreover have "sets_owner (e_SetControllerReference hook_env)" using sample_env_ok by (simp add: hook_env_def)
  ultimately obtain route W where "map_of (srv_routes hook_server) (rq_Path ?rq) = Some route"
      "w_log w' = w_log sample_world @ [Create (OWorkflow W)]" "wf_Namespace W = om_Namespace (et_Meta (rc_Trigger route))"
    using webhook_gates [OF r] by blast
  then have "map wf_Namespace (created_workflows (w_log w')) = [''ci'']"
    by (auto simp: sample_world_def hook_server_def hook_request_def hook_trigger_def)
  with \<open>rsp_Code resp = 202\<close> r show ?thesis by simp
qed

text \<open>
  The rate limit is charged before the signature is checked: a request without a valid
  signature is answered 401 but takes a place in the window, so that whoever can reach the server
  can use up the limit of a route and keep the legitimate sender out.
\<close>

lemma unsigned_request_consumes_quota:
  assumes "map_of (srv_routes srv) (rq_Path rq) = Some route" "ets_Webhook (et_Spec (rc_Trigger route)) = Some wh"
    and "checkIP (wh_AllowedIPs wh) (rq_RemoteAddr rq) = None" "ets_RateLimit (et_Spec (rc_Trigger route)) = Some rl"
    and "rl_MaxPerMinute rl > 0" "fst (checkRate e (rc_Trigger route) (wh_Path wh) srv w)"
    and "readBody rq = Some body" "\<not> checkSignature (rc_SecretValue route) body (rq_Header rq)"
    and "handleRequest e h rq srv w = (resp, srv', w')"
  shows "rsp_Code resp = 401 \<and>
    (\<exists>counts. mget [] (srv_rateData srv') (wh_Path wh) = counts @ [e_clock e (w_reads w)])"
proof -
  obtain srv1 w1 where rate: "checkRate e (rc_Trigger route) (wh_Path wh) srv w = (True, srv1, w1)"
    using assms(6) by (metis (full_types) prod.collapse)
  have "deliver e h route rq w1 = (\<lparr>rsp_Code = 401, rsp_Body = ''Unauthorized''\<rparr>, w1)"
    using assms(7,8) by (simp add: deliver_def)
  then have "handleRequest e h rq srv w = (\<lparr>rsp_Code = 401, rsp_Body = ''Unauthorized''\<rparr>, srv1, w1)"
    using assms(1-3) rate by (simp add: handleRequest_def)
  moreover have "\<exists>counts. mget [] (srv_rateData srv1) (wh_Path wh) = counts @ [e_clock e (w_reads w)]"
    using rate assms(4,5) by (auto simp: checkRate_def allow_def Now_def Let_def split: if_splits)
  ultimately show ?thesis using assms(9) by simp
qed

lemma unsigned_request_consumes_quota_example:
  "rsp_Code (fst (handleRequest hook_env hook_http (hook_request []) hook_server sample_world)) = 401"
proof -
  obtain resp srv' w' where r: "handleRequest hook_env hook_http (hook_request []) hook_server sample_world = (resp, srv', w')" by (metis prod_cases3)
  have "\<not> checkSignature ''key'' ''{}'' (rq_Header (hook_request []))" by (simp add: checkSignature_def hook_request_def)
  moreover have "map_of (srv_routes hook_server) (rq_Path (hook_request [])) = Some \<lparr>rc_Trigger = hook_trigger, rc_SecretValue = ''key''\<rparr>"
    "ets_Webhook (et_Spec hook_trigger) = Some \<lparr>wh_Path = ''/push'', wh_SecretRef = None, wh_AllowedIPs = []\<rparr>"
    "ets_RateLimit (et_Spec hook_trigger) = Some \<lparr>rl_MaxPerMinute = 1, rl_MaxConcurrent = 0\<rparr>"
    by (simp_all add: hook_server_def hook_request_def hook_trigger_def)
  ultimately show ?thesis
    using unsigned_request_consumes_quota [OF _ _ _ _ _ _ _ _ r, where body = "''{}''"]
    by (simp add: checkIP_def hook_rate hook_body r)
qed

section \<open>The parameters in the Workflow\<close>

text \<open>
  Go visits every entry of a map exactly once in a range loop, in an order of its choice.
\<close>

definition ranges_all :: "http_env \<Rightarrow> bool" where
  "ranges_all h \<longleftrightarrow> (\<forall>i j m. mset (h_range h i j m) = mset m)"

definition env_of :: "(string, string) gomap \<Rightarrow> EnvVar multiset" where
  "env_of params = image_mset (\<lambda>(k, v). \<lparr>ev_Name = k, ev_Value = v, ev_ValueFrom = []\<rparr>) (mset params)"

definition gets_env :: "EnvVar multiset \<Rightarrow> WorkflowStep \<Rightarrow> WorkflowStep \<Rightarrow> bool" where
  "gets_env new s s' \<longleftrightarrow>
     s' = s\<lparr>st_Env := st_Env s'\<rparr> \<and> (\<exists>added. elems (st_Env s') = elems (st_Env s) @ added \<and> mset added = new)"

lemma injectEnv_gets:
  assumes "ranges_all h"
  shows "gets_env (env_of params) s (injectEnv (h_range h i j params) s)"
  using assms by (auto simp: gets_env_def injectEnv_def ranges_all_def env_of_def)

lemma injectEnv_none: "gets_env (env_of []) s s"
  by (simp add: gets_env_def env_of_def)

text \<open>
  Every step of the created Workflow gets the parameters: each flat step and each step of each
  job keeps its own environment, in front, and gets one variable per parameter behind it; nothing
  else of a step, a job or the spec changes.  (The API comment speaks of the first step only.)
\<close>

lemma injectParams_every_step:
  assumes "ranges_all h"
  shows "list_all2 (gets_env (env_of params)) (wsp_Steps spec) (wsp_Steps (injectParams h params spec)) \<and>
    list_all2 (\<lambda>job job'. job' = job\<lparr>js_Steps := js_Steps job'\<rparr> \<and> list_all2 (gets_env (env_of params)) (js_Steps job) (js_Steps job'))
      (wsp_Jobs spec) (wsp_Jobs (injectParams h params spec)) \<and>
    wsp_Timeout (injectParams h params spec) = wsp_Timeout spec"
proof (cases "params = []")
  case True
  then show ?thesis by (auto simp: injectParams_def list_all2_same injectEnv_none)
next
  case False
  show ?thesis using False injectEnv_gets [OF assms]
    by (simp add: injectParams_def list_all2_conv_all_nth nth_enumerate_eq)
qed

text \<open>
  C30. The parameters reach the Workflow: for a template with flat steps, the first step of the
  created spec keeps its own environment, in front, and gets exactly one variable per parameter
  behind it, whatever the order Go visits the parameters in; nothing else of any step, job or of
  the spec changes but environments of steps.
\<close>

theorem injectParams_first_step:
  assumes "\<forall>i j m. mset (h_range h i j m) = mset m" "wsp_Steps spec = s # ss"
  shows "\<exists>s' ss' added. wsp_Steps (injectParams h params spec) = s' # ss' \<and>
    elems (st_Env s') = elems (st_Env s) @ added \<and>
    mset added = mset (map (\<lambda>(k, v). \<lparr>ev_Name = k, ev_Value = v, ev_ValueFrom = []\<rparr>) params) \<and>
    list_all2 (\<lambda>a b. b = a\<lparr>st_Env := st_Env b\<rparr>) (s # ss) (s' # ss') \<and>
    list_all2 (\<lambda>job job'. job' = job\<lparr>js_Steps := js_Steps job'\<rparr> \<and>
        list_all2 (\<lambda>a b. b = a\<lparr>st_Env := st_Env b\<rparr>) (js_Steps job) (js_Steps job'))
      (wsp_Jobs spec) (wsp_Jobs (injectParams h params spec)) \<and>
    wsp_Timeout (injectParams h params spec) = wsp_Timeout spec"
proof -
  have only: "gets_env new a b \<Longrightarrow> b = a\<lparr>st_Env := st_Env b\<rparr>" for new a b by (simp add: gets_env_def)
  have "ranges_all h" using assms(1) by (simp add: ranges_all_def)
  from injectParams_every_step [OF this, of params spec]
  have all: "list_all2 (gets_env (env_of params)) (s # ss) (wsp_Steps (injectParams h params spec))"
    "list_all2 (\<lambda>job job'. job' = job\<lparr>js_Steps := js_Steps job'\<rparr> \<and> list_all2 (gets_env (env_of params)) (js_Steps job) (js_Steps job'))
      (wsp_Jobs spec) (wsp_Jobs (injectParams h params spec))"
    "wsp_Timeout (injectParams h params spec) = wsp_Timeout spec" unfolding assms(2) by auto
  then obtain s' ss' where s': "wsp_Steps (injectParams h params spec) = s' # ss'" "gets_env (env_of params) s s'"
    by (auto simp: list_all2_Cons1)
  from s'(2) obtain added where added: "elems (st_Env s') = elems (st_Env s) @ added" "mset added = env_of params"
    by (auto simp: gets_env_def)
  have steps: "list_all2 (\<lambda>a b. b = a\<lparr>st_Env := st_Env b\<rparr>) (s # ss) (s' # ss')"
    using all(1) unfolding s'(1) by (rule list_all2_mono) (rule only)
  have jobs: "list_all2 (\<lambda>job job'. job' = job\<lparr>js_Steps := js_Steps job'\<rparr> \<and>
        list_all2 (\<lambda>a b. b = a\<lparr>st_Env := st_Env b\<rparr>) (js_Steps job) (js_Steps job'))
      (wsp_Jobs spec) (wsp_Jobs (injectParams h params spec))"
    using all(2) by (rule list_all2_mono) (auto intro: list_all2_mono only)
  show ?thesis
    using s'(1) added steps jobs all(3) unfolding env_of_def mset_map [symmetric] by blast
qed

theorem injectParams_first_step_witness:
  "\<exists>s' added. wsp_Steps (injectParams hook_http [(''REF'', ''main'')] \<lparr>wsp_Jobs = [], wsp_Steps = [zero_WorkflowStep], wsp_Timeout = None\<rparr>) = [s'] \<and>
     elems (st_Env s') = elems (st_Env zero_WorkflowStep) @ added \<and>
     mset added = {#\<lparr>ev_Name = ''REF'', ev_Value = ''main'', ev_ValueFrom = []\<rparr>#}"
proof -
  let ?spec = "\<lparr>wsp_Jobs = [], wsp_Steps = [zero_WorkflowStep], wsp_Timeout = None\<rparr>"
  have "\<forall>i j m. mset (h_range hook_http i j m) = mset m" "wsp_Steps ?spec = zero_WorkflowStep # []"
    by (simp_all add: hook_http_def)
  from injectParams_first_step [OF this, of "[(''REF'', ''main'')]"] show ?thesis
    by (auto simp: list_all2_Cons1)
qed

end
