(* ===== verification/Trigger_Properties.thy ===== *)
theory Trigger_Properties
  imports EventTrigger_Controller Webhook_Properties
begin

text \<open>
  What the EventTrigger controller and the webhook server do together.  The controller relies on the
  server's route table only through three operations; their contract is the locale \<open>route_table\<close>,
  which the server's table satisfies.
\<close>

section \<open>The contract of a route table\<close>

datatype 'r route_op = Add string 'r | Remove string

fun op_path :: "'r route_op \<Rightarrow> string" where
  "op_path (Add p r) = p"
| "op_path (Remove p) = p"

fun op_result :: "'r route_op \<Rightarrow> 'r option" where
  "op_result (Add p r) = Some r"
| "op_result (Remove p) = None"

locale route_table =
  fixes lookup :: "'s \<Rightarrow> string \<Rightarrow> 'r option"
    and add :: "string \<Rightarrow> 'r \<Rightarrow> 's \<Rightarrow> 's"
    and remove :: "string \<Rightarrow> 's \<Rightarrow> 's"
  assumes lookup_add: "lookup (add p r s) q = (if q = p then Some r else lookup s q)"
    and lookup_remove: "lookup (remove p s) q = (if q = p then None else lookup s q)"
begin

text \<open>The client's view of a history of operations: the last one on a path decides.\<close>

lemma lookup_history:
  "lookup (foldl (\<lambda>s x. case x of Add p r \<Rightarrow> add p r s | Remove p \<Rightarrow> remove p s) s ops) q =
     (case find (\<lambda>x. op_path x = q) (rev ops) of None \<Rightarrow> lookup s q | Some x \<Rightarrow> op_result x)"
proof (induction ops rule: rev_induct)
  case Nil
  then show ?case by simp
next
  case (snoc x xs)
  then show ?case by (cases x) (auto simp: lookup_add lookup_remove)
qed

lemma untouched:
  "q \<notin> set (map op_path ops) \<Longrightarrow>
     lookup (foldl (\<lambda>s x. case x of Add p r \<Rightarrow> add p r s | Remove p \<Rightarrow> remove p s) s ops) q = lookup s q"
  by (induction ops arbitrary: s) (auto simp: lookup_add lookup_remove split: route_op.split)

end

definition routeAt :: "Server \<Rightarrow> string \<Rightarrow> RouteConfig option" where
  "routeAt srv path = map_of (srv_routes srv) path"

definition addRoute :: "string \<Rightarrow> RouteConfig \<Rightarrow> Server \<Rightarrow> Server" where
  "addRoute path route srv = srv\<lparr>srv_routes := AList.update path route (srv_routes srv)\<rparr>"

interpretation server_routes: route_table routeAt addRoute DeregisterRoute
  by unfold_locales (simp_all add: routeAt_def addRoute_def DeregisterRoute_def delete_conv')

section \<open>What a pass does to the routes\<close>

text \<open>The secret a route of the trigger is registered with; None when it cannot be read.\<close>

definition secret_key :: "EventTrigger \<Rightarrow> WebhookConfig \<Rightarrow> NamespacedName option" where
  "secret_key t wh = map_option (\<lambda>ref. \<lparr>nn_Namespace = (if sr_Namespace ref = [] then om_Namespace (et_Meta t) else sr_Namespace ref),
     nn_Name = sr_Name ref\<rparr>) (wh_SecretRef wh)"

definition hmac_value :: "Secret \<Rightarrow> string" where
  "hmac_value s = (let v = mget [] (sec_Data s) ''hmac-secret'' in if v = [] then mget [] (sec_Data s) ''token'' else v)"

definition route_secret :: "env \<Rightarrow> EventTrigger \<Rightarrow> world \<Rightarrow> string option" where
  "route_secret e t w =
     (case ets_Webhook (et_Spec t) of
        None \<Rightarrow> None
      | Some wh \<Rightarrow>
          (case secret_key t wh of
             None \<Rightarrow> Some []
           | Some key \<Rightarrow> (case e_GetSecret e w key of Inl _ \<Rightarrow> None | Inr s \<Rightarrow> Some (hmac_value s))))"

lemma RegisterRoute_spec:
  assumes "webhookPath t = Some path"
  shows "snd (RegisterRoute e t srv w) =
      (case route_secret e t w of None \<Rightarrow> srv | Some v \<Rightarrow> addRoute path \<lparr>rc_Trigger = t, rc_SecretValue = v\<rparr> srv)"
    and "fst (RegisterRoute e t srv w) = None \<longleftrightarrow> route_secret e t w \<noteq> None"
  using assms
  by (auto simp: RegisterRoute_def webhookPath_def route_secret_def secret_key_def hmac_value_def addRoute_def Let_def
      split: option.splits sum.splits if_splits)

text \<open>The operations on the table that a pass and a request stand for.\<close>

definition pass_ops :: "env \<Rightarrow> NamespacedName \<Rightarrow> world \<Rightarrow> RouteConfig route_op list" where
  "pass_ops e req w =
     (case e_GetTrigger e w req of
        Inl _ \<Rightarrow> []
      | Inr t \<Rightarrow>
          (case webhookPath t of
             None \<Rightarrow> []
           | Some path \<Rightarrow>
               if om_DeletionTimestamp (et_Meta t) \<noteq> None then [Remove path]
               else if \<not> namespaceAllowed t then []
               else case e_ListTriggers e w of
                 Inl _ \<Rightarrow> []
               | Inr allTriggers \<Rightarrow>
                   if pathCollision t path allTriggers \<noteq> None then []
                   else case route_secret e t w of
                     None \<Rightarrow> []
                   | Some v \<Rightarrow> [Add path \<lparr>rc_Trigger = t, rc_SecretValue = v\<rparr>]))"

lemma registerTrigger_server: "fst (snd (registerTrigger e path t srv w)) = snd (RegisterRoute e t srv w)"
  by (simp add: registerTrigger_def Let_def split_beta split: option.split sum.split)

lemma Reconcile_Trigger_server:
  "fst (snd (Reconcile_Trigger e req srv w)) =
     foldl (\<lambda>s x. case x of Add p r \<Rightarrow> addRoute p r s | Remove p \<Rightarrow> DeregisterRoute p s) srv (pass_ops e req w)"
  by (auto simp: Reconcile_Trigger_def pass_ops_def registerTrigger_server RegisterRoute_spec(1) Let_def split_beta
      split: sum.split option.split)

lemma handleRequest_routes: "srv_routes (fst (snd (handleRequest e h rq srv w))) = srv_routes srv"
  using checkRate_routes
  by (auto simp: handleRequest_def Let_def split_beta split: option.split)

text \<open>The server serves requests and passes of the controller in any order.\<close>

datatype server_step = Pass env NamespacedName world | Serve env http_env Request world

fun server_step_fun :: "Server \<Rightarrow> server_step \<Rightarrow> Server" where
  "server_step_fun srv (Pass e req w) = fst (snd (Reconcile_Trigger e req srv w))"
| "server_step_fun srv (Serve e h rq w) = fst (snd (handleRequest e h rq srv w))"

fun step_ops :: "server_step \<Rightarrow> RouteConfig route_op list" where
  "step_ops (Pass e req w) = pass_ops e req w"
| "step_ops (Serve e h rq w) = []"

lemma server_history:
  "routeAt (foldl server_step_fun srv steps) p =
     routeAt (foldl (\<lambda>s x. case x of Add p r \<Rightarrow> addRoute p r s | Remove p \<Rightarrow> DeregisterRoute p s) srv (concat (map step_ops steps))) p"
proof (induction steps rule: rev_induct)
  case Nil
  then show ?case by simp
next
  case (snoc x xs)
  show ?case
  proof (cases x)
    case (Pass e req w)
    then show ?thesis
      using snoc by (simp add: Reconcile_Trigger_server server_routes.lookup_history split: option.split)
  next
    case (Serve e h rq w)
    then show ?thesis using snoc by (simp add: routeAt_def handleRequest_routes)
  qed
qed

text \<open>Every registered route belongs to a trigger with a webhook.\<close>

definition webhook_routes :: "Server \<Rightarrow> bool" where
  "webhook_routes srv \<longleftrightarrow> (\<forall>path route. routeAt srv path = Some route \<longrightarrow> ets_Webhook (et_Spec (rc_Trigger route)) \<noteq> None)"

lemma pass_ops_webhook: "Add path route \<in> set (pass_ops e req w) \<Longrightarrow> ets_Webhook (et_Spec (rc_Trigger route)) \<noteq> None"
proof -
  assume "Add path route \<in> set (pass_ops e req w)"
  then have "webhookPath (rc_Trigger route) \<noteq> None"
    by (cases "e_GetTrigger e w req"; cases "e_ListTriggers e w"; cases "webhookPath (projr (e_GetTrigger e w req))";
        cases "route_secret e (projr (e_GetTrigger e w req)) w") (auto simp: pass_ops_def split: if_splits)
  then show ?thesis by (auto simp: webhookPath_def split: option.splits)
qed

lemma routes_have_webhook: "webhook_routes srv \<Longrightarrow> webhook_routes (server_step_fun srv x)"
proof (cases x)
  case (Pass e req w)
  assume srv: "webhook_routes srv"
  show ?thesis unfolding webhook_routes_def
  proof (intro allI impI)
    fix path route
    assume "routeAt (server_step_fun srv x) path = Some route"
    then have "(case find (\<lambda>x. op_path x = path) (rev (pass_ops e req w)) of None \<Rightarrow> routeAt srv path | Some x \<Rightarrow> op_result x) = Some route"
      by (simp add: Pass Reconcile_Trigger_server server_routes.lookup_history)
    then consider "routeAt srv path = Some route" | y where "y \<in> set (pass_ops e req w)" "op_result y = Some route"
      by (auto simp: find_Some_iff split: option.splits) (metis length_rev nth_mem set_rev)
    then show "ets_Webhook (et_Spec (rc_Trigger route)) \<noteq> None"
    proof cases
      case 1
      then show ?thesis using srv by (auto simp: webhook_routes_def)
    next
      case (2 y)
      from 2(2) have "y = Add (op_path y) route" by (cases y) auto
      with 2(1) have "Add (op_path y) route \<in> set (pass_ops e req w)" by simp
      then show ?thesis by (rule pass_ops_webhook)
    qed
  qed
qed (simp add: webhook_routes_def routeAt_def handleRequest_routes)

text \<open>No trigger of the list but \<open>t\<close> itself has the path.\<close>

definition path_unique :: "EventTrigger \<Rightarrow> string \<Rightarrow> EventTrigger list \<Rightarrow> bool" where
  "path_unique t path ts \<longleftrightarrow>
     (\<forall>x \<in> set ts. om_UID (et_Meta x) = om_UID (et_Meta t) \<or>
        (\<forall>wh. ets_Webhook (et_Spec x) = Some wh \<longrightarrow> wh_Path wh \<noteq> path))"

lemma pathCollision_None: "pathCollision t path ts = None \<longleftrightarrow> path_unique t path ts"
  by (auto simp: pathCollision_def path_unique_def find_None_iff)

definition namespace_permitted :: "EventTrigger \<Rightarrow> bool" where
  "namespace_permitted t \<longleftrightarrow>
     ets_AllowedNamespaces (et_Spec t) = [] \<or> om_Namespace (et_Meta t) \<in> set (ets_AllowedNamespaces (et_Spec t))"

lemma namespaceAllowed_iff: "namespaceAllowed t \<longleftrightarrow> namespace_permitted t"
  by (auto simp: namespaceAllowed_def namespace_permitted_def)

text \<open>
  C11. The route table is exactly what the history of the controller's passes makes it: after any
  interleaving of passes and requests, the route of a path is the one of the last pass that
  registered or removed that path, and requests never change it.  A pass registers its trigger if
  and only if the trigger is there, not being deleted, has a webhook path, is in a namespace it
  allows, no other trigger of the cluster has the path, and its secret can be read; the route then
  holds the trigger and that secret.  A pass that sees a trigger being deleted removes its path.
\<close>

theorem route_table_history:
  "routeAt (foldl server_step_fun srv steps) p =
     (case find (\<lambda>x. op_path x = p) (rev (concat (map step_ops steps))) of
        None \<Rightarrow> routeAt srv p | Some x \<Rightarrow> op_result x) \<and>
   (Add path route \<in> set (step_ops (Pass e req w)) \<longleftrightarrow>
      (\<exists>t ts. e_GetTrigger e w req = Inr t \<and> om_DeletionTimestamp (et_Meta t) = None \<and> webhookPath t = Some path \<and>
         namespace_permitted t \<and> e_ListTriggers e w = Inr ts \<and> path_unique t path ts \<and>
         rc_Trigger route = t \<and> route_secret e t w = Some (rc_SecretValue route))) \<and>
   (case e_GetTrigger e w req of
      Inl _ \<Rightarrow> True
    | Inr t \<Rightarrow> if om_DeletionTimestamp (et_Meta t) = None then True
        else step_ops (Pass e req w) = (case webhookPath t of None \<Rightarrow> [] | Some path \<Rightarrow> [Remove path]))"
proof (intro conjI)
  show "routeAt (foldl server_step_fun srv steps) p =
     (case find (\<lambda>x. op_path x = p) (rev (concat (map step_ops steps))) of
        None \<Rightarrow> routeAt srv p | Some x \<Rightarrow> op_result x)"
    by (simp add: server_history server_routes.lookup_history)
  show "case e_GetTrigger e w req of
      Inl _ \<Rightarrow> True
    | Inr t \<Rightarrow> if om_DeletionTimestamp (et_Meta t) = None then True
        else step_ops (Pass e req w) = (case webhookPath t of None \<Rightarrow> [] | Some path \<Rightarrow> [Remove path])"
    by (cases "e_GetTrigger e w req") (auto simp: pass_ops_def split: option.splits)
  have route: "route = \<lparr>rc_Trigger = t, rc_SecretValue = v\<rparr> \<longleftrightarrow> rc_Trigger route = t \<and> rc_SecretValue route = v" for t v
    by (cases route) simp
  show "Add path route \<in> set (step_ops (Pass e req w)) \<longleftrightarrow>
      (\<exists>t ts. e_GetTrigger e w req = Inr t \<and> om_DeletionTimestamp (et_Meta t) = None \<and> webhookPath t = Some path \<and>
         namespace_permitted t \<and> e_ListTriggers e w = Inr ts \<and> path_unique t path ts \<and>
         rc_Trigger route = t \<and> route_secret e t w = Some (rc_SecretValue route))"
    by (cases "e_GetTrigger e w req"; cases "e_ListTriggers e w")
       (auto simp: pass_ops_def namespaceAllowed_iff [symmetric] pathCollision_None [symmetric] route split: sum.splits option.splits)
qed

section \<open>Secret rotation\<close>

text \<open>The watch on secrets and the registration agree on which secret a trigger refers to.\<close>

lemma refersTo_iff:
  "refersTo t secret \<longleftrightarrow>
     (\<exists>wh. ets_Webhook (et_Spec t) = Some wh \<and>
        secret_key t wh = Some \<lparr>nn_Namespace = sec_Namespace secret, nn_Name = sec_Name secret\<rparr>)"
  by (auto simp: refersTo_def secret_key_def split: option.splits)

text \<open>
  C25. A rotated secret reaches the route: when a secret changes, the watch asks for a pass over
  exactly the listed triggers whose effective reference (the namespace defaulting to the trigger's
  own) is that secret; and such a pass over a trigger that is not being deleted, in a namespace it
  allows and alone on its path leaves its route with the value the secret has now.
\<close>

theorem secret_rotation_reaches_route:
  assumes "e_ListTriggers e w = Inr allTriggers" "t \<in> set allTriggers"
    and "ets_Webhook (et_Spec t) = Some wh" "webhookPath t = Some path" "wh_SecretRef wh = Some ref"
    and "key = \<lparr>nn_Namespace = (if sr_Namespace ref = [] then om_Namespace (et_Meta t) else sr_Namespace ref), nn_Name = sr_Name ref\<rparr>"
    and "e_GetSecret e w key = Inr secret" "sec_Namespace secret = nn_Namespace key" "sec_Name secret = nn_Name key"
    and "req = \<lparr>nn_Namespace = om_Namespace (et_Meta t), nn_Name = om_Name (et_Meta t)\<rparr>" "e_GetTrigger e w req = Inr t"
    and "om_DeletionTimestamp (et_Meta t) = None" "namespace_permitted t" "path_unique t path allTriggers"
  shows "set (mapSecretToTriggers e secret w) =
      {\<lparr>nn_Namespace = om_Namespace (et_Meta x), nn_Name = om_Name (et_Meta x)\<rparr> | x.
         x \<in> set allTriggers \<and>
         (\<exists>wh ref. ets_Webhook (et_Spec x) = Some wh \<and> wh_SecretRef wh = Some ref \<and> sr_Name ref = sec_Name secret \<and>
            (if sr_Namespace ref = [] then om_Namespace (et_Meta x) else sr_Namespace ref) = sec_Namespace secret)} \<and>
    req \<in> set (mapSecretToTriggers e secret w) \<and>
    map_of (srv_routes (fst (snd (Reconcile_Trigger e req srv w)))) path =
      Some \<lparr>rc_Trigger = t, rc_SecretValue =
        (let v = mget [] (sec_Data secret) ''hmac-secret'' in if v = [] then mget [] (sec_Data secret) ''token'' else v)\<rparr>"
proof (intro conjI)
  have key: "secret_key t wh = Some key" using assms(5,6) by (simp add: secret_key_def)
  then have "refersTo t secret" using assms(3,6,8,9) by (auto simp: refersTo_iff)
  then show "req \<in> set (mapSecretToTriggers e secret w)"
    using assms(1,2,10) by (auto simp: mapSecretToTriggers_def)
  have refs: "refersTo x secret \<longleftrightarrow>
      (\<exists>wh ref. ets_Webhook (et_Spec x) = Some wh \<and> wh_SecretRef wh = Some ref \<and> sr_Name ref = sec_Name secret \<and>
         (if sr_Namespace ref = [] then om_Namespace (et_Meta x) else sr_Namespace ref) = sec_Namespace secret)" for x
    by (auto simp: refersTo_iff secret_key_def)
  show "set (mapSecretToTriggers e secret w) =
      {\<lparr>nn_Namespace = om_Namespace (et_Meta x), nn_Name = om_Name (et_Meta x)\<rparr> | x.
         x \<in> set allTriggers \<and>
         (\<exists>wh ref. ets_Webhook (et_Spec x) = Some wh \<and> wh_SecretRef wh = Some ref \<and> sr_Name ref = sec_Name secret \<and>
            (if sr_Namespace ref = [] then om_Namespace (et_Meta x) else sr_Namespace ref) = sec_Namespace secret)}"
    unfolding mapSecretToTriggers_def assms(1) sum.case set_map set_filter refs by blast
  have "route_secret e t w = Some (hmac_value secret)" using assms(3,7) key by (simp add: route_secret_def)
  then have "pass_ops e req w = [Add path \<lparr>rc_Trigger = t, rc_SecretValue = hmac_value secret\<rparr>]"
    using assms by (simp add: pass_ops_def namespaceAllowed_iff pathCollision_None)
  then show "map_of (srv_routes (fst (snd (Reconcile_Trigger e req srv w)))) path =
      Some \<lparr>rc_Trigger = t, rc_SecretValue =
        (let v = mget [] (sec_Data secret) ''hmac-secret'' in if v = [] then mget [] (sec_Data secret) ''token'' else v)\<rparr>"
    using Reconcile_Trigger_server [of e req srv w] server_routes.lookup_add [of path _ srv path]
    by (simp add: routeAt_def [symmetric] hmac_value_def)
qed

definition secret_trigger :: EventTrigger where
  "secret_trigger = hook_trigger\<lparr>et_Spec := (et_Spec hook_trigger)\<lparr>ets_Webhook :=
     Some \<lparr>wh_Path = ''/push'', wh_SecretRef = Some \<lparr>sr_Name = ''hook'', sr_Namespace = []\<rparr>, wh_AllowedIPs = []\<rparr>\<rparr>\<rparr>"

definition rotated_secret :: Secret where
  "rotated_secret = \<lparr>sec_Name = ''hook'', sec_Namespace = ''ci'', sec_Data = [(''hmac-secret'', ''new'')], sec_StringData = []\<rparr>"

definition rotation_env :: env where
  "rotation_env = sample_env\<lparr>e_ListTriggers := \<lambda>w. Inr [secret_trigger], e_GetTrigger := \<lambda>w nn. Inr secret_trigger,
     e_GetSecret := \<lambda>w nn. Inr rotated_secret\<rparr>"

lemma rotation_simps:
  "e_ListTriggers rotation_env w = Inr [secret_trigger]" "e_GetTrigger rotation_env w nn = Inr secret_trigger"
  "e_GetSecret rotation_env w nn = Inr rotated_secret" "webhookPath secret_trigger = Some ''/push''"
  "ets_Webhook (et_Spec secret_trigger) =
     Some \<lparr>wh_Path = ''/push'', wh_SecretRef = Some \<lparr>sr_Name = ''hook'', sr_Namespace = []\<rparr>, wh_AllowedIPs = []\<rparr>"
  "om_Namespace (et_Meta secret_trigger) = ''ci''" "om_Name (et_Meta secret_trigger) = ''push''"
  "om_DeletionTimestamp (et_Meta secret_trigger) = None" "namespace_permitted secret_trigger"
  "path_unique secret_trigger ''/push'' [secret_trigger]"
  "sec_Namespace rotated_secret = ''ci''" "sec_Name rotated_secret = ''hook''" "sec_Data rotated_secret = [(''hmac-secret'', ''new'')]"
  by (simp_all add: rotation_env_def secret_trigger_def hook_trigger_def rotated_secret_def webhookPath_def namespace_permitted_def
      path_unique_def zero_ObjectMeta_def)

theorem secret_rotation_reaches_route_witness:
  "map_option rc_SecretValue (map_of (srv_routes (fst (snd (Reconcile_Trigger rotation_env
     \<lparr>nn_Namespace = ''ci'', nn_Name = ''push''\<rparr> hook_server sample_world)))) ''/push'') = Some ''new''"
  using secret_rotation_reaches_route [where e = rotation_env and w = sample_world and t = secret_trigger and allTriggers = "[secret_trigger]"
      and secret = rotated_secret and srv = hook_server and path = "''/push''" and key = "\<lparr>nn_Namespace = ''ci'', nn_Name = ''hook''\<rparr>"
      and req = "\<lparr>nn_Namespace = ''ci'', nn_Name = ''push''\<rparr>" and ref = "\<lparr>sr_Name = ''hook'', sr_Namespace = []\<rparr>"
      and wh = "\<lparr>wh_Path = ''/push'', wh_SecretRef = Some \<lparr>sr_Name = ''hook'', sr_Namespace = []\<rparr>, wh_AllowedIPs = []\<rparr>"]
  by (simp add: rotation_simps mget_def Let_def)

section \<open>Routes that stay\<close>

text \<open>
  Routes outlive their triggers: a pass that no longer finds the trigger (it was deleted; the
  operator sets no finalizer that would let it see the deletion), that finds it under another path,
  or that refuses it because its namespace is no longer allowed, leaves the old route in the table.
\<close>

lemma stale_route_survives:
  assumes "map_of (srv_routes srv) path = Some route"
    and "case e_GetTrigger e w req of
        Inl err \<Rightarrow> True
      | Inr t \<Rightarrow> webhookPath t \<noteq> Some path \<or> (om_DeletionTimestamp (et_Meta t) = None \<and> \<not> namespaceAllowed t)"
  shows "map_of (srv_routes (fst (snd (Reconcile_Trigger e req srv w)))) path = Some route"
proof -
  have "path \<notin> set (map op_path (pass_ops e req w))"
    using assms(2) by (auto simp: pass_ops_def split: sum.splits option.splits if_splits)
  then show ?thesis
    using server_routes.untouched [of path "pass_ops e req w" srv] assms(1)
    by (simp add: Reconcile_Trigger_server routeAt_def)
qed

lemma stale_route_survives_example:
  "map_option rc_Trigger (map_of (srv_routes (fst (snd (Reconcile_Trigger sample_env
     \<lparr>nn_Namespace = ''ci'', nn_Name = ''push''\<rparr> hook_server sample_world)))) ''/push'') = Some hook_trigger"
  using stale_route_survives [of hook_server "''/push''" "\<lparr>rc_Trigger = hook_trigger, rc_SecretValue = ''key''\<rparr>" sample_env sample_world
      "\<lparr>nn_Namespace = ''ci'', nn_Name = ''push''\<rparr>"]
  by (simp add: hook_server_def sample_env_def)

end
