(* ===== verification/Webhook_Concurrency.thy ===== *)
theory Webhook_Concurrency
  imports Trigger_Properties
begin

text \<open>
  The webhook server under concurrency.  \<open>net/http\<close> runs one goroutine per request, and the EventTrigger
  controller changes the routes meanwhile.  A goroutine touches shared memory in three critical
  sections of \<open>handleRequest\<close> (the lookup of the route, the lookup or creation of the counter, and
  \<open>allow\<close>), so it is a small state machine whose transitions are these sections, and the server is
  their interleaving.  The rate counters are objects on the heap: a handler that fetched one keeps it
  although the map may be changed before it is charged.
\<close>

section \<open>Shared memory and handlers\<close>

text \<open>\<open>sh_rateData\<close> holds pointers; \<open>sh_counters ! a\<close> is the counter at the address \<open>a\<close>.\<close>

record Shared =
  sh_routes :: "(string, RouteConfig) gomap"
  sh_rateData :: "(string, nat) gomap"
  sh_counters :: "time list list"

text \<open>Where a handler stands: before a critical section, before the unshared rest, or at its end.\<close>

datatype pc =
    Started
  | Routed RouteConfig WebhookConfig
  | Counting RouteConfig WebhookConfig int nat
  | Delivering RouteConfig
  | Answered Response

record Handler =
  hd_Request :: Request
  hd_pc :: pc

text \<open>The read lock around the lookup, and the checks of the address, which read nothing shared.\<close>

definition lookupRoute :: "Request \<Rightarrow> Shared \<Rightarrow> pc" where
  "lookupRoute rq S =
     (case map_of (sh_routes S) (rq_Path rq) of
        None \<Rightarrow> Answered \<lparr>rsp_Code = 404, rsp_Body = ''Not Found''\<rparr>
      | Some route \<Rightarrow>
          (case ets_Webhook (et_Spec (rc_Trigger route)) of
             None \<Rightarrow> Answered \<lparr>rsp_Code = 500, rsp_Body = ''nil pointer dereference''\<rparr>
           | Some wh \<Rightarrow>
               (case checkIP (wh_AllowedIPs wh) (rq_RemoteAddr rq) of
                  Some (code, body) \<Rightarrow> Answered \<lparr>rsp_Code = code, rsp_Body = body\<rparr>
                | None \<Rightarrow> Routed route wh)))"

text \<open>The lock around \<open>rateData\<close>: a missing counter is allocated.\<close>

definition fetchCounter :: "RouteConfig \<Rightarrow> WebhookConfig \<Rightarrow> Shared \<Rightarrow> pc \<times> Shared" where
  "fetchCounter route wh S =
     (case ets_RateLimit (et_Spec (rc_Trigger route)) of
        None \<Rightarrow> (Delivering route, S)
      | Some rl \<Rightarrow>
          if rl_MaxPerMinute rl > 0
          then (case map_of (sh_rateData S) (wh_Path wh) of
                  Some a \<Rightarrow> (Counting route wh (rl_MaxPerMinute rl) a, S)
                | None \<Rightarrow>
                    let a = length (sh_counters S)
                    in (Counting route wh (rl_MaxPerMinute rl) a,
                        S\<lparr>sh_rateData := AList.update (wh_Path wh) a (sh_rateData S), sh_counters := sh_counters S @ [[]]\<rparr>))
          else (Delivering route, S))"

text \<open>\<open>allow\<close>, under the lock of the counter.\<close>

definition chargeCounter :: "env \<Rightarrow> RouteConfig \<Rightarrow> int \<Rightarrow> nat \<Rightarrow> Shared \<Rightarrow> world \<Rightarrow> pc \<times> Shared \<times> world" where
  "chargeCounter e route limit a S w =
     (let (ok, counts, w) = allow e limit (sh_counters S ! a) w
      in (if ok then Delivering route else Answered \<lparr>rsp_Code = 429, rsp_Body = ''Too Many Requests''\<rparr>,
          S\<lparr>sh_counters := (sh_counters S)[a := counts]\<rparr>, w))"

text \<open>What the sequential model of the server is to the shared memory.\<close>

definition server_of :: "Shared \<Rightarrow> Server" where
  "server_of S = \<lparr>srv_routes = sh_routes S, srv_rateData = map (\<lambda>(p, a). (p, sh_counters S ! a)) (sh_rateData S)\<rparr>"

section \<open>The interleaving\<close>

datatype event =
    Arrived Request
  | Looked nat
  | Fetched nat
  | Charged nat string nat int time bool
  | Replied nat Response "effect list"
  | Registered string RouteConfig
  | Deregistered string
  | Elsewhere

type_synonym conf = "Handler list \<times> Shared \<times> world"

text \<open>
  \<open>RegisterRoute\<close> reads the secret before it takes the lock, hence in any earlier world \<open>w0\<close>.  Requests
  of other components to the API server, and their readings of the clock, are steps \<open>Elsewhere\<close>.
\<close>

inductive srv_step :: "env \<Rightarrow> http_env \<Rightarrow> conf \<Rightarrow> event \<Rightarrow> conf \<Rightarrow> bool" for e h where
  arrive: "srv_step e h (hs, S, w) (Arrived rq) (hs @ [\<lparr>hd_Request = rq, hd_pc = Started\<rparr>], S, w)"
| look: "\<lbrakk>i < length hs; hs ! i = \<lparr>hd_Request = rq, hd_pc = Started\<rparr>\<rbrakk>
    \<Longrightarrow> srv_step e h (hs, S, w) (Looked i) (hs[i := \<lparr>hd_Request = rq, hd_pc = lookupRoute rq S\<rparr>], S, w)"
| fetch: "\<lbrakk>i < length hs; hs ! i = \<lparr>hd_Request = rq, hd_pc = Routed route wh\<rparr>; fetchCounter route wh S = (pc', S')\<rbrakk>
    \<Longrightarrow> srv_step e h (hs, S, w) (Fetched i) (hs[i := \<lparr>hd_Request = rq, hd_pc = pc'\<rparr>], S', w)"
| charge: "\<lbrakk>i < length hs; hs ! i = \<lparr>hd_Request = rq, hd_pc = Counting route wh limit a\<rparr>;
      chargeCounter e route limit a S w = (pc', S', w')\<rbrakk>
    \<Longrightarrow> srv_step e h (hs, S, w) (Charged i (wh_Path wh) a limit (e_clock e (w_reads w)) (pc' = Delivering route))
         (hs[i := \<lparr>hd_Request = rq, hd_pc = pc'\<rparr>], S', w')"
| reply: "\<lbrakk>i < length hs; hs ! i = \<lparr>hd_Request = rq, hd_pc = Delivering route\<rparr>; deliver e h route rq w = (resp, w')\<rbrakk>
    \<Longrightarrow> srv_step e h (hs, S, w) (Replied i resp (drop (length (w_log w)) (w_log w')))
         (hs[i := \<lparr>hd_Request = rq, hd_pc = Answered resp\<rparr>], S, w')"
| register: "\<lbrakk>webhookPath t = Some path; route_secret e t w0 = Some v\<rbrakk>
    \<Longrightarrow> srv_step e h (hs, S, w) (Registered path \<lparr>rc_Trigger = t, rc_SecretValue = v\<rparr>)
         (hs, S\<lparr>sh_routes := srv_routes (snd (RegisterRoute e t (server_of S) w0))\<rparr>, w)"
| deregister: "srv_step e h (hs, S, w) (Deregistered path)
     (hs, S\<lparr>sh_routes := AList.delete path (sh_routes S), sh_rateData := AList.delete path (sh_rateData S)\<rparr>, w)"
| elsewhere: "w_reads w \<le> w_reads w' \<Longrightarrow> srv_step e h (hs, S, w) Elsewhere (hs, S, w')"

inductive srv_run :: "env \<Rightarrow> http_env \<Rightarrow> event list \<Rightarrow> conf \<Rightarrow> bool" for e h where
  init: "srv_run e h [] ([], \<lparr>sh_routes = [], sh_rateData = [], sh_counters = []\<rparr>, w)"
| step: "\<lbrakk>srv_run e h tr c; srv_step e h c ev c'\<rbrakk> \<Longrightarrow> srv_run e h (tr @ [ev]) c'"

inductive_cases srv_stepE: "srv_step e h (hs, S, w) ev c'"

section \<open>A run\<close>

text \<open>
  Two requests for a route with a limit of one per minute: both handlers have found the route and
  fetched the counter before the first is charged.
\<close>

definition race_route :: RouteConfig where
  "race_route = \<lparr>rc_Trigger = hook_trigger, rc_SecretValue = []\<rparr>"

definition race_hook :: WebhookConfig where
  "race_hook = \<lparr>wh_Path = ''/push'', wh_SecretRef = None, wh_AllowedIPs = []\<rparr>"

definition race_trace :: "event list" where
  "race_trace = [Registered ''/push'' race_route, Arrived (hook_request []), Arrived (hook_request []), Looked 0, Looked 1,
     Fetched 0, Fetched 1, Charged 0 ''/push'' 0 1 0 True, Charged 1 ''/push'' 0 1 1 False]"

definition race_shared :: Shared where
  "race_shared = \<lparr>sh_routes = [(''/push'', race_route)], sh_rateData = [(''/push'', 0)], sh_counters = [[0]]\<rparr>"

lemma race_facts:
  "webhookPath hook_trigger = Some ''/push''" "route_secret hook_env hook_trigger w = Some []"
  "ets_Webhook (et_Spec (rc_Trigger race_route)) = Some race_hook"
  "ets_RateLimit (et_Spec (rc_Trigger race_route)) = Some \<lparr>rl_MaxPerMinute = 1, rl_MaxConcurrent = 0\<rparr>"
  "wh_Path race_hook = ''/push''" "wh_AllowedIPs race_hook = []" "rq_Path (hook_request []) = ''/push''"
  "e_clock hook_env n = int n"
  by (simp_all add: webhookPath_def route_secret_def secret_key_def hook_trigger_def race_route_def race_hook_def
      hook_request_def hook_env_def sample_env_def)

lemma race_register:
  "srv_routes (snd (RegisterRoute hook_env hook_trigger (server_of \<lparr>sh_routes = [], sh_rateData = [], sh_counters = []\<rparr>) w)) =
     [(''/push'', race_route)]"
  using RegisterRoute_spec(1) [OF race_facts(1), of hook_env _ w]
  by (simp add: race_facts(2) addRoute_def server_of_def race_route_def)

lemma race_run:
  "srv_run hook_env hook_http race_trace
     ([\<lparr>hd_Request = hook_request [], hd_pc = Delivering race_route\<rparr>,
       \<lparr>hd_Request = hook_request [], hd_pc = Answered \<lparr>rsp_Code = 429, rsp_Body = ''Too Many Requests''\<rparr>\<rparr>],
      race_shared, sample_world\<lparr>w_reads := 2\<rparr>)"
proof -
  let ?g = "\<lambda>pc. \<lparr>hd_Request = hook_request [], hd_pc = pc\<rparr>"
  let ?S0 = "\<lparr>sh_routes = [(''/push'', race_route)], sh_rateData = [], sh_counters = []\<rparr>"
  let ?S1 = "\<lparr>sh_routes = [(''/push'', race_route)], sh_rateData = [(''/push'', 0)], sh_counters = [[]]\<rparr>"
  let ?w = "sample_world\<lparr>w_reads := 0\<rparr>"
  have look: "lookupRoute (hook_request []) ?S0 = Routed race_route race_hook"
    by (simp add: lookupRoute_def race_facts checkIP_def)
  have f0: "fetchCounter race_route race_hook ?S0 = (Counting race_route race_hook 1 0, ?S1)"
    and f1: "fetchCounter race_route race_hook ?S1 = (Counting race_route race_hook 1 0, ?S1)"
    by (simp_all add: fetchCounter_def race_facts Let_def)
  have c0: "chargeCounter hook_env race_route 1 0 ?S1 ?w = (Delivering race_route, race_shared, sample_world\<lparr>w_reads := 1\<rparr>)"
    by (simp add: chargeCounter_def allow_def Now_def race_facts race_shared_def)
  have c1: "chargeCounter hook_env race_route 1 0 race_shared (sample_world\<lparr>w_reads := 1\<rparr>) =
      (Answered \<lparr>rsp_Code = 429, rsp_Body = ''Too Many Requests''\<rparr>, race_shared, sample_world\<lparr>w_reads := 2\<rparr>)"
    by (simp add: chargeCounter_def allow_def Now_def race_facts race_shared_def minute_def)
  have "srv_run hook_env hook_http [Registered ''/push'' race_route] ([], ?S0, ?w)"
    using srv_run.step [OF srv_run.init srv_step.register [OF race_facts(1,2)]] race_register
    by (simp add: race_route_def)
  from srv_run.step [OF srv_run.step [OF this srv_step.arrive] srv_step.arrive]
  have "srv_run hook_env hook_http [Registered ''/push'' race_route, Arrived (hook_request []), Arrived (hook_request [])]
      ([?g Started, ?g Started], ?S0, ?w)"
    by simp
  from srv_run.step [OF srv_run.step [OF this srv_step.look [of 0]] srv_step.look [of 1]]
  have "srv_run hook_env hook_http [Registered ''/push'' race_route, Arrived (hook_request []), Arrived (hook_request []), Looked 0, Looked 1]
      ([?g (Routed race_route race_hook), ?g (Routed race_route race_hook)], ?S0, ?w)"
    by (simp add: look)
  from srv_run.step [OF srv_run.step [OF this srv_step.fetch [of 0, OF _ _ f0]] srv_step.fetch [of 1, OF _ _ f1]]
  have "srv_run hook_env hook_http [Registered ''/push'' race_route, Arrived (hook_request []), Arrived (hook_request []), Looked 0, Looked 1,
      Fetched 0, Fetched 1] ([?g (Counting race_route race_hook 1 0), ?g (Counting race_route race_hook 1 0)], ?S1, ?w)"
    by simp
  from srv_run.step [OF srv_run.step [OF this srv_step.charge [of 0, OF _ _ c0]] srv_step.charge [of 1, OF _ _ c1]]
  show ?thesis by (simp add: race_trace_def race_facts)
qed

section \<open>Addresses\<close>

text \<open>
  Every counter belongs to one path for good: pointers are allocated fresh, and neither the map nor a
  handler nor the history ever has the same address for two paths.
\<close>

definition owned :: "(nat \<Rightarrow> string) \<Rightarrow> nat \<Rightarrow> string \<Rightarrow> nat \<Rightarrow> bool" where
  "owned own n p a \<longleftrightarrow> a < n \<and> own a = p"

definition counting_ok :: "(string \<Rightarrow> nat \<Rightarrow> bool) \<Rightarrow> Handler \<Rightarrow> bool" where
  "counting_ok P g \<longleftrightarrow> (case hd_pc g of Counting route wh limit a \<Rightarrow> limit > 0 \<and> P (wh_Path wh) a | _ \<Rightarrow> True)"

fun charge_of :: "event \<Rightarrow> (string \<times> nat \<times> int) list" where
  "charge_of (Charged i p a l t ok) = [(p, a, l)]"
| "charge_of _ = []"

definition charges :: "event list \<Rightarrow> (string \<times> nat \<times> int) list" where
  "charges tr = concat (map charge_of tr)"

definition addr_inv :: "(nat \<Rightarrow> string) \<Rightarrow> event list \<Rightarrow> Handler list \<Rightarrow> Shared \<Rightarrow> bool" where
  "addr_inv own tr hs S \<longleftrightarrow>
     distinct (map snd (sh_rateData S)) \<and>
     (\<forall>(p, a) \<in> set (sh_rateData S). owned own (length (sh_counters S)) p a) \<and>
     (\<forall>g \<in> set hs. counting_ok (owned own (length (sh_counters S))) g) \<and>
     (\<forall>(p, a, l) \<in> set (charges tr). owned own (length (sh_counters S)) p a)"

lemma charges_simps [simp]:
  "charges [] = []" "charges (tr @ [ev]) = charges tr @ charge_of ev"
  by (simp_all add: charges_def)

lemma set_charges: "(p, a, l) \<in> set (charges tr) \<longleftrightarrow> (\<exists>i t ok. Charged i p a l t ok \<in> set tr)"
proof (induction tr rule: rev_induct)
  case (snoc ev tr)
  then show ?case by (cases ev) auto
qed simp

lemma update_new: "map_of xs k = None \<Longrightarrow> AList.update k v xs = xs @ [(k, v)]"
  by (induction xs) (auto split: if_splits)

lemma owned_mono: "owned own n p a \<Longrightarrow> owned (own(n := q)) (Suc n) p a"
  by (auto simp: owned_def)

lemma counting_ok_mono: "counting_ok P g \<Longrightarrow> (\<And>p a. P p a \<Longrightarrow> Q p a) \<Longrightarrow> counting_ok Q g"
  by (auto simp: counting_ok_def split: pc.splits)

lemma set_list_update: "i < length xs \<Longrightarrow> y \<in> set (xs[i := x]) \<Longrightarrow> y = x \<or> y \<in> set xs"
  using set_update_subset_insert by fastforce

lemma set_AList_delete: "set (AList.delete k xs) \<subseteq> set xs" "distinct (map snd xs) \<Longrightarrow> distinct (map snd (AList.delete k xs))"
  by (auto simp: AList.delete_eq distinct_map_filter)

text \<open>The two transitions on counters, for one handler.\<close>

lemma fetchCounter_cases:
  assumes "fetchCounter route wh S = (pc', S')"
  obtains (unlimited) "pc' = Delivering route" "S' = S"
      "ets_RateLimit (et_Spec (rc_Trigger route)) = None \<or> (\<exists>rl. ets_RateLimit (et_Spec (rc_Trigger route)) = Some rl \<and> rl_MaxPerMinute rl \<le> 0)"
    | (known) rl a where "ets_RateLimit (et_Spec (rc_Trigger route)) = Some rl" "rl_MaxPerMinute rl > 0"
      "map_of (sh_rateData S) (wh_Path wh) = Some a" "pc' = Counting route wh (rl_MaxPerMinute rl) a" "S' = S"
    | (fresh) rl where "ets_RateLimit (et_Spec (rc_Trigger route)) = Some rl" "rl_MaxPerMinute rl > 0"
      "map_of (sh_rateData S) (wh_Path wh) = None" "pc' = Counting route wh (rl_MaxPerMinute rl) (length (sh_counters S))"
      "S' = S\<lparr>sh_rateData := sh_rateData S @ [(wh_Path wh, length (sh_counters S))], sh_counters := sh_counters S @ [[]]\<rparr>"
  using assms by (auto simp: fetchCounter_def update_new Let_def split: option.splits if_splits)

lemma chargeCounter_spec:
  assumes "chargeCounter e route limit a S w = (pc', S', w')"
  obtains counts where "S' = S\<lparr>sh_counters := (sh_counters S)[a := counts]\<rparr>"
    "pc' = Delivering route \<or> (\<exists>r. pc' = Answered r \<and> rsp_Code r = 429)"
    "rate_step e limit (adm, sh_counters S ! a) w =
       (if pc' = Delivering route then adm @ [e_clock e (w_reads w)] else adm, counts)"
    "w_reads w \<le> w_reads w'" "w_log w' = w_log w"
  using assms by (auto simp: chargeCounter_def rate_step_def allow_def Now_def Let_def split: if_splits)

lemma addr_inv_handler:
  assumes "addr_inv own tr hs S" "counting_ok (owned own (length (sh_counters S))) g" "i < length hs"
  shows "addr_inv own tr (hs[i := g]) S"
  using assms set_list_update [OF assms(3)] unfolding addr_inv_def by blast

lemma addr_inv_step:
  assumes inv: "addr_inv own tr hs S" and "srv_step e h (hs, S, w) ev (hs', S', w')"
  shows "\<exists>own. addr_inv own (tr @ [ev]) hs' S'"
  using assms(2)
proof (cases rule: srv_step.cases)
  case (arrive rq)
  then show ?thesis using inv by (auto simp: addr_inv_def counting_ok_def intro!: exI [of _ own])
next
  case (look i rq)
  have "counting_ok P \<lparr>hd_Request = rq, hd_pc = lookupRoute rq S\<rparr>" for P
    by (auto simp: counting_ok_def lookupRoute_def split: option.split)
  then have "addr_inv own tr hs' S" using look addr_inv_handler [OF inv] by simp
  then show ?thesis using look by (auto simp: addr_inv_def intro!: exI [of _ own])
next
  case (fetch i rq route wh pc')
  from \<open>fetchCounter route wh S = (pc', S')\<close> show ?thesis
  proof (cases rule: fetchCounter_cases)
    case unlimited
    then have "addr_inv own tr hs' S" using fetch addr_inv_handler [OF inv] by (simp add: counting_ok_def)
    then show ?thesis using fetch unlimited by (auto simp: addr_inv_def intro!: exI [of _ own])
  next
    case (known rl a)
    then have "owned own (length (sh_counters S)) (wh_Path wh) a" using inv map_of_SomeD unfolding addr_inv_def by fast
    then have "addr_inv own tr hs' S" using fetch known addr_inv_handler [OF inv] by (simp add: counting_ok_def)
    then show ?thesis using fetch known by (auto simp: addr_inv_def intro!: exI [of _ own])
  next
    case (fresh rl)
    let ?n = "length (sh_counters S)" and ?own = "own(length (sh_counters S) := wh_Path wh)"
    have mono: "owned own ?n p a \<Longrightarrow> owned ?own (Suc ?n) p a" for p a by (rule owned_mono)
    have "?n \<notin> snd ` set (sh_rateData S)" using inv by (fastforce simp: addr_inv_def owned_def)
    then have "distinct (map snd (sh_rateData S'))" using inv fresh by (simp add: addr_inv_def)
    moreover have "\<forall>(p, a) \<in> set (sh_rateData S'). owned ?own (length (sh_counters S')) p a"
      using inv fresh mono unfolding addr_inv_def by (auto simp: owned_def)
    moreover have "counting_ok (owned ?own (length (sh_counters S'))) g" if "g \<in> set hs'" for g
    proof -
      have "g = \<lparr>hd_Request = rq, hd_pc = pc'\<rparr> \<or> g \<in> set hs" using that fetch set_list_update by metis
      then show ?thesis
      proof
        assume "g = \<lparr>hd_Request = rq, hd_pc = pc'\<rparr>"
        then show ?thesis using fresh by (simp add: counting_ok_def owned_def)
      next
        assume "g \<in> set hs"
        then have "counting_ok (owned own ?n) g" using inv by (simp add: addr_inv_def)
        then have "counting_ok (owned ?own (Suc ?n)) g" using mono by (rule counting_ok_mono)
        then show ?thesis using fresh by simp
      qed
    qed
    moreover have "\<forall>(p, a, l) \<in> set (charges (tr @ [ev])). owned ?own (length (sh_counters S')) p a"
      using inv fresh fetch mono unfolding addr_inv_def by auto
    ultimately have "addr_inv ?own (tr @ [ev]) hs' S'" unfolding addr_inv_def by blast
    then show ?thesis by blast
  qed
next
  case (charge i rq route wh limit a pc')
  from \<open>chargeCounter e route limit a S w = (pc', S', w')\<close> obtain counts where
    c: "S' = S\<lparr>sh_counters := (sh_counters S)[a := counts]\<rparr>" "pc' = Delivering route \<or> (\<exists>r. pc' = Answered r \<and> rsp_Code r = 429)"
    by (rule chargeCounter_spec)
  have "hs ! i \<in> set hs" using charge(3) by (rule nth_mem)
  then have "owned own (length (sh_counters S)) (wh_Path wh) a"
    using inv charge unfolding addr_inv_def by (fastforce simp: counting_ok_def)
  moreover have "addr_inv own tr hs' S" using charge c addr_inv_handler [OF inv] by (auto simp: counting_ok_def)
  ultimately show ?thesis using charge c by (auto simp: addr_inv_def intro!: exI [of _ own])
next
  case (reply i rq route resp)
  then have "addr_inv own tr hs' S" using addr_inv_handler [OF inv] by (simp add: counting_ok_def)
  then show ?thesis using reply by (auto simp: addr_inv_def intro!: exI [of _ own])
next
  case (register t path w0 v)
  then show ?thesis using inv by (auto simp: addr_inv_def intro!: exI [of _ own])
next
  case (deregister path)
  then show ?thesis using inv set_AList_delete [where xs = "sh_rateData S" and k = path]
    by (auto simp: addr_inv_def intro!: exI [of _ own])
next
  case elsewhere
  then show ?thesis using inv by (auto simp: addr_inv_def intro!: exI [of _ own])
qed

lemma srv_run_induct [consumes 1, case_names init step]:
  assumes "srv_run e h tr (hs, S, w)"
    and "\<And>w. P [] [] \<lparr>sh_routes = [], sh_rateData = [], sh_counters = []\<rparr> w"
    and "\<And>tr hs S w ev hs' S' w'. \<lbrakk>srv_run e h tr (hs, S, w); P tr hs S w; srv_step e h (hs, S, w) ev (hs', S', w')\<rbrakk>
      \<Longrightarrow> P (tr @ [ev]) hs' S' w'"
  shows "P tr hs S w"
  using assms(1)
proof (induction tr "(hs, S, w)" arbitrary: hs S w rule: srv_run.induct)
  case (init w)
  show ?case by (rule assms(2))
next
  case (step tr c ev)
  obtain hs1 S1 w1 where c: "c = (hs1, S1, w1)" by (cases c)
  then have "P tr hs1 S1 w1" using step by blast
  then show ?case using assms(3) step c by blast
qed

lemma addr_inv_run: "srv_run e h tr (hs, S, w) \<Longrightarrow> \<exists>own. addr_inv own tr hs S"
proof (induction rule: srv_run_induct)
  case (init w)
  show ?case by (simp add: addr_inv_def)
next
  case (step tr hs S w ev hs' S' w')
  then show ?case using addr_inv_step by blast
qed

section \<open>The rate limit under every interleaving\<close>

text \<open>As long as a path is not deregistered, its pointer is never replaced.\<close>

definition same_counter :: "string \<Rightarrow> event list \<Rightarrow> Handler list \<Rightarrow> Shared \<Rightarrow> bool" where
  "same_counter p tr hs S \<longleftrightarrow>
     (\<forall>g \<in> set hs. counting_ok (\<lambda>q a. q = p \<longrightarrow> map_of (sh_rateData S) p = Some a) g) \<and>
     (\<forall>(q, a, l) \<in> set (charges tr). q = p \<longrightarrow> map_of (sh_rateData S) p = Some a)"

lemma same_counter_handler:
  assumes "same_counter p tr hs S" "counting_ok (\<lambda>q a. q = p \<longrightarrow> map_of (sh_rateData S) p = Some a) g" "i < length hs"
  shows "same_counter p tr (hs[i := g]) S"
  using assms set_list_update [OF assms(3)] unfolding same_counter_def by blast

lemma same_counter_grows:
  assumes "same_counter p tr hs S" "\<And>a. map_of (sh_rateData S) p = Some a \<Longrightarrow> map_of (sh_rateData S') p = Some a"
  shows "same_counter p tr hs S'"
  using assms counting_ok_mono unfolding same_counter_def by fastforce

lemma same_counter_event:
  "same_counter p tr hs S \<Longrightarrow> charge_of ev = [] \<Longrightarrow> same_counter p (tr @ [ev]) hs S"
  by (simp add: same_counter_def)

lemma map_of_append_keep: "map_of xs k = Some v \<Longrightarrow> map_of (xs @ ys) k = Some v"
  by (simp add: map_add_Some_iff)

lemma same_counter_step:
  assumes inv: "same_counter p tr hs S" and "srv_step e h (hs, S, w) ev (hs', S', w')" "ev \<noteq> Deregistered p"
  shows "same_counter p (tr @ [ev]) hs' S'"
  using assms(2)
proof (cases rule: srv_step.cases)
  case (arrive rq)
  then show ?thesis using inv by (auto simp: same_counter_def counting_ok_def)
next
  case (look i rq)
  have "counting_ok P \<lparr>hd_Request = rq, hd_pc = lookupRoute rq S\<rparr>" for P
    by (auto simp: counting_ok_def lookupRoute_def split: option.split)
  then show ?thesis using look same_counter_handler [OF inv] by (auto intro!: same_counter_event)
next
  case (fetch i rq route wh pc')
  have old: "same_counter p tr hs S'"
    using \<open>fetchCounter route wh S = (pc', S')\<close>
    by (cases rule: fetchCounter_cases) (simp_all add: inv map_of_append_keep same_counter_grows [OF inv])
  have new: "counting_ok (\<lambda>q a. q = p \<longrightarrow> map_of (sh_rateData S') p = Some a) \<lparr>hd_Request = rq, hd_pc = pc'\<rparr>"
    using \<open>fetchCounter route wh S = (pc', S')\<close> by (cases rule: fetchCounter_cases) (auto simp: counting_ok_def map_add_def)
  then show ?thesis using fetch same_counter_handler [OF old new] by (auto intro!: same_counter_event)
next
  case (charge i rq route wh limit a pc')
  from \<open>chargeCounter e route limit a S w = (pc', S', w')\<close> obtain counts where
    c: "S' = S\<lparr>sh_counters := (sh_counters S)[a := counts]\<rparr>" "pc' = Delivering route \<or> (\<exists>r. pc' = Answered r \<and> rsp_Code r = 429)"
    by (rule chargeCounter_spec)
  have "hs ! i \<in> set hs" using charge(3) by (rule nth_mem)
  then have "wh_Path wh = p \<longrightarrow> map_of (sh_rateData S) p = Some a"
    using inv charge unfolding same_counter_def by (fastforce simp: counting_ok_def)
  moreover have "same_counter p tr hs' S" using charge c same_counter_handler [OF inv] by (auto simp: counting_ok_def)
  ultimately show ?thesis using charge c by (auto simp: same_counter_def)
next
  case (reply i rq route resp)
  then have "same_counter p tr hs' S" using same_counter_handler [OF inv] by (simp add: counting_ok_def)
  then show ?thesis using reply by (auto intro!: same_counter_event)
next
  case (register t path w0 v)
  then show ?thesis using same_counter_grows [OF inv] by (auto intro!: same_counter_event)
next
  case (deregister path)
  then have "map_of (sh_rateData S') p = map_of (sh_rateData S) p" using assms(3) by (simp add: delete_conv')
  then show ?thesis using deregister same_counter_grows [OF inv] by (auto intro!: same_counter_event)
next
  case elsewhere
  then show ?thesis using inv by (auto intro!: same_counter_event)
qed

lemma same_counter_run: "srv_run e h tr (hs, S, w) \<Longrightarrow> Deregistered p \<notin> set tr \<Longrightarrow> same_counter p tr hs S"
proof (induction rule: srv_run_induct)
  case (init w)
  show ?case by (simp add: same_counter_def)
next
  case (step tr hs S w ev hs' S' w')
  then show ?case using same_counter_step by auto
qed

text \<open>The instants at which requests were admitted, for an address and for a path.\<close>

fun admit_of :: "(string \<Rightarrow> nat \<Rightarrow> bool) \<Rightarrow> event \<Rightarrow> time list" where
  "admit_of P (Charged i p a l t ok) = (if P p a \<and> ok then [t] else [])"
| "admit_of P _ = []"

definition admitted_at :: "nat \<Rightarrow> event list \<Rightarrow> time list" where
  "admitted_at a tr = concat (map (admit_of (\<lambda>_ b. b = a)) tr)"

definition admitted :: "string \<Rightarrow> event list \<Rightarrow> time list" where
  "admitted p tr = concat (map (admit_of (\<lambda>q _. q = p)) tr)"

lemma admitted_simps [simp]:
  "admitted_at a [] = []" "admitted_at a (tr @ [ev]) = admitted_at a tr @ admit_of (\<lambda>_ b. b = a) ev"
  by (simp_all add: admitted_at_def)

lemma admitted_at_none: "(\<And>p l. (p, a, l) \<notin> set (charges tr)) \<Longrightarrow> admitted_at a tr = []"
proof (induction tr rule: rev_induct)
  case (snoc ev tr)
  then show ?case by (cases ev) auto
qed simp

lemma admitted_eq_at:
  "(\<And>q b l. (q, b, l) \<in> set (charges tr) \<Longrightarrow> q = p \<longleftrightarrow> b = a) \<Longrightarrow> admitted p tr = admitted_at a tr"
proof (induction tr rule: rev_induct)
  case Nil
  show ?case by (simp add: admitted_def)
next
  case (snoc ev tr)
  have "admitted p tr = admitted_at a tr"
  proof (rule snoc.IH)
    fix q b l
    assume "(q, b, l) \<in> set (charges tr)"
    then show "q = p \<longleftrightarrow> b = a" using snoc.prems [of q b l] by simp
  qed
  moreover have "admit_of (\<lambda>q _. q = p) ev = admit_of (\<lambda>_ b. b = a) ev" using snoc.prems by (cases ev) auto
  ultimately show ?case by (simp add: admitted_def)
qed

definition count_ok :: "env \<Rightarrow> world \<Rightarrow> event list \<Rightarrow> Shared \<Rightarrow> nat \<Rightarrow> bool" where
  "count_ok e w tr S a \<longleftrightarrow>
     (\<exists>now \<le> instant e w. \<forall>L > 0. (\<forall>(p, b, l) \<in> set (charges tr). b = a \<longrightarrow> l \<le> L) \<longrightarrow>
        rate_inv L now (admitted_at a tr, sh_counters S ! a))"

lemma count_ok_keep:
  assumes "count_ok e w tr S a" "instant e w \<le> instant e w'" "sh_counters S' ! a = sh_counters S ! a"
    and "\<And>p l. (p, a, l) \<notin> set (charge_of ev)"
  shows "count_ok e w' (tr @ [ev]) S' a"
proof -
  obtain now where now: "now \<le> instant e w" "\<forall>L > 0. (\<forall>(p, b, l) \<in> set (charges tr). b = a \<longrightarrow> l \<le> L) \<longrightarrow>
      rate_inv L now (admitted_at a tr, sh_counters S ! a)"
    using assms(1) unfolding count_ok_def by blast
  moreover have "admitted_at a (tr @ [ev]) = admitted_at a tr" using assms(4) by (cases ev) auto
  moreover have "set (charges tr) \<subseteq> set (charges (tr @ [ev]))" by simp
  ultimately show ?thesis using assms(2,3) unfolding count_ok_def by (intro exI [of _ now]) auto
qed

lemma count_ok_fresh:
  assumes "\<And>p l. (p, a, l) \<notin> set (charges tr)" "sh_counters S ! a = []"
  shows "count_ok e w tr S a"
  using assms by (auto simp: count_ok_def admitted_at_none rate_inv_def in_window_def intro!: exI [of _ "instant e w"])

lemma count_ok_charge:
  assumes "count_ok e w tr S a" "0 < l" "a < length (sh_counters S)" "instant e w \<le> instant e w'"
    and "rate_step e l (admitted_at a tr, sh_counters S ! a) w = (if ok then admitted_at a tr @ [instant e w] else admitted_at a tr, counts)"
  shows "count_ok e w' (tr @ [Charged i p a l (instant e w) ok]) (S\<lparr>sh_counters := (sh_counters S)[a := counts]\<rparr>) a"
proof -
  obtain now where now: "now \<le> instant e w" "\<forall>L > 0. (\<forall>(p, b, l) \<in> set (charges tr). b = a \<longrightarrow> l \<le> L) \<longrightarrow>
      rate_inv L now (admitted_at a tr, sh_counters S ! a)"
    using assms(1) unfolding count_ok_def by blast
  have "rate_inv L (instant e w) (rate_step e l (admitted_at a tr, sh_counters S ! a) w)"
    if "L > 0" "\<forall>(p, b, l) \<in> set (charges tr). b = a \<longrightarrow> l \<le> L" "l \<le> L" for L
    using that now rate_step_inv(1) [OF assms(2), of L now] by blast
  then show ?thesis
    using assms(3,4,5) unfolding count_ok_def by (intro exI [of _ "instant e w"]) (auto split: if_splits)
qed

lemma deliver_reads: "deliver e h route rq w = (resp, w') \<Longrightarrow> w_reads w' = w_reads w"
  by (auto simp: deliver_def createWorkflow_def do_request_defs Let_def split: option.splits sum.splits if_splits prod.splits)

lemma count_ok_step:
  assumes "mono (e_clock e)" "srv_step e h (hs, S, w) ev (hs', S', w')" "addr_inv own tr hs S"
    and all: "\<forall>a < length (sh_counters S). count_ok e w tr S a" and "a < length (sh_counters S')"
  shows "count_ok e w' (tr @ [ev]) S' a"
  using assms(2)
proof (cases rule: srv_step.cases)
  case (fetch i rq route wh pc')
  from \<open>fetchCounter route wh S = (pc', S')\<close> show ?thesis
  proof (cases rule: fetchCounter_cases)
    case (fresh rl)
    show ?thesis
    proof (cases "a < length (sh_counters S)")
      case True
      then show ?thesis using fetch fresh all count_ok_keep [where S = S and tr = tr and w = w] by (simp add: nth_append)
    next
      case False
      then have "a = length (sh_counters S)" using assms(5) fresh by simp
      moreover have "(p, length (sh_counters S), l) \<notin> set (charges tr)" for p l
        using assms(3) by (fastforce simp: addr_inv_def owned_def)
      ultimately show ?thesis using fetch fresh by (auto intro!: count_ok_fresh)
    qed
  qed (use fetch all assms(5) count_ok_keep [where S = S and tr = tr and w = w] in simp_all)
next
  case (charge i rq route wh limit b pc')
  from \<open>chargeCounter e route limit b S w = (pc', S', w')\<close> obtain counts where
    c: "S' = S\<lparr>sh_counters := (sh_counters S)[b := counts]\<rparr>"
      "rate_step e limit (admitted_at b tr, sh_counters S ! b) w =
         (if pc' = Delivering route then admitted_at b tr @ [e_clock e (w_reads w)] else admitted_at b tr, counts)"
      "w_reads w \<le> w_reads w'"
    by (rule chargeCounter_spec)
  have later: "instant e w \<le> instant e w'" using assms(1) c(3) by (rule monoD)
  have "hs ! i \<in> set hs" using charge(3) by (rule nth_mem)
  then have b: "b < length (sh_counters S)" "0 < limit"
    using assms(3) charge(4) by (fastforce simp: addr_inv_def counting_ok_def owned_def)+
  show ?thesis
  proof (cases "a = b")
    case True
    then show ?thesis using count_ok_charge [OF _ b(2,1) later c(2)] all b charge c by simp
  next
    case False
    then show ?thesis using all later charge c assms(5) count_ok_keep [where S = S and tr = tr and w = w and a = a] by simp
  qed
next
  case (reply i rq route resp)
  then show ?thesis using all assms(5) deliver_reads count_ok_keep [where S = S and tr = tr and w = w] by simp
next
  case elsewhere
  then have "instant e w \<le> instant e w'" using assms(1) by (simp add: monoD)
  then show ?thesis using elsewhere all assms(5) count_ok_keep [where S = S and tr = tr and w = w] by simp
qed (use all assms(5) count_ok_keep [where S = S and tr = tr and w = w] in simp_all)

lemma count_ok_run:
  assumes "srv_run e h tr (hs, S, w)" "mono (e_clock e)"
  shows "\<forall>a < length (sh_counters S). count_ok e w tr S a"
  using assms(1)
proof (induction rule: srv_run_induct)
  case (init w)
  show ?case by simp
next
  case (step tr hs S w ev hs' S' w')
  then show ?case using addr_inv_run count_ok_step [OF assms(2)] by blast
qed

text \<open>
  C8. The rate limit holds under every interleaving of any number of concurrent requests with
  registrations of routes: as long as the path is not deregistered and no version of its route
  allows more than \<open>limit\<close> requests per minute, no period of one minute, wherever it starts, contains
  more than \<open>limit\<close> admitted requests for the path.
\<close>

theorem concurrent_rate_limit:
  assumes "srv_run e h tr (hs, S, w)" "mono (e_clock e)" "Deregistered p \<notin> set tr" "0 < limit"
    and "\<forall>i a l t ok. Charged i p a l t ok \<in> set tr \<longrightarrow> l \<le> limit"
  shows "int (length (filter (\<lambda>x. t - minute < x \<and> x \<le> t) (admitted p tr))) \<le> limit"
proof -
  obtain own where own: "addr_inv own tr hs S" using addr_inv_run [OF assms(1)] by blast
  have same: "same_counter p tr hs S" using same_counter_run [OF assms(1,3)] .
  have limits: "l \<le> limit" if "(p, a, l) \<in> set (charges tr)" for a l
    using that assms(5) set_charges by blast
  show ?thesis
  proof (cases "\<exists>a l. (p, a, l) \<in> set (charges tr)")
    case True
    then obtain a l0 where a: "(p, a, l0) \<in> set (charges tr)" by blast
    have iff: "q = p \<longleftrightarrow> b = a" if "(q, b, l) \<in> set (charges tr)" for q b l
    proof
      assume "q = p"
      then have "map_of (sh_rateData S) p = Some b" "map_of (sh_rateData S) p = Some a"
        using same a that unfolding same_counter_def by blast+
      then show "b = a" by simp
    next
      assume "b = a"
      moreover have "own b = q" "own a = p" using own a that unfolding addr_inv_def owned_def by blast+
      ultimately show "q = p" by simp
    qed
    have "count_ok e w tr S a" using own a count_ok_run [OF assms(1,2)] by (fastforce simp: addr_inv_def owned_def)
    moreover have "\<forall>(q, b, l) \<in> set (charges tr). b = a \<longrightarrow> l \<le> limit" using iff limits by fast
    ultimately obtain now where "rate_inv limit now (admitted_at a tr, sh_counters S ! a)"
      using assms(4) unfolding count_ok_def by blast
    moreover have "admitted p tr = admitted_at a tr" using iff by (rule admitted_eq_at)
    ultimately show ?thesis by (simp add: rate_inv_def in_window_def)
  next
    case False
    have "admitted p tr = admitted_at (length (sh_counters S)) tr"
      using False own by (intro admitted_eq_at) (fastforce simp: addr_inv_def owned_def)
    moreover have "admitted_at (length (sh_counters S)) tr = []"
      using own by (intro admitted_at_none) (fastforce simp: addr_inv_def owned_def)
    ultimately show ?thesis using assms(4) by simp
  qed
qed

theorem concurrent_rate_limit_witness:
  "admitted ''/push'' race_trace = [0] \<and>
   int (length (filter (\<lambda>x. 1 - minute < x \<and> x \<le> 1) (admitted ''/push'' race_trace))) \<le> 1"
proof -
  have "mono (e_clock hook_env)" by (simp add: mono_def race_facts(8))
  moreover have "Deregistered ''/push'' \<notin> set race_trace" by (simp add: race_trace_def)
  moreover have "\<forall>i a l t ok. Charged i ''/push'' a l t ok \<in> set race_trace \<longrightarrow> l \<le> 1" by (simp add: race_trace_def)
  ultimately have "int (length (filter (\<lambda>x. 1 - minute < x \<and> x \<le> 1) (admitted ''/push'' race_trace))) \<le> 1"
    by (intro concurrent_rate_limit [OF race_run]) simp_all
  then show ?thesis by (simp add: race_trace_def admitted_def)
qed

section \<open>The gates under every interleaving\<close>

text \<open>The route of a path according to the history, and the requests that arrived.\<close>

fun route_ops :: "event \<Rightarrow> RouteConfig route_op list" where
  "route_ops (Registered p r) = [Add p r]"
| "route_ops (Deregistered p) = [Remove p]"
| "route_ops _ = []"

definition registered_at :: "event list \<Rightarrow> string \<Rightarrow> RouteConfig option" where
  "registered_at tr p = Option.bind (find (\<lambda>x. op_path x = p) (rev (concat (map route_ops tr)))) op_result"

fun arrival_of :: "event \<Rightarrow> Request list" where
  "arrival_of (Arrived rq) = [rq]"
| "arrival_of _ = []"

definition arrivals :: "event list \<Rightarrow> Request list" where
  "arrivals tr = concat (map arrival_of tr)"

text \<open>The handler \<open>i\<close> found the route when it looked, and was charged for it if there is a limit.\<close>

definition entered :: "event list \<Rightarrow> nat \<Rightarrow> Request \<Rightarrow> RouteConfig \<Rightarrow> WebhookConfig \<Rightarrow> bool" where
  "entered tr i rq route wh \<longleftrightarrow>
     (\<exists>before after. tr = before @ Looked i # after \<and> registered_at before (rq_Path rq) = Some route) \<and>
     ets_Webhook (et_Spec (rc_Trigger route)) = Some wh \<and> checkIP (wh_AllowedIPs wh) (rq_RemoteAddr rq) = None"

definition rated :: "event list \<Rightarrow> nat \<Rightarrow> RouteConfig \<Rightarrow> WebhookConfig \<Rightarrow> bool" where
  "rated tr i route wh \<longleftrightarrow>
     (case ets_RateLimit (et_Spec (rc_Trigger route)) of
        None \<Rightarrow> True
      | Some rl \<Rightarrow> rl_MaxPerMinute rl \<le> 0 \<or> (\<exists>a t. Charged i (wh_Path wh) a (rl_MaxPerMinute rl) t True \<in> set tr))"

definition pc_ok :: "event list \<Rightarrow> nat \<Rightarrow> Handler \<Rightarrow> bool" where
  "pc_ok tr i g \<longleftrightarrow>
     (case hd_pc g of
        Started \<Rightarrow> True
      | Routed route wh \<Rightarrow> entered tr i (hd_Request g) route wh
      | Counting route wh limit a \<Rightarrow> entered tr i (hd_Request g) route wh \<and>
          map_option rl_MaxPerMinute (ets_RateLimit (et_Spec (rc_Trigger route))) = Some limit
      | Delivering route \<Rightarrow> (\<exists>wh. entered tr i (hd_Request g) route wh \<and> rated tr i route wh)
      | Answered resp \<Rightarrow> True)"

definition delivered :: "env \<Rightarrow> http_env \<Rightarrow> event list \<Rightarrow> nat \<Rightarrow> effect list \<Rightarrow> bool" where
  "delivered e h tr i effects \<longleftrightarrow> i < length (arrivals tr) \<and>
     (\<exists>route wh body payload params template W w1.
        entered tr i (arrivals tr ! i) route wh \<and> rated tr i route wh \<and> readBody (arrivals tr ! i) = Some body \<and>
        checkSignature (rc_SecretValue route) body (rq_Header (arrivals tr ! i)) \<and> h_Unmarshal h body = Some payload \<and>
        extractParams h (ets_Parameters (et_Spec (rc_Trigger route))) payload [] = Inr params \<and>
        e_GetWorkflow e w1 (template_ref (rc_Trigger route)) = Inr template \<and> effects = [Create (OWorkflow W)] \<and>
        wf_Spec W = injectParams h params (wf_Spec template) \<and> wf_Namespace W = om_Namespace (et_Meta (rc_Trigger route)))"

definition gate_inv :: "env \<Rightarrow> http_env \<Rightarrow> event list \<Rightarrow> Handler list \<Rightarrow> Shared \<Rightarrow> bool" where
  "gate_inv e h tr hs S \<longleftrightarrow>
     map_of (sh_routes S) = registered_at tr \<and> map hd_Request hs = arrivals tr \<and>
     (\<forall>i < length hs. pc_ok tr i (hs ! i)) \<and>
     (\<forall>i resp effects. Replied i resp effects \<in> set tr \<longrightarrow> rsp_Code resp = 202 \<or> effects \<noteq> [] \<longrightarrow> delivered e h tr i effects)"

lemma history_simps [simp]:
  "registered_at [] p = None"
  "registered_at (tr @ [ev]) p =
     (case find (\<lambda>x. op_path x = p) (route_ops ev) of None \<Rightarrow> registered_at tr p | Some x \<Rightarrow> op_result x)"
  "arrivals [] = []" "arrivals (tr @ [ev]) = arrivals tr @ arrival_of ev"
  by (cases ev; simp add: registered_at_def arrivals_def)+

lemma registered_at_quiet: "route_ops ev = [] \<Longrightarrow> registered_at (tr @ [ev]) = registered_at tr"
  by (simp add: fun_eq_iff)

lemma entered_mono: "entered tr i rq route wh \<Longrightarrow> entered (tr @ [ev]) i rq route wh"
  unfolding entered_def by (metis append.assoc append_Cons)

lemma rated_mono: "rated tr i route wh \<Longrightarrow> rated (tr @ [ev]) i route wh"
  by (auto simp: rated_def split: option.splits)

lemma pc_ok_mono: "pc_ok tr i g \<Longrightarrow> pc_ok (tr @ [ev]) i g"
  using entered_mono rated_mono by (cases "hd_pc g") (simp_all add: pc_ok_def, blast)

lemma delivered_mono: "delivered e h tr i effects \<Longrightarrow> delivered e h (tr @ [ev]) i effects"
  using entered_mono rated_mono by (auto simp: delivered_def nth_append) blast

lemma gate_inv_handler:
  assumes "gate_inv e h tr hs S" "map_of (sh_routes S') = registered_at (tr @ [ev])" "arrival_of ev = []"
    and "i < length hs" "hd_Request g = hd_Request (hs ! i)" "pc_ok (tr @ [ev]) i g"
    and "\<And>j resp effects. ev = Replied j resp effects \<Longrightarrow> rsp_Code resp = 202 \<or> effects \<noteq> [] \<Longrightarrow> delivered e h (tr @ [ev]) j effects"
  shows "gate_inv e h (tr @ [ev]) (hs[i := g]) S'"
proof -
  have "map hd_Request (hs[i := g]) = arrivals (tr @ [ev])"
    using assms(1,3,4,5) by (simp add: gate_inv_def map_update) (metis length_map list_update_id nth_map)
  moreover have "\<forall>j < length (hs[i := g]). pc_ok (tr @ [ev]) j (hs[i := g] ! j)"
    using assms(1,4,6) pc_ok_mono by (auto simp: gate_inv_def nth_list_update)
  moreover have "delivered e h (tr @ [ev]) j effects" if "Replied j resp effects \<in> set (tr @ [ev])" "rsp_Code resp = 202 \<or> effects \<noteq> []"
    for j resp effects
    using that assms(1,7) delivered_mono unfolding gate_inv_def by auto
  ultimately show ?thesis using assms(2) unfolding gate_inv_def by blast
qed

lemma gate_inv_other:
  assumes "gate_inv e h tr hs S" "map_of (sh_routes S') = registered_at (tr @ [ev])"
    and "map hd_Request hs' = arrivals (tr @ [ev])" "\<And>i. i < length hs' \<Longrightarrow> hs' ! i \<noteq> hs ! i \<or> i \<ge> length hs \<Longrightarrow> hd_pc (hs' ! i) = Started"
    and "\<And>j resp effects. ev \<noteq> Replied j resp effects"
  shows "gate_inv e h (tr @ [ev]) hs' S'"
proof -
  have "pc_ok (tr @ [ev]) i (hs' ! i)" if "i < length hs'" for i
    using assms(1) assms(4) [OF that] pc_ok_mono unfolding gate_inv_def
    by (cases "hs' ! i = hs ! i \<and> i < length hs") (auto simp: pc_ok_def)
  moreover have "delivered e h (tr @ [ev]) j effects" if "Replied j resp effects \<in> set (tr @ [ev])" "rsp_Code resp = 202 \<or> effects \<noteq> []"
    for j resp effects
    using that assms(1,5) delivered_mono unfolding gate_inv_def by fastforce
  ultimately show ?thesis using assms(2,3) unfolding gate_inv_def by blast
qed

lemma reply_delivered:
  assumes "gate_inv e h tr hs S" "i < length hs" "hs ! i = \<lparr>hd_Request = rq, hd_pc = Delivering route\<rparr>"
    and "deliver e h route rq w = (resp, w')" "sets_owner (e_SetControllerReference e)"
    and "rsp_Code resp = 202 \<or> drop (length (w_log w)) (w_log w') \<noteq> []"
  shows "delivered e h tr i (drop (length (w_log w)) (w_log w'))"
proof -
  have pc: "pc_ok tr i (hs ! i)" and req: "map hd_Request hs = arrivals tr" using assms(1,2) by (auto simp: gate_inv_def)
  obtain wh where wh: "entered tr i rq route wh" "rated tr i route wh" using pc assms(3) by (auto simp: pc_ok_def)
  have i: "i < length (arrivals tr)" "arrivals tr ! i = rq"
    using assms(2,3) unfolding req [symmetric] by simp_all
  have "rsp_Code resp = 202 \<or> w_log w' \<noteq> w_log w" using assms(6) by auto
  from deliver_gates [OF assms(4) this assms(5)] obtain body payload params template W where d: "readBody rq = Some body"
    "checkSignature (rc_SecretValue route) body (rq_Header rq)" "h_Unmarshal h body = Some payload"
    "extractParams h (ets_Parameters (et_Spec (rc_Trigger route))) payload [] = Inr params"
    "e_GetWorkflow e w (template_ref (rc_Trigger route)) = Inr template"
    "w_log w' = w_log w @ [Create (OWorkflow W)]" "wf_Spec W = injectParams h params (wf_Spec template)"
    "wf_Namespace W = om_Namespace (et_Meta (rc_Trigger route))"
    by metis
  then have "drop (length (w_log w)) (w_log w') = [Create (OWorkflow W)]" by simp
  with wh i d show ?thesis unfolding delivered_def by blast
qed

lemma gate_inv_step:
  assumes inv: "gate_inv e h tr hs S" and "sets_owner (e_SetControllerReference e)"
    and "srv_step e h (hs, S, w) ev (hs', S', w')"
  shows "gate_inv e h (tr @ [ev]) hs' S'"
proof -
  have routes: "map_of (sh_routes S) = registered_at tr" and reqs: "map hd_Request hs = arrivals tr"
    and pcs: "\<forall>i < length hs. pc_ok tr i (hs ! i)"
    using inv by (simp_all add: gate_inv_def)
  show ?thesis using assms(3)
  proof (cases rule: srv_step.cases)
    case (arrive rq)
    then show ?thesis by (intro gate_inv_other [OF inv]) (auto simp: routes reqs registered_at_quiet nth_append)
  next
    case (look i rq)
    have "entered (tr @ [Looked i]) i rq route wh" if "lookupRoute rq S = Routed route wh" for route wh
    proof -
      have "map_of (sh_routes S) (rq_Path rq) = Some route" "ets_Webhook (et_Spec (rc_Trigger route)) = Some wh"
        "checkIP (wh_AllowedIPs wh) (rq_RemoteAddr rq) = None"
        using that by (auto simp: lookupRoute_def split: option.splits)
      then show ?thesis using inv unfolding entered_def gate_inv_def by (metis append_Nil2 append.right_neutral)
    qed
    then have "pc_ok (tr @ [Looked i]) i \<lparr>hd_Request = rq, hd_pc = lookupRoute rq S\<rparr>"
      by (auto simp: pc_ok_def lookupRoute_def split: option.split)
    then show ?thesis using look by (simp only:) (intro gate_inv_handler [OF inv]; simp add: routes registered_at_quiet)
  next
    case (fetch i rq route wh pc')
    have "pc_ok tr i (hs ! i)" using pcs \<open>i < length hs\<close> by blast
    then have old: "entered (tr @ [ev]) i rq route wh" using fetch by (auto simp: pc_ok_def intro: entered_mono)
    have "pc_ok (tr @ [ev]) i \<lparr>hd_Request = rq, hd_pc = pc'\<rparr>" and "sh_routes S' = sh_routes S"
      using \<open>fetchCounter route wh S = (pc', S')\<close> old by (cases rule: fetchCounter_cases; fastforce simp: pc_ok_def rated_def)+
    then show ?thesis using fetch by (simp only:) (intro gate_inv_handler [OF inv]; simp add: routes registered_at_quiet)
  next
    case (charge i rq route wh limit a pc')
    from \<open>chargeCounter e route limit a S w = (pc', S', w')\<close> obtain counts where
      c: "S' = S\<lparr>sh_counters := (sh_counters S)[a := counts]\<rparr>" "pc' = Delivering route \<or> (\<exists>r. pc' = Answered r \<and> rsp_Code r = 429)"
      by (rule chargeCounter_spec)
    have "pc_ok tr i (hs ! i)" using pcs \<open>i < length hs\<close> by blast
    then have old: "entered (tr @ [ev]) i rq route wh" "map_option rl_MaxPerMinute (ets_RateLimit (et_Spec (rc_Trigger route))) = Some limit"
      using charge by (auto simp: pc_ok_def intro: entered_mono)
    have "rated (tr @ [ev]) i route wh" if "pc' = Delivering route" using that charge(1) old(2) by (fastforce simp: rated_def)
    then have "pc_ok (tr @ [ev]) i \<lparr>hd_Request = rq, hd_pc = pc'\<rparr>" using old(1) c(2) by (auto simp: pc_ok_def)
    then show ?thesis using charge c(1) by (simp only:) (intro gate_inv_handler [OF inv]; simp add: routes registered_at_quiet)
  next
    case (reply i rq route resp)
    have "pc_ok (tr @ [ev]) i \<lparr>hd_Request = rq, hd_pc = Answered resp\<rparr>" by (simp add: pc_ok_def)
    moreover have "delivered e h (tr @ [ev]) j effects"
      if "ev = Replied j r effects" "rsp_Code r = 202 \<or> effects \<noteq> []" for j r effects
      using that reply reply_delivered [OF inv _ _ _ assms(2)] delivered_mono by blast
    ultimately show ?thesis using reply by (simp only:) (intro gate_inv_handler [OF inv]; simp add: routes registered_at_quiet)
  next
    case (register t path w0 v)
    then have "map_of (sh_routes S') = registered_at (tr @ [ev])"
      using inv RegisterRoute_spec(1) [of t path e "server_of S" w0] by (auto simp: gate_inv_def addRoute_def server_of_def fun_eq_iff)
    then show ?thesis using register by (intro gate_inv_other [OF inv]) (simp_all add: reqs)
  next
    case (deregister path)
    then show ?thesis by (intro gate_inv_other [OF inv]) (auto simp: routes reqs delete_conv' fun_eq_iff)
  next
    case elsewhere
    then show ?thesis by (intro gate_inv_other [OF inv]) (simp_all add: routes reqs registered_at_quiet)
  qed
qed

text \<open>
  C7. The checks hold under every interleaving: whenever a goroutine answers 202 or sends anything to
  the API server, the history contains its lookup at a moment when its path was registered, the
  route it found there admits the address and, if it has a limit, the goroutine was charged and
  admitted under that limit; its body is signed with the secret of that route, unless that route has
  no secret, and has all required parameters; and it sent exactly one request, the creation of that
  trigger's Workflow.
\<close>

theorem concurrent_gates:
  assumes "srv_run e h tr (hs, S, w)" "sets_owner (e_SetControllerReference e)"
    and "Replied i resp effects \<in> set tr" "rsp_Code resp = 202 \<or> effects \<noteq> []"
  shows "\<exists>before after rq route wh body payload params template W w1.
    tr = before @ Looked i # after \<and> i < length (arrivals tr) \<and> arrivals tr ! i = rq \<and> registered_at before (rq_Path rq) = Some route \<and>
    ets_Webhook (et_Spec (rc_Trigger route)) = Some wh \<and> checkIP (wh_AllowedIPs wh) (rq_RemoteAddr rq) = None \<and>
    (\<forall>rl. ets_RateLimit (et_Spec (rc_Trigger route)) = Some rl \<and> rl_MaxPerMinute rl > 0 \<longrightarrow>
       (\<exists>a t. Charged i (wh_Path wh) a (rl_MaxPerMinute rl) t True \<in> set tr)) \<and>
    readBody rq = Some body \<and> (rc_SecretValue route = [] \<or> signed (rc_SecretValue route) body (rq_Header rq)) \<and> h_Unmarshal h body = Some payload \<and>
    extractParams h (ets_Parameters (et_Spec (rc_Trigger route))) payload [] = Inr params \<and>
    e_GetWorkflow e w1 (template_ref (rc_Trigger route)) = Inr template \<and> effects = [Create (OWorkflow W)] \<and>
    wf_Spec W = injectParams h params (wf_Spec template) \<and> wf_Namespace W = om_Namespace (et_Meta (rc_Trigger route))"
proof -
  from assms(1) have "gate_inv e h tr hs S"
  proof (induction rule: srv_run_induct)
    case (init w)
    show ?case by (simp add: gate_inv_def fun_eq_iff)
  next
    case (step tr hs S w ev hs' S' w')
    then show ?case using gate_inv_step [OF _ assms(2)] by blast
  qed
  with assms(3,4) have d: "delivered e h tr i effects" unfolding gate_inv_def by blast
  from d obtain route wh body payload params template W w1 where f: "i < length (arrivals tr)"
    "entered tr i (arrivals tr ! i) route wh" "rated tr i route wh" "readBody (arrivals tr ! i) = Some body"
    "checkSignature (rc_SecretValue route) body (rq_Header (arrivals tr ! i))" "h_Unmarshal h body = Some payload"
    "extractParams h (ets_Parameters (et_Spec (rc_Trigger route))) payload [] = Inr params"
    "e_GetWorkflow e w1 (template_ref (rc_Trigger route)) = Inr template" "effects = [Create (OWorkflow W)]"
    "wf_Spec W = injectParams h params (wf_Spec template)" "wf_Namespace W = om_Namespace (et_Meta (rc_Trigger route))"
    unfolding delivered_def by metis
  obtain before after where t: "tr = before @ Looked i # after" "registered_at before (rq_Path (arrivals tr ! i)) = Some route"
    "ets_Webhook (et_Spec (rc_Trigger route)) = Some wh" "checkIP (wh_AllowedIPs wh) (rq_RemoteAddr (arrivals tr ! i)) = None"
    using f(2) unfolding entered_def by metis
  have r: "\<forall>rl. ets_RateLimit (et_Spec (rc_Trigger route)) = Some rl \<and> rl_MaxPerMinute rl > 0 \<longrightarrow>
       (\<exists>a t. Charged i (wh_Path wh) a (rl_MaxPerMinute rl) t True \<in> set tr)"
    using f(3) by (auto simp: rated_def)
  have sig: "rc_SecretValue route = [] \<or> signed (rc_SecretValue route) body (rq_Header (arrivals tr ! i))"
    using f(5) by (simp add: checkSignature_iff)
  show ?thesis by (intro exI conjI) (rule t(1), rule f(1), rule refl, rule t, rule t, rule t, rule r, rule f(4), rule sig, (rule f)+)
qed

theorem concurrent_gates_witness:
  "\<exists>tr resp W. Replied 0 resp [Create (OWorkflow W)] \<in> set tr \<and> rsp_Code resp = 202 \<and> wf_Namespace W = ''ci'' \<and>
     registered_at (take 3 tr) ''/push'' = Some race_route"
proof -
  obtain resp w' where d: "deliver hook_env hook_http race_route (hook_request []) (sample_world\<lparr>w_reads := 2\<rparr>) = (resp, w')"
    by (cases "deliver hook_env hook_http race_route (hook_request []) (sample_world\<lparr>w_reads := 2\<rparr>)")
  define eff where "eff = drop (length (w_log (sample_world\<lparr>w_reads := 2\<rparr>))) (w_log w')"
  let ?tr = "race_trace @ [Replied 0 resp eff]"
  obtain hs where run: "srv_run hook_env hook_http ?tr (hs, race_shared, w')"
    using srv_run.step [OF race_run srv_step.reply [of 0, OF _ _ d]] by (auto simp: eff_def)
  have ok: "rsp_Code resp = 202"
    using d by (simp add: deliver_def race_route_def hook_body checkSignature_def hook_http_def hook_trigger_def createWorkflow_def
        hook_env_def sample_env_def do_request_defs Let_def split_beta) auto
  have "sets_owner (e_SetControllerReference hook_env)" using sample_env_ok by (simp add: hook_env_def)
  moreover have "Replied 0 resp eff \<in> set ?tr" by simp
  ultimately obtain before after route W where g: "?tr = before @ Looked 0 # after"
      "registered_at before (rq_Path (arrivals ?tr ! 0)) = Some route" "eff = [Create (OWorkflow W)]"
      "wf_Namespace W = om_Namespace (et_Meta (rc_Trigger route))"
    using concurrent_gates [OF run _ _ disjI1 [OF ok]] by blast
  have path: "rq_Path (arrivals ?tr ! 0) = ''/push''" by (simp add: race_trace_def arrivals_def race_facts)
  have "before = take 3 ?tr"
    using g(1) by (auto simp: race_trace_def Cons_eq_append_conv)
  moreover have "registered_at (take 3 ?tr) ''/push'' = Some race_route"
    by (simp add: race_trace_def registered_at_def)
  ultimately have "route = race_route" using g(2) path by simp
  then have "wf_Namespace W = ''ci''" using g(4) by (simp add: race_route_def hook_trigger_def)
  with ok g(3) \<open>registered_at (take 3 ?tr) ''/push'' = Some race_route\<close> show ?thesis
    by (intro exI [of _ ?tr] exI [of _ resp] exI [of _ W]) simp
qed

section \<open>A request on its own\<close>

lemma counters_update:
  assumes "map_of rate p = Some a" "distinct (map snd rate)" "\<forall>(q, b) \<in> set rate. b < length cs"
  shows "map (\<lambda>(p, b). (p, cs[a := c] ! b)) rate = AList.update p c (map (\<lambda>(p, b). (p, cs ! b)) rate)"
  using assms
proof (induction rate)
  case (Cons x rate)
  obtain q b where x: "x = (q, b)" by (cases x)
  show ?case
  proof (cases "q = p")
    case True
    then have "b = a" "a \<notin> snd ` set rate" using Cons x by (auto simp del: image_iff)
    then have "map (\<lambda>(p, b). (p, cs[a := c] ! b)) rate = map (\<lambda>(p, b). (p, cs ! b)) rate"
      by (intro map_cong refl) (auto simp: nth_list_update image_iff)
    then show ?thesis using True x \<open>b = a\<close> Cons(4) by simp
  next
    case False
    then have "map_of rate p = Some a" using Cons(2) x by simp
    moreover from map_of_SomeD [OF this] have "b \<noteq> a" using Cons(3) x by force
    ultimately show ?thesis using False x Cons by simp
  qed
qed simp

lemma server_of_known:
  assumes "map_of (sh_rateData S) p = Some a" "addr_inv own tr hs S"
  shows "server_of (S\<lparr>sh_counters := (sh_counters S)[a := c]\<rparr>) =
      (server_of S)\<lparr>srv_rateData := AList.update p c (srv_rateData (server_of S))\<rparr>"
    and "mget [] (srv_rateData (server_of S)) p = sh_counters S ! a"
proof -
  have "\<forall>(q, b) \<in> set (sh_rateData S). b < length (sh_counters S)" "distinct (map snd (sh_rateData S))"
    using assms(2) by (auto simp: addr_inv_def owned_def)
  then show "server_of (S\<lparr>sh_counters := (sh_counters S)[a := c]\<rparr>) =
      (server_of S)\<lparr>srv_rateData := AList.update p c (srv_rateData (server_of S))\<rparr>"
    using counters_update [OF assms(1)] by (simp add: server_of_def)
  have "map_of (map (\<lambda>(p, b). (p, f b)) xs) p = map_option f (map_of xs p)" for f :: "nat \<Rightarrow> time list" and xs
    by (induction xs) auto
  then show "mget [] (srv_rateData (server_of S)) p = sh_counters S ! a"
    using assms(1) by (simp add: server_of_def mget_def)
qed

lemma server_of_fresh:
  assumes "map_of (sh_rateData S) p = None" "addr_inv own tr hs S"
  defines "S' \<equiv> S\<lparr>sh_rateData := sh_rateData S @ [(p, length (sh_counters S))], sh_counters := sh_counters S @ [[]]\<rparr>"
  shows "server_of S' = (server_of S)\<lparr>srv_rateData := AList.update p [] (srv_rateData (server_of S))\<rparr>"
    and "mget [] (srv_rateData (server_of S)) p = []"
proof -
  have "\<forall>(q, b) \<in> set (sh_rateData S). b < length (sh_counters S)"
    using assms(2) by (auto simp: addr_inv_def owned_def)
  then have same: "map (\<lambda>(p, b). (p, (sh_counters S @ [[]]) ! b)) (sh_rateData S) = map (\<lambda>(p, b). (p, sh_counters S ! b)) (sh_rateData S)"
    by (auto simp: nth_append)
  have none: "map_of (map (\<lambda>(p, b). (p, f b)) xs) p = map_option f (map_of xs p)" for f :: "nat \<Rightarrow> time list" and xs
    by (induction xs) auto
  show "server_of S' = (server_of S)\<lparr>srv_rateData := AList.update p [] (srv_rateData (server_of S))\<rparr>"
    using assms(1) same none by (simp add: server_of_def S'_def update_new)
  show "mget [] (srv_rateData (server_of S)) p = []" using assms(1) none by (simp add: server_of_def mget_def)
qed

lemma charge_is_checkRate:
  assumes "fetchCounter route wh S = (Counting route wh l a, S1)" "chargeCounter e route l a S1 w = (pc', S2, w1)"
    and "addr_inv own tr hs S" "addr_inv own1 tr1 hs1 S1"
  shows "checkRate e (rc_Trigger route) (wh_Path wh) (server_of S) w = (pc' = Delivering route, server_of S2, w1)"
proof -
  obtain ok counts where al: "allow e l (sh_counters S1 ! a) w = (ok, counts, w1)"
      "pc' = (if ok then Delivering route else Answered \<lparr>rsp_Code = 429, rsp_Body = ''Too Many Requests''\<rparr>)"
      "S2 = S1\<lparr>sh_counters := (sh_counters S1)[a := counts]\<rparr>"
    using assms(2) by (auto simp: chargeCounter_def Let_def split: prod.splits)
  from assms(1) show ?thesis
  proof (cases rule: fetchCounter_cases)
    case (known rl b)
    then show ?thesis using al server_of_known [OF known(3) assms(3)] by (simp add: checkRate_def Let_def)
  next
    case (fresh rl)
    have a: "a = length (sh_counters S)" "l = rl_MaxPerMinute rl" using fresh(4) by simp_all
    have "map_of (sh_rateData S1) (wh_Path wh) = Some a" using fresh a by (simp add: map_add_def)
    from server_of_known [OF this assms(4)] have "sh_counters S1 ! a = []"
        "server_of S2 = (server_of S)\<lparr>srv_rateData := AList.update (wh_Path wh) counts (srv_rateData (server_of S))\<rparr>"
      using fresh(5) a al(3) server_of_fresh [OF fresh(3) assms(3)] by simp_all
    then show ?thesis using al fresh a server_of_fresh(2) [OF fresh(3) assms(3)] by (simp add: checkRate_def Let_def)
  qed simp
qed

text \<open>The last handler runs through the rate limit as \<open>checkRate\<close> does in one step.\<close>

lemma last_handler:
  "length hs < length (hs @ [g])" "(hs @ [g]) ! length hs = g" "(hs @ [g])[length hs := g'] = hs @ [g']"
  by simp_all

lemma rate_uninterrupted:
  assumes "srv_run e h tr (hs @ [\<lparr>hd_Request = rq, hd_pc = Routed route wh\<rparr>], S, w)"
  obtains evs pc' S' w' where "srv_run e h (tr @ evs) (hs @ [\<lparr>hd_Request = rq, hd_pc = pc'\<rparr>], S', w')"
    "checkRate e (rc_Trigger route) (wh_Path wh) (server_of S) w = (pc' = Delivering route, server_of S', w')"
    "pc' = Delivering route \<or> pc' = Answered \<lparr>rsp_Code = 429, rsp_Body = ''Too Many Requests''\<rparr>"
proof -
  note finish = that
  obtain pc1 S1 where f: "fetchCounter route wh S = (pc1, S1)" by (cases "fetchCounter route wh S")
  from srv_run.step [OF assms srv_step.fetch [OF last_handler(1,2) f]]
  have fetch: "srv_run e h (tr @ [Fetched (length hs)]) (hs @ [\<lparr>hd_Request = rq, hd_pc = pc1\<rparr>], S1, w)"
    by (simp add: last_handler(3))
  have charged: thesis if pc1: "pc1 = Counting route wh l a" for l a
  proof -
    obtain pc2 S2 w2 where c: "chargeCounter e route l a S1 w = (pc2, S2, w2)" by (metis prod_cases3)
    from srv_run.step [OF fetch [unfolded pc1] srv_step.charge [OF last_handler(1,2) c]]
    obtain evs where run: "srv_run e h (tr @ evs) (hs @ [\<lparr>hd_Request = rq, hd_pc = pc2\<rparr>], S2, w2)"
      by (auto simp: last_handler(3))
    from addr_inv_run [OF assms] addr_inv_run [OF fetch]
    have "checkRate e (rc_Trigger route) (wh_Path wh) (server_of S) w = (pc2 = Delivering route, server_of S2, w2)"
      using charge_is_checkRate [OF f [unfolded pc1] c] by blast
    moreover have "pc2 = Delivering route \<or> pc2 = Answered \<lparr>rsp_Code = 429, rsp_Body = ''Too Many Requests''\<rparr>"
      using c by (auto simp: chargeCounter_def Let_def split: prod.splits if_splits)
    ultimately show thesis using finish run by blast
  qed
  from f show thesis
  proof (cases rule: fetchCounter_cases)
    case unlimited
    then have "checkRate e (rc_Trigger route) (wh_Path wh) (server_of S) w = (True, server_of S, w)"
      by (auto simp: checkRate_def)
    then show thesis using finish [OF fetch] unlimited by simp
  qed (use charged in blast)+
qed

text \<open>
  The one-step model of a request is a run of the concurrent server: from every state the server can
  reach there is a continuation in which a new request ends with the response, the routes, the
  counters and the log of \<open>handleRequest\<close>.
\<close>

lemma undisturbed_request:
  assumes "srv_run e h tr (hs, S, w)" "handleRequest e h rq (server_of S) w = (resp, srv', w')"
  shows "\<exists>evs S'. srv_run e h (tr @ evs) (hs @ [\<lparr>hd_Request = rq, hd_pc = Answered resp\<rparr>], S', w') \<and> server_of S' = srv'"
proof -
  have "srv_run e h (tr @ [Arrived rq]) (hs @ [\<lparr>hd_Request = rq, hd_pc = Started\<rparr>], S, w)"
    by (rule srv_run.step [OF assms(1) srv_step.arrive])
  from srv_run.step [OF this srv_step.look [OF last_handler(1,2)]]
  have look: "srv_run e h (tr @ [Arrived rq, Looked (length hs)]) (hs @ [\<lparr>hd_Request = rq, hd_pc = lookupRoute rq S\<rparr>], S, w)"
    by (simp add: last_handler(3))
  show ?thesis
  proof (cases "lookupRoute rq S")
    case (Answered r)
    then have "r = resp \<and> server_of S = srv' \<and> w' = w"
      using assms(2) by (auto simp: handleRequest_def lookupRoute_def server_of_def split: option.splits)
    then show ?thesis using look Answered by auto
  next
    case (Routed route wh)
    then have route: "handleRequest e h rq (server_of S) w =
        (let (ok, srv, w) = checkRate e (rc_Trigger route) (wh_Path wh) (server_of S) w
         in if \<not> ok then (\<lparr>rsp_Code = 429, rsp_Body = ''Too Many Requests''\<rparr>, srv, w)
            else let (resp, w) = deliver e h route rq w in (resp, srv, w))"
      by (auto simp: handleRequest_def lookupRoute_def server_of_def split: option.splits)
    obtain evs pc' S' w1 where r: "srv_run e h ((tr @ [Arrived rq, Looked (length hs)]) @ evs) (hs @ [\<lparr>hd_Request = rq, hd_pc = pc'\<rparr>], S', w1)"
        "checkRate e (rc_Trigger route) (wh_Path wh) (server_of S) w = (pc' = Delivering route, server_of S', w1)"
        "pc' = Delivering route \<or> pc' = Answered \<lparr>rsp_Code = 429, rsp_Body = ''Too Many Requests''\<rparr>"
      using rate_uninterrupted [OF look [unfolded Routed]] by metis
    show ?thesis
    proof (cases "pc' = Delivering route")
      case True
      then have d: "deliver e h route rq w1 = (resp, w')" "server_of S' = srv'"
        using assms(2) unfolding route r(2) by (auto simp: Let_def split: prod.splits)
      from srv_run.step [OF r(1) [unfolded True] srv_step.reply [OF last_handler(1,2) d(1)]] d(2)
      show ?thesis by (auto simp: last_handler(3))
    next
      case False
      then have "pc' = Answered resp" "server_of S' = srv'" "w' = w1"
        using assms(2) r(3) unfolding route r(2) by (auto simp: Let_def)
      then show ?thesis using r(1) by auto
    qed
  qed (auto simp: lookupRoute_def split: option.splits)
qed

lemma undisturbed_request_example:
  "\<exists>tr hs S w. srv_run hook_env hook_http tr (hs @ [\<lparr>hd_Request = hook_request [], hd_pc = Answered \<lparr>rsp_Code = 429, rsp_Body = ''Too Many Requests''\<rparr>\<rparr>], S, w) \<and>
     srv_rateData (server_of S) = [(''/push'', [0])]"
proof -
  have "handleRequest hook_env hook_http (hook_request []) (server_of race_shared) (sample_world\<lparr>w_reads := 2\<rparr>) =
      (\<lparr>rsp_Code = 429, rsp_Body = ''Too Many Requests''\<rparr>, server_of race_shared, sample_world\<lparr>w_reads := 3\<rparr>)"
    by (simp add: handleRequest_def server_of_def race_shared_def race_facts checkIP_def checkRate_def allow_def Now_def mget_def minute_def)
  from undisturbed_request [OF race_run this] obtain evs S' where
    "srv_run hook_env hook_http (race_trace @ evs) (([\<lparr>hd_Request = hook_request [], hd_pc = Delivering race_route\<rparr>,
       \<lparr>hd_Request = hook_request [], hd_pc = Answered \<lparr>rsp_Code = 429, rsp_Body = ''Too Many Requests''\<rparr>\<rparr>]) @
       [\<lparr>hd_Request = hook_request [], hd_pc = Answered \<lparr>rsp_Code = 429, rsp_Body = ''Too Many Requests''\<rparr>\<rparr>], S', sample_world\<lparr>w_reads := 3\<rparr>)"
    "server_of S' = server_of race_shared"
    by blast
  moreover have "srv_rateData (server_of race_shared) = [(''/push'', [0])]" by (simp add: server_of_def race_shared_def)
  ultimately show ?thesis by metis
qed

end
