(* ===== verification/Effects.thy ===== *)
theory Effects
  imports Job_Properties Runner_Properties
begin

text \<open>
  What a pass may send and report, as interfaces: a predicate on effects that holds of the events,
  requests and metric updates of a controller holds of the whole log of each of its passes.  Each
  controller has its own locale; a property of its log is an interpretation.
\<close>

definition all_effects :: "(effect \<Rightarrow> bool) \<Rightarrow> world \<Rightarrow> bool" where
  "all_effects ok w \<longleftrightarrow> list_all ok (w_log w)"

lemma all_effects_emit: "all_effects ok (emit x w) \<longleftrightarrow> all_effects ok w \<and> ok x"
  by (simp add: all_effects_def)

lemma all_effects_empty [simp]: "all_effects ok (w\<lparr>w_log := []\<rparr>)"
  by (simp add: all_effects_def)

locale log_contract =
  fixes ok :: "effect \<Rightarrow> bool"
  assumes ok_event: "ok (Event t reason m)"
begin

lemma all_effects_silent: "w_log w' = w_log w @ evs \<Longrightarrow> silent evs \<Longrightarrow> all_effects ok w \<Longrightarrow> all_effects ok w'"
proof -
  have "silent evs \<Longrightarrow> list_all ok evs" for evs
    by (induction evs) (auto simp: silent_def ok_event split: effect.splits)
  then show "w_log w' = w_log w @ evs \<Longrightarrow> silent evs \<Longrightarrow> all_effects ok w \<Longrightarrow> all_effects ok w'" by (simp add: all_effects_def)
qed

end

section \<open>The Runner controller\<close>

locale runner_effects = log_contract +
  assumes ok_job: "ok (Create (OJob j))" "ok (Delete (OJob j))"
    and ok_runner_patch: "ok (PatchStatus (ORunner a) (ORunner b))"
    and ok_completed: "p \<in> {''succeeded'', ''failed'', ''unknown''} \<Longrightarrow> ok (CounterInc ''runner_job_completed_total'' [ns, p])"
    and ok_active: "isNonTerminalPhase q \<Longrightarrow> ok (GaugeInc ''runner_active_count'' [ns, RunnerPhase_text q])"
      "isNonTerminalPhase q \<Longrightarrow> ok (GaugeDec ''runner_active_count'' [ns, RunnerPhase_text q])"
    and ok_runner_duration: "ok (Observe ''runner_duration_seconds'' [ns] d)"
begin

lemma ok_Pending: "ok (GaugeInc ''runner_active_count'' [ns, ''Pending''])"
  using ok_active(1) [of RunnerPhasePending] by (simp add: isNonTerminalPhase_def)

lemmas runner_simps = all_effects_def ok_event ok_job ok_runner_patch ok_completed ok_runner_duration ok_Pending

lemma Reconcile_Runner_keeps: "all_effects ok w \<Longrightarrow> all_effects ok (snd (Reconcile_Runner e req w))"
proof -
  assume w: "all_effects ok w"
  have dur: "all_effects ok v \<Longrightarrow> all_effects ok (observeDuration r v)" for r v
    by (auto simp: observeDuration_def runner_simps split: option.split)
  have rep: "all_effects ok v \<Longrightarrow> all_effects ok (snd (reportPhase e p r v))" for p r v
    by (cases p) (auto simp: reportPhase_def Let_def split_beta runner_simps intro!: dur [unfolded all_effects_def])
  have gauge: "all_effects ok v \<Longrightarrow> all_effects ok (moveGauge r p q v)" for r p q v
    by (auto simp: moveGauge_def activeGauge_def Let_def all_effects_emit ok_active)
  have upd: "all_effects ok v \<Longrightarrow> all_effects ok (snd (updateStatusFromJob e r job v))" for r job v
    using rep gauge
    by (auto simp: updateStatusFromJob_def patchRunner_def do_request_defs Let_def split_beta all_effects_emit ok_runner_patch ok_event)
  have "all_effects ok v \<Longrightarrow> all_effects ok (snd (handleDrift e h job r v))" for h job r v
    by (auto simp: handleDrift_def deferDrift_def clearDrift_def replaceJob_def do_request_defs Let_def split_beta runner_simps
        split: option.split sum.split)
  moreover have "all_effects ok v \<Longrightarrow> all_effects ok (snd (startRunner e h n r v))" for h n r v
    by (auto simp: startRunner_def do_request_defs Let_def split_beta runner_simps split: option.split sum.split apierr.split)
  moreover have "all_effects ok v \<Longrightarrow> all_effects ok (snd (rejectRunner e h n r v))" for h n r v
    by (auto simp: rejectRunner_def do_request_defs Let_def split_beta runner_simps split: sum.split)
  ultimately show ?thesis
    using w upd by (auto simp: Reconcile_Runner_def Let_def all_effects_emit ok_active activeGauge_def
        split: sum.split option.split apierr.split)
qed

end

section \<open>The Workflow controller\<close>

locale workflow_effects = log_contract +
  assumes ok_runner: "ok (Create (ORunner r))" "ok (Delete (ORunner r))"
    and ok_workflow_patch: "ok (PatchStatus (OWorkflow A) (OWorkflow B))"
    and ok_workflow_duration: "ok (Observe ''workflow_duration_seconds'' [ns] d)"
    and ok_transition: "ok (CounterInc ''workflow_phase_transitions_total'' [ns, WorkflowPhase_text wp])"
    and ok_retry: "ok (CounterInc ''step_retries_total'' [ns])"
begin

lemmas workflow_simps = all_effects_def ok_event ok_runner ok_workflow_patch ok_workflow_duration ok_transition ok_retry

lemma startStep_keeps:
  assumes "\<And>W step w. \<exists>evs. w_log (snd (build W step w)) = w_log w @ evs \<and> silent evs" "all_effects ok (lp_world l)"
  shows "all_effects ok (lp_world (startStep e build job step l))"
proof -
  have "all_effects ok (snd (build (lp_wf l) step (lp_world l)))" using assms all_effects_silent by metis
  then show ?thesis by (auto simp: startStep_def do_request_defs Let_def split_beta workflow_simps split: sum.split)
qed

lemma trackStep_keeps: "all_effects ok (lp_world l) \<Longrightarrow> all_effects ok (lp_world (trackStep e job step st r l))"
  by (auto simp: trackStep_def retryStep_def recordStep_def do_request_defs Let_def split_beta workflow_simps split: option.split)

lemma reconcileStepLoop_keeps:
  assumes "\<And>W step w. \<exists>evs. w_log (snd (build W step w)) = w_log w @ evs \<and> silent evs" "all_effects ok w"
  shows "all_effects ok (snd (snd (reconcileStepLoop e steps runners build job W w)))"
proof -
  have step: "all_effects ok (lp_world (reconcileStep e build job rm step l))" if "all_effects ok (lp_world l)" for rm step l
    using that startStep_keeps [OF assms(1)] trackStep_keeps
    by (auto simp: reconcileStep_def Let_def split: stepDecision.split option.split)
  have "all_effects ok (lp_world (loop_from e build job rm l steps))" if "all_effects ok (lp_world l)" for rm l
    by (induction steps rule: rev_induct) (simp_all add: that step)
  then show ?thesis using assms(2) by (simp add: reconcileStepLoop_eq Let_def)
qed

lemma reconcileJobs_keeps: "all_effects ok w \<Longrightarrow> all_effects ok (snd (snd (reconcileJobs e rs u W w)))"
proof -
  have run: "all_effects ok v \<Longrightarrow> all_effects ok (snd (snd (runJob e i rs js W v)))" for i js W v
    using reconcileStepLoop_keeps [OF job_steps.build_log]
    by (auto simp: runJob_def reconcileJobSteps_def Let_def split_beta all_effects_def)
  have job: "all_effects ok v \<Longrightarrow> all_effects ok (snd (snd (reconcileJob e i rs m W v)))" for i m W v
    using run by (auto simp: reconcileJob_def Let_def split_beta all_effects_def split: jobDecision.split)
  have "all_effects ok w \<Longrightarrow> all_effects ok (snd (snd (foldl (\<lambda>(updated, W, w) i.
      let (jobUpdated, W, w) = reconcileJob e i rs m W w in (updated \<or> jobUpdated, W, w)) (u, W, w) is)))" for m "is"
    by (induction "is" rule: rev_induct) (simp_all add: split_beta Let_def job)
  then show "all_effects ok w \<Longrightarrow> all_effects ok (snd (snd (reconcileJobs e rs u W w)))" by (simp add: reconcileJobs_def Let_def)
qed

lemma finishWorkflow_keeps: "all_effects ok w \<Longrightarrow> all_effects ok (snd (finishWorkflow e m base ph u W w))"
proof -
  have a: "all_effects ok v \<Longrightarrow> all_effects ok (snd (snd (changePhase e m ph u W v)))" for v
    by (auto simp: changePhase_def Let_def split_beta workflow_simps simp del: WorkflowPhase_text.simps split: WorkflowPhase.split)
  have b: "all_effects ok v \<Longrightarrow> all_effects ok (snd (snd (completeWorkflow e u W v)))" for u W v
    by (auto simp: completeWorkflow_def Let_def split_beta workflow_simps split: option.split)
  assume "all_effects ok w"
  from b [OF a [OF this]] show ?thesis
    by (auto simp: finishWorkflow_def do_request_defs Let_def split_beta workflow_simps split: sum.split)
qed

lemma startWorkflow_keeps: "all_effects ok (snd (snd (startWorkflow e W w))) \<longleftrightarrow> all_effects ok w"
  by (simp add: startWorkflow_def all_effects_def split_beta)

lemma reportNotReady_keeps: "all_effects ok w \<Longrightarrow> all_effects ok (snd (reportNotReady e reason msg res W w))"
  by (simp add: reportNotReady_log workflow_simps)

lemma guardWorkflow_keeps:
  assumes "\<And>v. all_effects ok v \<Longrightarrow> all_effects ok (snd (handleTimeout W v))" "\<And>rs v. all_effects ok v \<Longrightarrow> all_effects ok (snd (proceed rs W v))" "all_effects ok w"
  shows "all_effects ok (snd (guardWorkflow e handleTimeout proceed W w))"
proof -
  have "all_effects ok (snd (timeoutElapsed e W w))" using assms(3) by (simp add: timeoutElapsed_def all_effects_def split_beta split: option.split)
  then show ?thesis using assms(1,2) reportNotReady_keeps by (auto simp: guardWorkflow_def split_beta split: sum.split)
qed

lemma failTimedOut_keeps: "all_effects ok w \<Longrightarrow> all_effects ok (snd (failTimedOut e base W w))"
  using failTimedOut_log [of e base W w] by (auto simp: workflow_simps)

lemma Reconcile_Workflow_keeps: "all_effects ok w \<Longrightarrow> all_effects ok (snd (Reconcile_Workflow e req w))"
proof -
  assume w: "all_effects ok w"
  have event: "all_effects ok v \<Longrightarrow> all_effects ok (emit (Event a b c) v)" for v a b c by (simp add: workflow_simps)
  have runF: "all_effects ok v \<Longrightarrow> all_effects ok (snd (runFlatWorkflow e rs W v))" for rs W v
    using reconcileStepLoop_keeps [OF flat_steps.build_log] startWorkflow_keeps [of e W v]
    by (simp add: runFlatWorkflow_eq reconcileSteps_def Let_def finishWorkflow_keeps)
  have runJ: "all_effects ok v \<Longrightarrow> all_effects ok (snd (runJobWorkflow e rs W v))" for rs W v
    using startWorkflow_keeps [of e W v] by (simp add: runJobWorkflow_def Let_def split_beta reconcileJobs_keeps finishWorkflow_keeps)
  have timeF: "all_effects ok (snd (handleTimeoutFlat e W v))" if "all_effects ok v" for W v
  proof -
    let ?f = "fail_steps e (map st_Name (wsp_Steps (wf_Spec W))) W (emit (Event ''Warning'' ''TimedOut'' ''Workflow timed out'') v)"
    have "all_effects ok (snd ?f)" using that by (simp add: workflow_simps step_table.upsert_all_log)
    from failTimedOut_keeps [OF this] show ?thesis by (simp add: handleTimeoutFlat_def Let_def split_beta)
  qed
  have timeJ: "all_effects ok (snd (handleTimeoutJobs e W v))" if "all_effects ok v" for W v
  proof -
    let ?f = "fail_jobs e (wsp_Jobs (wf_Spec W)) (W, emit (Event ''Warning'' ''TimedOut'' ''Workflow timed out'') v)"
    have "all_effects ok (snd ?f)" using that by (simp add: workflow_simps fail_jobs_log)
    from failTimedOut_keeps [OF this] show ?thesis by (simp add: handleTimeoutJobs_def fail_jobs_def Let_def split_beta)
  qed
  show ?thesis using w
    by (auto simp: Reconcile_Workflow_def reconcileFlatWorkflow_def reconcileJobWorkflow_def Let_def
        intro!: reportNotReady_keeps event guardWorkflow_keeps runF runJ timeF timeJ split: sum.split)
qed

end

end
