(* ===== verification/Metrics.thy ===== *)
theory Metrics
  imports Effects
begin

text \<open>
  \<open>internal/controller/metrics.go\<close>: the metric vectors the controllers declare and register, and
  what the updates in their passes have to do with the declarations.  \<open>WithLabelValues\<close> of the
  Prometheus client panics when the number of values is not the number of declared labels, and
  every new combination of values is a new series.
\<close>

section \<open>The declared vectors\<close>

datatype metric_kind = CounterVec | GaugeVec | HistogramVec

text \<open>Buckets are in seconds; None stands for \<open>prometheus.DefBuckets\<close>.\<close>

record MetricVec =
  mv_Kind :: metric_kind
  mv_Name :: string
  mv_Labels :: "string list"
  mv_Buckets :: "int list option"

definition RunnerJobCompletedTotal :: MetricVec where
  "RunnerJobCompletedTotal = \<lparr>mv_Kind = CounterVec, mv_Name = ''runner_job_completed_total'',
     mv_Labels = [''namespace'', ''phase''], mv_Buckets = None\<rparr>"

definition RunnerDurationSeconds :: MetricVec where
  "RunnerDurationSeconds = \<lparr>mv_Kind = HistogramVec, mv_Name = ''runner_duration_seconds'',
     mv_Labels = [''namespace''], mv_Buckets = Some [1, 5, 10, 30, 60, 300, 900, 3600]\<rparr>"

definition WorkflowPhaseTransitions :: MetricVec where
  "WorkflowPhaseTransitions = \<lparr>mv_Kind = CounterVec, mv_Name = ''workflow_phase_transitions_total'',
     mv_Labels = [''namespace'', ''phase''], mv_Buckets = None\<rparr>"

definition WorkflowDurationSeconds :: MetricVec where
  "WorkflowDurationSeconds = \<lparr>mv_Kind = HistogramVec, mv_Name = ''workflow_duration_seconds'',
     mv_Labels = [''namespace''], mv_Buckets = None\<rparr>"

definition RunnerActiveCount :: MetricVec where
  "RunnerActiveCount = \<lparr>mv_Kind = GaugeVec, mv_Name = ''runner_active_count'',
     mv_Labels = [''namespace'', ''phase''], mv_Buckets = None\<rparr>"

definition StepRetriesTotal :: MetricVec where
  "StepRetriesTotal = \<lparr>mv_Kind = CounterVec, mv_Name = ''step_retries_total'',
     mv_Labels = [''namespace''], mv_Buckets = None\<rparr>"

text \<open>\<open>metrics.Registry.MustRegister(...)\<close> in \<open>init\<close>.\<close>

definition registered :: "MetricVec list" where
  "registered = [RunnerJobCompletedTotal, RunnerDurationSeconds, RunnerActiveCount, WorkflowPhaseTransitions,
     WorkflowDurationSeconds, StepRetriesTotal]"

definition vector :: "metric_kind \<Rightarrow> string \<Rightarrow> MetricVec option" where
  "vector k name = find (\<lambda>v. mv_Kind v = k \<and> mv_Name v = name) registered"

section \<open>Every update fits its declaration\<close>

text \<open>The bounded set of values for the label \<open>phase\<close>.\<close>

definition phase_labels :: "string list" where
  "phase_labels = [''succeeded'', ''failed'', ''unknown'', ''Pending'', ''Running'', ''Succeeded'', ''Failed'', ''Unknown'', []]"

definition values_ok :: "metric_kind \<Rightarrow> string \<Rightarrow> string list \<Rightarrow> bool" where
  "values_ok k name values =
     (case vector k name of
        None \<Rightarrow> False
      | Some v \<Rightarrow> list_all2 (\<lambda>label x. label = ''phase'' \<longrightarrow> x \<in> set phase_labels) (mv_Labels v) values)"

fun metric_ok :: "effect \<Rightarrow> bool" where
  "metric_ok (CounterInc name values) = values_ok CounterVec name values"
| "metric_ok (GaugeInc name values) = values_ok GaugeVec name values"
| "metric_ok (GaugeDec name values) = values_ok GaugeVec name values"
| "metric_ok (Observe name values d) = values_ok HistogramVec name values"
| "metric_ok _ = True"

lemma vectors:
  "vector CounterVec ''runner_job_completed_total'' = Some RunnerJobCompletedTotal"
  "vector HistogramVec ''runner_duration_seconds'' = Some RunnerDurationSeconds"
  "vector CounterVec ''workflow_phase_transitions_total'' = Some WorkflowPhaseTransitions"
  "vector HistogramVec ''workflow_duration_seconds'' = Some WorkflowDurationSeconds"
  "vector GaugeVec ''runner_active_count'' = Some RunnerActiveCount"
  "vector CounterVec ''step_retries_total'' = Some StepRetriesTotal"
  by code_simp+

lemmas label_defs = RunnerJobCompletedTotal_def RunnerDurationSeconds_def WorkflowPhaseTransitions_def
  WorkflowDurationSeconds_def RunnerActiveCount_def StepRetriesTotal_def

interpretation metrics_log: log_contract metric_ok
  by unfold_locales simp

interpretation metrics_runner: runner_effects metric_ok
proof
  show "metric_ok (GaugeInc ''runner_active_count'' [ns, RunnerPhase_text q])" if "isNonTerminalPhase q" for q ns
    using that by (cases q) (simp_all add: values_ok_def vectors label_defs phase_labels_def isNonTerminalPhase_def)
  show "metric_ok (GaugeDec ''runner_active_count'' [ns, RunnerPhase_text q])" if "isNonTerminalPhase q" for q ns
    using that by (cases q) (simp_all add: values_ok_def vectors label_defs phase_labels_def isNonTerminalPhase_def)
qed (auto simp: values_ok_def vectors label_defs phase_labels_def)

interpretation metrics_workflow: workflow_effects metric_ok
proof
  show "metric_ok (CounterInc ''workflow_phase_transitions_total'' [ns, WorkflowPhase_text wp])" for ns wp
    by (cases wp) (simp_all add: values_ok_def vectors label_defs phase_labels_def)
qed (auto simp: values_ok_def vectors label_defs phase_labels_def)

text \<open>
  C36. No metric update panics and the metrics stay small: every update in a pass of the Runner or of the
  Workflow controller names a registered vector of its kind, gives exactly as many label values as
  that vector declares, and takes the value of a label \<open>phase\<close> from a fixed set of nine; and the
  registered vectors have different names, as \<open>MustRegister\<close> demands.
\<close>

theorem metric_updates_fit:
  "list_all metric_ok (w_log (snd (Reconcile_Runner e req (w\<lparr>w_log := []\<rparr>)))) \<and>
   list_all metric_ok (w_log (snd (Reconcile_Workflow e req (w\<lparr>w_log := []\<rparr>)))) \<and>
   distinct (map mv_Name registered)"
proof -
  have "list_all metric_ok (w_log (snd (Reconcile_Runner e req (w\<lparr>w_log := []\<rparr>))))"
    "list_all metric_ok (w_log (snd (Reconcile_Workflow e req (w\<lparr>w_log := []\<rparr>))))"
    using metrics_runner.Reconcile_Runner_keeps metrics_workflow.Reconcile_Workflow_keeps all_effects_empty
    unfolding all_effects_def by blast+
  moreover have "distinct (map mv_Name registered)" by code_simp
  ultimately show ?thesis by blast
qed

section \<open>The gauge of active Runners\<close>

fun gauge_change :: "string list \<Rightarrow> effect \<Rightarrow> int" where
  "gauge_change values (GaugeInc name vs) = (if name = ''runner_active_count'' \<and> vs = values then 1 else 0)"
| "gauge_change values (GaugeDec name vs) = (if name = ''runner_active_count'' \<and> vs = values then -1 else 0)"
| "gauge_change values _ = 0"

definition gauge :: "string list \<Rightarrow> effect list \<Rightarrow> int" where
  "gauge values l = sum_list (map (gauge_change values) l)"

definition active_in :: "RunnerPhase \<Rightarrow> RunnerPhase \<Rightarrow> int" where
  "active_in p q = (if p = q \<and> q \<in> {RunnerPhasePending, RunnerPhaseRunning} then 1 else 0)"

lemma active_in_alt: "active_in p q = (if p = q \<and> isNonTerminalPhase q then 1 else 0)"
  by (simp add: active_in_def isNonTerminalPhase_def)

lemma gauge_simps [simp]:
  "gauge values [] = 0" "gauge values (a @ b) = gauge values a + gauge values b"
  "gauge values (x # l) = gauge_change values x + gauge values l"
  by (simp_all add: gauge_def)

lemma RunnerPhase_text_inj: "RunnerPhase_text p = RunnerPhase_text q \<longleftrightarrow> p = q"
  by (cases p; cases q) auto

lemma moveGauge_gauge:
  "rn_Namespace r = ns \<Longrightarrow> gauge [ns, RunnerPhase_text q] (w_log (moveGauge r old new w)) =
     gauge [ns, RunnerPhase_text q] (w_log w) + active_in new q - active_in old q"
  by (auto simp: moveGauge_def activeGauge_def active_in_alt Let_def RunnerPhase_text_inj)

lemma reportPhase_gauge: "gauge values (w_log (snd (reportPhase e p r w))) = gauge values (w_log w)"
  by (cases p) (auto simp: reportPhase_def observeDuration_def Let_def split_beta split: option.split)

lemma updateStatusFromJob_gauge:
  "gauge [rn_Namespace r, RunnerPhase_text q] (w_log (snd (updateStatusFromJob e r job w))) =
     gauge [rn_Namespace r, RunnerPhase_text q] (w_log w) + active_in (phase_of_job job) q - active_in (rn_Phase r) q"
proof -
  obtain st ct where obs: "observeJob job = (phase_of_job job, st, ct)" using observeJob_phase [of job] by (metis prod.collapse)
  show ?thesis
  proof (cases "upToDate (phase_of_job job) st ct r")
    case True
    then have "rn_Phase r = phase_of_job job" by (simp add: upToDate_def)
    with True show ?thesis by (simp add: updateStatusFromJob_def obs)
  next
    case False
    then show ?thesis
      by (simp add: updateStatusFromJob_def obs patchRunner_def do_request_defs Let_def split_beta reportPhase_gauge moveGauge_gauge)
  qed
qed

text \<open>
  The Runner that is recorded after a pass over \<open>r\<close>: the one sent in its patch, if there was one
  and the pass returned without an error, otherwise \<open>r\<close>.
\<close>

definition recorded :: "Runner \<Rightarrow> Result \<times> world \<Rightarrow> Runner" where
  "recorded r res = (if fst res = Done then last (r # map snd (runner_patches (w_log (snd res)))) else r)"

lemma updateStatusFromJob_recorded:
  assumes "w_log w = []" "fst (updateStatusFromJob e r job w) = Done"
  shows "rn_Phase (recorded r (updateStatusFromJob e r job w)) = phase_of_job job"
proof -
  obtain st ct where obs: "observeJob job = (phase_of_job job, st, ct)" using observeJob_phase [of job] by (metis prod.collapse)
  show ?thesis
  proof (cases "upToDate (phase_of_job job) st ct r")
    case True
    then have "rn_Phase r = phase_of_job job" by (simp add: upToDate_def)
    with True assms show ?thesis by (simp add: updateStatusFromJob_def obs recorded_def)
  next
    case False
    obtain r1 w1 pre where
      "updateStatusFromJob e r job w = patchRunner e r (fst (reportPhase e (phase_of_job job) r1 w1)) (snd (reportPhase e (phase_of_job job) r1 w1))"
      "rn_Phase r1 = phase_of_job job"
      by (rule updateStatusFromJob_step [OF obs False, of e w]) auto
    with assms show ?thesis by (simp add: recorded_def reportPhase_frame)
  qed
qed

text \<open>
  A run of passes over one Runner that keeps its Job and has no drift: each pass reads the phase
  that was recorded by the passes before it, and its patch is accepted.  \<open>l\<close> is what the passes have
  emitted, \<open>p\<close> the phase recorded at the start and \<open>p'\<close> the one recorded at the end.
\<close>

inductive gauge_run :: "string \<Rightarrow> RunnerPhase \<Rightarrow> effect list \<Rightarrow> RunnerPhase \<Rightarrow> bool" for ns p where
  idle: "gauge_run ns p [] p"
| pass: "gauge_run ns p (l @ w_log (snd (Reconcile_Runner e req w))) (rn_Phase (recorded r (Reconcile_Runner e req w)))"
  if "gauge_run ns p l (rn_Phase r)" "e_GetRunner e w req = Inr r" "rn_Namespace r = ns" "om_DeletionTimestamp (rn_Meta r) = None"
    "computeSpecHash e (rn_Spec r) = Inr h" "rst_ResourceHash (rn_Status r) = h" "rst_DesiredSpecHash (rn_Status r) = []"
    "e_GetJob e w \<lparr>nn_Namespace = ns, nn_Name = rn_Name r @ ''-job''\<rparr> = Inr job"
    "w_log w = []" "fst (Reconcile_Runner e req w) = Done"



text \<open>
  The gauge leaks whenever a Runner starts over: the pass that finds no Job adds one to the gauge of
  Pending but takes nothing from the phase the Runner was in.  It happens when a running Job is
  deleted, and each time the creation of the Job fails after the status was patched.
\<close>

lemma active_gauge_leaks:
  assumes "e_GetRunner e w req = Inr r" "om_DeletionTimestamp (rn_Meta r) = None" "computeSpecHash e (rn_Spec r) = Inr h"
    and "e_GetJob e w \<lparr>nn_Namespace = rn_Namespace r, nn_Name = rn_Name r @ ''-job''\<rparr> = Inl (NotFound msg)"
    and "validateGitRepoSecret e r w = None" "patches_status e" "w_log w = []"
  shows "gauge [rn_Namespace r, RunnerPhase_text q] (w_log (snd (Reconcile_Runner e req w))) = active_in RunnerPhasePending q"
proof -
  let ?r = "rn_setStatus (\<lambda>s. s\<lparr>rst_DesiredSpecHash := [], rst_Phase := RunnerPhasePending,
                rst_ResourceHash := h, rst_ObservedGeneration := om_Generation (rn_Meta r)\<rparr>) r"
  obtain r' where "e_PatchRunner e w r ?r = Inr r'" "rn_Meta r' = rn_Meta ?r" using patches_statusD [OF assms(6)] by blast
  moreover have "Reconcile_Runner e req w = startRunner e h (rn_Name r @ ''-job'') r w"
    using Reconcile_Runner_cases [OF assms(1-3)] assms(4,5) by simp
  moreover have "RunnerPhase_text RunnerPhasePending = ''Pending''" by simp
  then have "''Pending'' = RunnerPhase_text q \<longleftrightarrow> RunnerPhasePending = q" using RunnerPhase_text_inj by metis
  ultimately show ?thesis
    using assms(7) by (auto simp: startRunner_def do_request_defs Let_def active_in_def
        split: sum.split option.split apierr.split)
qed

end
