(* ===== verification/Wiring.thy ===== *)
theory Wiring
  imports Effects Trigger_Properties
begin

text \<open>
  How the parts are put together: \<open>main\<close> of \<open>cmd/main.go\<close>, which turns the command line into the
  options of the servers and starts everything in order, and the three \<open>SetupWithManager\<close>, which
  say what each controller watches.  The calls into controller-runtime are steps that may fail.
  \<open>ctrl.GetConfigOrDie\<close> is called twice on the same flags and files; it is one step here.
\<close>

section \<open>Options\<close>

text \<open>The values of the flags after \<open>flag.Parse\<close>.\<close>

record Flags =
  fl_webhookEventAddr :: string
  fl_metricsAddr :: string
  fl_probeAddr :: string
  fl_enableLeaderElection :: bool
  fl_secureMetrics :: bool
  fl_webhookCertPath :: string
  fl_webhookCertName :: string
  fl_webhookCertKey :: string
  fl_metricsCertPath :: string
  fl_metricsCertName :: string
  fl_metricsCertKey :: string
  fl_enableHTTP2 :: bool

definition default_Flags :: Flags where
  "default_Flags = \<lparr>fl_webhookEventAddr = '':9090'', fl_metricsAddr = ''0'', fl_probeAddr = '':8081'',
     fl_enableLeaderElection = True, fl_secureMetrics = False, fl_webhookCertPath = [], fl_webhookCertName = ''tls.crt'',
     fl_webhookCertKey = ''tls.key'', fl_metricsCertPath = [], fl_metricsCertName = ''tls.crt'',
     fl_metricsCertKey = ''tls.key'', fl_enableHTTP2 = False\<rparr>"

record TLSConfig =
  tls_NextProtos :: "string list"

type_synonym tls_opt = "TLSConfig \<Rightarrow> TLSConfig"

definition disableHTTP2 :: tls_opt where
  "disableHTTP2 c = c\<lparr>tls_NextProtos := [''http/1.1'']\<rparr>"

definition tlsOpts :: "Flags \<Rightarrow> tls_opt list" where
  "tlsOpts fl = (if \<not> fl_enableHTTP2 fl then [disableHTTP2] else [])"

record WebhookOptions =
  wo_TLSOpts :: "tls_opt list"
  wo_CertDir :: string
  wo_CertName :: string
  wo_KeyName :: string

definition webhookServerOptions :: "Flags \<Rightarrow> WebhookOptions" where
  "webhookServerOptions fl =
     (let opts = \<lparr>wo_TLSOpts = tlsOpts fl, wo_CertDir = [], wo_CertName = [], wo_KeyName = []\<rparr>
      in if length (fl_webhookCertPath fl) > 0
         then opts\<lparr>wo_CertDir := fl_webhookCertPath fl, wo_CertName := fl_webhookCertName fl, wo_KeyName := fl_webhookCertKey fl\<rparr>
         else opts)"

text \<open>\<open>mso_Authenticated\<close>: the filter provider with authentication and authorization is set.\<close>

record MetricsServerOptions =
  mso_BindAddress :: string
  mso_SecureServing :: bool
  mso_TLSOpts :: "tls_opt list"
  mso_Authenticated :: bool
  mso_CertDir :: string
  mso_CertName :: string
  mso_KeyName :: string

definition metricsServerOptions :: "Flags \<Rightarrow> MetricsServerOptions" where
  "metricsServerOptions fl =
     (let opts = \<lparr>mso_BindAddress = fl_metricsAddr fl, mso_SecureServing = fl_secureMetrics fl, mso_TLSOpts = tlsOpts fl,
            mso_Authenticated = False, mso_CertDir = [], mso_CertName = [], mso_KeyName = []\<rparr>;
          opts = (if fl_secureMetrics fl then opts\<lparr>mso_Authenticated := True\<rparr> else opts)
      in if length (fl_metricsCertPath fl) > 0
         then opts\<lparr>mso_CertDir := fl_metricsCertPath fl, mso_CertName := fl_metricsCertName fl, mso_KeyName := fl_metricsCertKey fl\<rparr>
         else opts)"

record ManagerOptions =
  mgr_Metrics :: MetricsServerOptions
  mgr_Webhook :: WebhookOptions
  mgr_HealthProbeBindAddress :: string
  mgr_LeaderElection :: bool
  mgr_LeaderElectionID :: string

definition managerOptions :: "Flags \<Rightarrow> ManagerOptions" where
  "managerOptions fl = \<lparr>mgr_Metrics = metricsServerOptions fl, mgr_Webhook = webhookServerOptions fl,
     mgr_HealthProbeBindAddress = fl_probeAddr fl, mgr_LeaderElection = fl_enableLeaderElection fl,
     mgr_LeaderElectionID = ''0e1d963a.runner-operator.io''\<rparr>"

section \<open>The order of the start\<close>

datatype controller = RunnerController | WorkflowController | EventTriggerController

datatype boot_step =
    GetConfig
  | NewManager ManagerOptions
  | NewDirectClient
  | PreflightRBAC
  | PreflightCRDs
  | AddRbacCheck duration
  | Setup controller
  | AddWebhookServer string
  | AddHealthz
  | AddReadyz
  | StartManager

text \<open>
  What follows an error: the process exits with 1, the error is logged, or it is dropped and the
  nil client is dereferenced by the next step, a panic with exit code 2.
\<close>

datatype on_error = Exits | Logs | Panics

definition main_steps :: "Flags \<Rightarrow> (on_error \<times> boot_step) list" where
  "main_steps fl = [
     (Exits, GetConfig),
     (Exits, NewManager (managerOptions fl)),
     (Panics, NewDirectClient),
     (Logs, PreflightRBAC),
     (Logs, PreflightCRDs),
     (Logs, AddRbacCheck (5 * seconds 60)),
     (Exits, Setup RunnerController),
     (Exits, Setup WorkflowController),
     (Exits, Setup EventTriggerController),
     (Exits, AddWebhookServer (fl_webhookEventAddr fl)),
     (Exits, AddHealthz),
     (Exits, AddReadyz),
     (Exits, StartManager)]"

text \<open>The steps that are executed and the exit code of the process; \<open>fails\<close> says which report an error.\<close>

fun boot :: "(boot_step \<Rightarrow> bool) \<Rightarrow> (on_error \<times> boot_step) list \<Rightarrow> boot_step list \<times> int" where
  "boot fails [] = ([], 0)"
| "boot fails ((h, s) # ss) =
     (if fails s \<and> h = Exits then ([s], 1)
      else if fails s \<and> h = Panics then ([s], 2)
      else let (l, code) = boot fails ss in (s # l, code))"

definition main :: "(boot_step \<Rightarrow> bool) \<Rightarrow> Flags \<Rightarrow> boot_step list \<times> int" where
  "main fails fl = boot fails (main_steps fl)"

definition harmless :: "(boot_step \<Rightarrow> bool) \<Rightarrow> on_error \<times> boot_step \<Rightarrow> bool" where
  "harmless fails x \<longleftrightarrow> (fails (snd x) \<longrightarrow> fst x = Logs)"

lemma boot_Cons:
  "boot fails (x # ss) = (if harmless fails x then (snd x # fst (boot fails ss), snd (boot fails ss))
     else ([snd x], if fst x = Exits then 1 else 2))"
  by (cases x; cases "fst x") (auto simp: harmless_def split_beta Let_def)

lemma boot_append:
  "list_all (harmless fails) xs \<Longrightarrow> boot fails (xs @ ys) = (map snd xs @ fst (boot fails ys), snd (boot fails ys))"
  by (induction xs) (simp_all add: boot_Cons)

lemma boot_stops: "\<not> list_all (harmless fails) xs \<Longrightarrow> boot fails (xs @ ys) = boot fails xs"
  by (induction xs) (auto simp: boot_Cons)

lemma boot_code: "snd (boot fails ss) = 0 \<longleftrightarrow> list_all (harmless fails) ss"
  by (induction ss) (simp_all add: boot_Cons)

lemma boot_prefix: "\<exists>n. fst (boot fails ss) = take n (map snd ss)"
proof (induction ss)
  case (Cons x ss)
  then obtain n where "fst (boot fails ss) = take n (map snd ss)" by blast
  then show ?case
    by (cases "harmless fails x") (auto simp: boot_Cons intro: exI [of _ "Suc n"] exI [of _ 1])
qed simp

text \<open>
  C34. The start is ordered and all-or-nothing: the executed steps are a prefix of the fixed order, the
  manager is started if and only if the configuration, the manager, the client, all three
  controllers, the webhook server and both health checks could be set up, whatever the pre-flight
  checks report, and the process ends with exit code 0 exactly if none of these and the manager
  itself failed.  Unless HTTP/2 is enabled, both TLS servers offer HTTP/1.1 only.
\<close>

theorem main_boot_exact:
  "(\<exists>n. fst (main fails fl) = take n (map snd (main_steps fl))) \<and>
   (StartManager \<in> set (fst (main fails fl)) \<longleftrightarrow>
      \<not> fails GetConfig \<and> \<not> fails (NewManager (managerOptions fl)) \<and> \<not> fails NewDirectClient \<and> (\<nexists>c. fails (Setup c)) \<and>
      \<not> fails (AddWebhookServer (fl_webhookEventAddr fl)) \<and> \<not> fails AddHealthz \<and> \<not> fails AddReadyz) \<and>
   (snd (main fails fl) = 0 \<longleftrightarrow> StartManager \<in> set (fst (main fails fl)) \<and> \<not> fails StartManager) \<and>
   (fl_enableHTTP2 fl \<or>
      tls_NextProtos (foldl (\<lambda>c f. f c) c (wo_TLSOpts (mgr_Webhook (managerOptions fl)))) = [''http/1.1''] \<and>
      tls_NextProtos (foldl (\<lambda>c f. f c) c (mso_TLSOpts (mgr_Metrics (managerOptions fl)))) = [''http/1.1''])"
proof -
  let ?xs = "butlast (main_steps fl)"
  have steps: "main_steps fl = ?xs @ [(Exits, StartManager)]" by (simp add: main_steps_def)
  have setups: "(\<nexists>c. fails (Setup c)) \<longleftrightarrow> \<not> fails (Setup RunnerController) \<and> \<not> fails (Setup WorkflowController) \<and> \<not> fails (Setup EventTriggerController)"
    by (metis controller.exhaust)
  have ok: "list_all (harmless fails) ?xs \<longleftrightarrow>
      \<not> fails GetConfig \<and> \<not> fails (NewManager (managerOptions fl)) \<and> \<not> fails NewDirectClient \<and> (\<nexists>c. fails (Setup c)) \<and>
      \<not> fails (AddWebhookServer (fl_webhookEventAddr fl)) \<and> \<not> fails AddHealthz \<and> \<not> fails AddReadyz"
    unfolding setups by (auto simp: main_steps_def harmless_def)
  have early: "StartManager \<notin> set (fst (boot fails ?xs))"
  proof -
    obtain n where "fst (boot fails ?xs) = take n (map snd ?xs)" using boot_prefix by blast
    then have "set (fst (boot fails ?xs)) \<subseteq> snd ` set ?xs" using set_take_subset by fastforce
    moreover have "StartManager \<notin> snd ` set ?xs" by (simp add: main_steps_def)
    ultimately show ?thesis by blast
  qed
  have start: "StartManager \<in> set (fst (main fails fl)) \<longleftrightarrow> list_all (harmless fails) ?xs"
    using boot_append [of fails ?xs] boot_stops [of fails ?xs] early
    unfolding main_def by (subst steps, cases "list_all (harmless fails) ?xs") (simp_all add: boot_Cons)
  have code: "snd (main fails fl) = 0 \<longleftrightarrow> list_all (harmless fails) ?xs \<and> \<not> fails StartManager"
    unfolding main_def boot_code by (subst steps) (auto simp: harmless_def)
  have tls: "fl_enableHTTP2 fl \<or>
      tls_NextProtos (foldl (\<lambda>c f. f c) c (wo_TLSOpts (mgr_Webhook (managerOptions fl)))) = [''http/1.1''] \<and>
      tls_NextProtos (foldl (\<lambda>c f. f c) c (mso_TLSOpts (mgr_Metrics (managerOptions fl)))) = [''http/1.1'']"
    by (simp add: managerOptions_def webhookServerOptions_def metricsServerOptions_def tlsOpts_def disableHTTP2_def Let_def)
  show ?thesis using start ok code tls boot_prefix [of fails "main_steps fl"] unfolding main_def by blast
qed

section \<open>What a controller watches\<close>

datatype kind = RunnerKind | WorkflowKind | EventTriggerKind | JobKind | SecretKind

fun kind_of :: "kobj \<Rightarrow> kind" where
  "kind_of (ORunner r) = RunnerKind"
| "kind_of (OWorkflow W) = WorkflowKind"
| "kind_of (OTrigger t) = EventTriggerKind"
| "kind_of (OJob j) = JobKind"

text \<open>
  The builder calls \<open>For\<close>, \<open>Owns\<close>, \<open>Watches\<close> and \<open>Named\<close>.  A change of an owned object requests a pass over
  its owner; a change of a watched one goes through \<open>mapSecretToTriggers\<close>.
\<close>

record Watches =
  wt_For :: kind
  wt_Owns :: "kind list"
  wt_Watches :: "kind list"
  wt_Named :: string

definition SetupRunner :: Watches where
  "SetupRunner = \<lparr>wt_For = RunnerKind, wt_Owns = [JobKind], wt_Watches = [], wt_Named = ''runner''\<rparr>"

text \<open>\<open>clientErr\<close>: \<open>kubernetes.NewForConfig\<close> fails.\<close>

definition SetupWorkflow :: "apierr option \<Rightarrow> string + Watches" where
  "SetupWorkflow clientErr =
     (case clientErr of
        Some err \<Rightarrow> Inl (''failed to create kubernetes client: '' @ err_text err)
      | None \<Rightarrow> Inr \<lparr>wt_For = WorkflowKind, wt_Owns = [RunnerKind], wt_Watches = [], wt_Named = ''workflow''\<rparr>)"

definition SetupEventTrigger :: Watches where
  "SetupEventTrigger = \<lparr>wt_For = EventTriggerKind, wt_Owns = [], wt_Watches = [SecretKind], wt_Named = ''eventtrigger''\<rparr>"

text \<open>
  What the watches allow a controller to do: create and delete what it owns, and so hears of, and
  write the status of its own kind.
\<close>

fun own_write :: "Watches \<Rightarrow> effect \<Rightarrow> bool" where
  "own_write v (Create k) = (kind_of k \<in> set (wt_Owns v))"
| "own_write v (Delete k) = (kind_of k \<in> set (wt_Owns v))"
| "own_write v (PatchStatus a b) = (kind_of a = wt_For v \<and> kind_of b = wt_For v)"
| "own_write v _ = True"

interpretation runner_writes: runner_effects "own_write SetupRunner"
  by unfold_locales (simp_all add: SetupRunner_def)

interpretation workflow_writes: workflow_effects "own_write \<lparr>wt_For = WorkflowKind, wt_Owns = [RunnerKind], wt_Watches = [], wt_Named = ''workflow''\<rparr>"
  by unfold_locales simp_all

lemma Reconcile_Trigger_writes:
  "list_all (own_write SetupEventTrigger) (w_log (snd (snd (Reconcile_Trigger e req srv (w\<lparr>w_log := []\<rparr>)))))"
proof -
  have "list_all (own_write SetupEventTrigger) (w_log (snd (refuseTrigger e a b c d m t v)))" if "w_log v = []" for a b c d m t v
    using that by (simp add: refuseTrigger_def do_request_defs Let_def split_beta SetupEventTrigger_def)
  moreover have "list_all (own_write SetupEventTrigger) (w_log (snd (snd (registerTrigger e path t srv v))))" if "w_log v = []" for path t srv v
    using that by (auto simp: registerTrigger_def do_request_defs Let_def split_beta SetupEventTrigger_def split: option.split sum.split)
  ultimately show ?thesis
    by (auto simp: Reconcile_Trigger_def Let_def split_beta split: sum.split option.split)
qed

lemma handleRequest_writes:
  "list_all (\<lambda>x. \<exists>W. x = Create (OWorkflow W)) (w_log (snd (snd (handleRequest e h rq srv (w\<lparr>w_log := []\<rparr>)))))"
proof -
  have "list_all (\<lambda>x. \<exists>W. x = Create (OWorkflow W)) (w_log (snd (deliver e h route rq v)))" if "w_log v = []" for route v
    using that by (auto simp: deliver_def createWorkflow_def do_request_defs Let_def split_beta split: option.split sum.split)
  moreover have "w_log (snd (snd (checkRate e t p srv (w\<lparr>w_log := []\<rparr>)))) = []" for t p
    using checkRate_log [of e t p srv "w\<lparr>w_log := []\<rparr>"] by simp
  ultimately show ?thesis by (auto simp: handleRequest_def Let_def split_beta split: option.split)
qed

text \<open>
  C14. The controllers do not write over each other: in every pass, the Runner and the Workflow controller
  create and delete only objects of the kind they own and hence watch, and each controller writes the status of its own kind only.  The webhook
  server does nothing but create Workflows.
\<close>

theorem controllers_write_their_own:
  "list_all (own_write SetupRunner) (w_log (snd (Reconcile_Runner e req (w\<lparr>w_log := []\<rparr>)))) \<and>
   (case SetupWorkflow None of Inl _ \<Rightarrow> False
    | Inr v \<Rightarrow> list_all (own_write v) (w_log (snd (Reconcile_Workflow e req (w\<lparr>w_log := []\<rparr>))))) \<and>
   list_all (own_write SetupEventTrigger) (w_log (snd (snd (Reconcile_Trigger e req srv (w\<lparr>w_log := []\<rparr>))))) \<and>
   list_all (\<lambda>x. \<exists>W. x = Create (OWorkflow W)) (w_log (snd (snd (handleRequest e h rq srv (w\<lparr>w_log := []\<rparr>)))))"
  using runner_writes.Reconcile_Runner_keeps [OF all_effects_empty, of e req w]
    workflow_writes.Reconcile_Workflow_keeps [OF all_effects_empty, of e req w]
    Reconcile_Trigger_writes [of e req srv w] handleRequest_writes [of e h rq srv w]
  by (simp add: all_effects_def SetupWorkflow_def)

end
