(* ===== verification/Command_Line.thy ===== *)
theory Command_Line
  imports Wiring
begin

text \<open>
  The command line of the operator: the flags \<open>main\<close> of \<open>cmd/main.go\<close> defines, the parser of Go's
  package \<open>flag\<close>, and the whole program from its arguments to the start of the manager.  The flags of
  the logger and of controller-runtime (\<open>zap-...\<close>, \<open>kubeconfig\<close>) are a parameter, a list of flags with a
  state of their own.
\<close>

section \<open>Package flag\<close>

text \<open>A flag says if it may stand without a value, and what a text does to the state; \<open>None\<close> is an error.\<close>

record 's flag =
  fg_IsBool :: bool
  fg_Set :: "string \<Rightarrow> 's \<Rightarrow> 's option"

type_synonym 's flag_set = "(string, 's flag) gomap"

datatype flag_error =
    BadSyntax string
  | NotDefined string
  | NeedsArgument string
  | InvalidValue string string
  | ErrHelp

definition ParseBool :: "string \<Rightarrow> bool option" where
  "ParseBool s =
     (if List.member [''1'', ''t'', ''T'', ''TRUE'', ''true'', ''True''] s then Some True
      else if List.member [''0'', ''f'', ''F'', ''FALSE'', ''false'', ''False''] s then Some False
      else None)"

definition FormatBool :: "bool \<Rightarrow> string" where
  "FormatBool b = (if b then ''true'' else ''false'')"

definition StringVar :: "(string \<Rightarrow> 's \<Rightarrow> 's) \<Rightarrow> 's flag" where
  "StringVar p = \<lparr>fg_IsBool = False, fg_Set = (\<lambda>v st. Some (p v st))\<rparr>"

definition BoolVar :: "(bool \<Rightarrow> 's \<Rightarrow> 's) \<Rightarrow> 's flag" where
  "BoolVar p = \<lparr>fg_IsBool = True, fg_Set = (\<lambda>v st. map_option (\<lambda>b. p b st) (ParseBool v))\<rparr>"

text \<open>The name and the value after the first equals sign that is not the first character.\<close>

definition splitValue :: "string \<Rightarrow> string \<times> string option" where
  "splitValue s =
     (let name = take 1 s @ takeWhile (\<lambda>c. c \<noteq> CHR ''='') (drop 1 s)
      in (name, if length name < length s then Some (drop (length name + 1) s) else None))"

datatype 's parse_step =
    Stop "string list"
  | Fail flag_error
  | Continue 's "string list"

definition setFlag :: "'s flag \<Rightarrow> string \<Rightarrow> string \<Rightarrow> 's \<Rightarrow> string list \<Rightarrow> 's parse_step" where
  "setFlag fg name value st args =
     (case fg_Set fg value st of None \<Rightarrow> Fail (InvalidValue name value) | Some st \<Rightarrow> Continue st args)"

definition parseOne :: "'s flag_set \<Rightarrow> 's \<Rightarrow> string list \<Rightarrow> 's parse_step" where
  "parseOne formal st args =
     (case args of
        [] \<Rightarrow> Stop []
      | s # rest \<Rightarrow>
          if length s < 2 \<or> s ! 0 \<noteq> CHR ''-'' then Stop args
          else if s = ''--'' then Stop rest
          else
            let name = drop (if s ! 1 = CHR ''-'' then 2 else 1) s
            in if name = [] \<or> name ! 0 = CHR ''-'' \<or> name ! 0 = CHR ''='' then Fail (BadSyntax s)
               else
                 case splitValue name of (name, value) \<Rightarrow>
                   (case map_of formal name of
                      None \<Rightarrow> Fail (if name = ''help'' \<or> name = ''h'' then ErrHelp else NotDefined name)
                    | Some fg \<Rightarrow>
                        if fg_IsBool fg then setFlag fg name (case value of Some v \<Rightarrow> v | None \<Rightarrow> ''true'') st rest
                        else (case value of
                                Some v \<Rightarrow> setFlag fg name v st rest
                              | None \<Rightarrow> (case rest of
                                           [] \<Rightarrow> Fail (NeedsArgument name)
                                         | v # rest \<Rightarrow> setFlag fg name v st rest))))"

lemma parseOne_shorter: "parseOne formal st args = Continue st' rest \<Longrightarrow> length rest < length args"
  by (auto simp: parseOne_def setFlag_def Let_def split: list.splits if_splits prod.splits option.splits)

text \<open>\<open>Parse\<close> on the command line of the process: the state and the arguments left over, or the error.\<close>

function (sequential) Parse :: "'s flag_set \<Rightarrow> 's \<Rightarrow> string list \<Rightarrow> flag_error + 's \<times> string list" where
  "Parse formal st args =
     (case parseOne formal st args of
        Stop rest \<Rightarrow> Inr (st, rest)
      | Fail err \<Rightarrow> Inl err
      | Continue st' rest \<Rightarrow> Parse formal st' rest)"
  by pat_completeness auto

termination
  by (relation "measure (\<lambda>(formal, st, args). length args)") (auto dest: parseOne_shorter)

declare Parse.simps [simp del]

section \<open>The flags of the operator\<close>

definition operator_flags :: "(Flags \<times> 'x) flag_set" where
  "operator_flags = [
     (''webhook-event-addr'', StringVar (\<lambda>v. apfst (fl_webhookEventAddr_update (\<lambda>_. v)))),
     (''metrics-bind-address'', StringVar (\<lambda>v. apfst (fl_metricsAddr_update (\<lambda>_. v)))),
     (''health-probe-bind-address'', StringVar (\<lambda>v. apfst (fl_probeAddr_update (\<lambda>_. v)))),
     (''leader-elect'', BoolVar (\<lambda>b. apfst (fl_enableLeaderElection_update (\<lambda>_. b)))),
     (''metrics-secure'', BoolVar (\<lambda>b. apfst (fl_secureMetrics_update (\<lambda>_. b)))),
     (''webhook-cert-path'', StringVar (\<lambda>v. apfst (fl_webhookCertPath_update (\<lambda>_. v)))),
     (''webhook-cert-name'', StringVar (\<lambda>v. apfst (fl_webhookCertName_update (\<lambda>_. v)))),
     (''webhook-cert-key'', StringVar (\<lambda>v. apfst (fl_webhookCertKey_update (\<lambda>_. v)))),
     (''metrics-cert-path'', StringVar (\<lambda>v. apfst (fl_metricsCertPath_update (\<lambda>_. v)))),
     (''metrics-cert-name'', StringVar (\<lambda>v. apfst (fl_metricsCertName_update (\<lambda>_. v)))),
     (''metrics-cert-key'', StringVar (\<lambda>v. apfst (fl_metricsCertKey_update (\<lambda>_. v)))),
     (''enable-http2'', BoolVar (\<lambda>b. apfst (fl_enableHTTP2_update (\<lambda>_. b))))]"

definition other_flag :: "'x flag \<Rightarrow> (Flags \<times> 'x) flag" where
  "other_flag fg = \<lparr>fg_IsBool = fg_IsBool fg, fg_Set = (\<lambda>v (fl, x). map_option (Pair fl) (fg_Set fg v x))\<rparr>"

definition CommandLine :: "'x flag_set \<Rightarrow> (Flags \<times> 'x) flag_set" where
  "CommandLine others = operator_flags @ map (\<lambda>(n, fg). (n, other_flag fg)) others"

text \<open>
  The program: a flag that is defined twice is a panic; an error of the parser ends the process with
  2, a request for help with 0; arguments that are left over are ignored.
\<close>

definition run_main :: "(boot_step \<Rightarrow> bool) \<Rightarrow> 'x flag_set \<Rightarrow> 'x \<Rightarrow> string list \<Rightarrow> boot_step list \<times> int" where
  "run_main fails others x args =
     (if \<not> distinct (map fst (CommandLine others)) then ([], 2)
      else case Parse (CommandLine others) (default_Flags, x) args of
             Inl ErrHelp \<Rightarrow> ([], 0)
           | Inl err \<Rightarrow> ([], 2)
           | Inr ((fl, x), rest) \<Rightarrow> main fails fl)"

section \<open>Ways to write a setting\<close>

text \<open>
  \<open>-name=value\<close>, \<open>-name value\<close> for a flag that is not boolean, and \<open>-name\<close> alone for a boolean one; with
  one dash or two.
\<close>

datatype spelling = Joined | Separate | Bare

record setting =
  sg_TwoDashes :: bool
  sg_Name :: string
  sg_Value :: string
  sg_Spelling :: spelling

definition spell :: "setting \<Rightarrow> string list" where
  "spell s =
     (let name = (if sg_TwoDashes s then ''--'' else ''-'') @ sg_Name s
      in case sg_Spelling s of
           Joined \<Rightarrow> [name @ ''='' @ sg_Value s]
         | Separate \<Rightarrow> [name, sg_Value s]
         | Bare \<Rightarrow> [name])"

definition flag_name :: "string \<Rightarrow> bool" where
  "flag_name n \<longleftrightarrow> n \<noteq> [] \<and> n ! 0 \<noteq> CHR ''-'' \<and> CHR ''='' \<notin> set n"

definition spelled :: "'s flag \<Rightarrow> setting \<Rightarrow> bool" where
  "spelled fg s \<longleftrightarrow> flag_name (sg_Name s) \<and>
     (case sg_Spelling s of
        Joined \<Rightarrow> True
      | Separate \<Rightarrow> \<not> fg_IsBool fg
      | Bare \<Rightarrow> fg_IsBool fg \<and> sg_Value s = ''true'')"

text \<open>Arguments at which the parser stops.\<close>

definition no_flag :: "string list \<Rightarrow> bool" where
  "no_flag args \<longleftrightarrow> (case args of [] \<Rightarrow> True | s # _ \<Rightarrow> length s < 2 \<or> s ! 0 \<noteq> CHR ''-'' \<or> s = ''--'')"

lemma Parse_no_flag: "no_flag args \<Longrightarrow> \<exists>rest. Parse formal st args = Inr (st, rest)"
  by (subst Parse.simps) (auto simp: no_flag_def parseOne_def split: list.splits)

lemma takeWhile_absent: "c \<notin> set s \<Longrightarrow> takeWhile (\<lambda>d. d \<noteq> c) s = s"
  by (auto simp: takeWhile_eq_all_conv)

lemma splitValue_name: "flag_name n \<Longrightarrow> splitValue n = (n, None)"
  by (cases n) (simp_all add: flag_name_def splitValue_def takeWhile_absent)

lemma splitValue_joined: "flag_name n \<Longrightarrow> splitValue (n @ CHR ''='' # v) = (n, Some v)"
  by (cases n) (auto simp: flag_name_def splitValue_def Let_def takeWhile_append)

lemma parseOne_flag:
  assumes "flag_name n" "t = [] \<or> (\<exists>v. t = CHR ''='' # v)"
  shows "parseOne formal st (((if two then ''--'' else ''-'') @ n @ t) # rest) =
    (case splitValue (n @ t) of (name, value) \<Rightarrow>
       (case map_of formal name of
          None \<Rightarrow> Fail (if name = ''help'' \<or> name = ''h'' then ErrHelp else NotDefined name)
        | Some fg \<Rightarrow>
            if fg_IsBool fg then setFlag fg name (case value of Some v \<Rightarrow> v | None \<Rightarrow> ''true'') st rest
            else (case value of
                    Some v \<Rightarrow> setFlag fg name v st rest
                  | None \<Rightarrow> (case rest of
                               [] \<Rightarrow> Fail (NeedsArgument name)
                             | v # rest \<Rightarrow> setFlag fg name v st rest))))"
proof -
  obtain c cs where n: "n = c # cs" "c \<noteq> CHR ''-''" "c \<noteq> CHR ''=''" using assms(1) by (cases n) (auto simp: flag_name_def)
  then show ?thesis by (cases two) (simp_all add: parseOne_def)
qed

text \<open>Whatever its spelling, a setting does the same.\<close>

lemma parseOne_spell:
  assumes "map_of formal (sg_Name s) = Some fg" "spelled fg s"
  shows "parseOne formal st (spell s @ rest) = setFlag fg (sg_Name s) (sg_Value s) st rest"
proof -
  have n: "flag_name (sg_Name s)" using assms(2) by (simp add: spelled_def)
  note split = splitValue_name [OF n] splitValue_joined [OF n]
  show ?thesis
    using assms parseOne_flag [OF n, of "[]" formal st "sg_TwoDashes s"]
      parseOne_flag [OF n, of "CHR ''='' # sg_Value s" formal st "sg_TwoDashes s"]
    by (cases "sg_Spelling s") (simp_all add: spell_def spelled_def split)
qed

lemma Parse_spell:
  assumes "map_of formal (sg_Name s) = Some fg" "spelled fg s" "fg_Set fg (sg_Value s) st = Some st'"
  shows "Parse formal st (spell s @ rest) = Parse formal st' rest"
  using parseOne_spell [OF assms(1,2)] assms(3) by (subst Parse.simps) (simp add: setFlag_def)

section \<open>The flags as a table\<close>

definition settings :: "Flags \<Rightarrow> (string \<times> string) list" where
  "settings fl = [
     (''webhook-event-addr'', fl_webhookEventAddr fl), (''metrics-bind-address'', fl_metricsAddr fl),
     (''health-probe-bind-address'', fl_probeAddr fl), (''leader-elect'', FormatBool (fl_enableLeaderElection fl)),
     (''metrics-secure'', FormatBool (fl_secureMetrics fl)), (''webhook-cert-path'', fl_webhookCertPath fl),
     (''webhook-cert-name'', fl_webhookCertName fl), (''webhook-cert-key'', fl_webhookCertKey fl),
     (''metrics-cert-path'', fl_metricsCertPath fl), (''metrics-cert-name'', fl_metricsCertName fl),
     (''metrics-cert-key'', fl_metricsCertKey fl), (''enable-http2'', FormatBool (fl_enableHTTP2 fl))]"

text \<open>The text a value stands for: a boolean has several spellings.\<close>

definition canonical :: "string \<Rightarrow> string \<Rightarrow> string option" where
  "canonical n v =
     (if List.member [''leader-elect'', ''metrics-secure'', ''enable-http2''] n then map_option FormatBool (ParseBool v) else Some v)"

lemma FormatBool_eq [simp]: "FormatBool a = FormatBool b \<longleftrightarrow> a = b"
  by (simp add: FormatBool_def)

lemma settings_inj: "map_of (settings fl) = map_of (settings fl') \<Longrightarrow> fl = fl'"
proof -
  assume "map_of (settings fl) = map_of (settings fl')"
  then have *: "map_of (settings fl) n = map_of (settings fl') n" for n by simp
  show "fl = fl'"
    using * [of "''webhook-event-addr''"] * [of "''metrics-bind-address''"] * [of "''health-probe-bind-address''"]
      * [of "''leader-elect''"] * [of "''metrics-secure''"] * [of "''webhook-cert-path''"] * [of "''webhook-cert-name''"]
      * [of "''webhook-cert-key''"] * [of "''metrics-cert-path''"] * [of "''metrics-cert-name''"] * [of "''metrics-cert-key''"]
      * [of "''enable-http2''"]
    by (simp add: settings_def)
qed

lemma settings_own: "map_of (settings fl) n = None \<longleftrightarrow> map_of operator_flags n = None"
  by (simp add: settings_def operator_flags_def)

lemma operator_flag_set:
  assumes "map_of operator_flags n = Some fg"
  shows "case canonical n v of
      None \<Rightarrow> fg_Set fg v (fl, x) = None
    | Some c \<Rightarrow> \<exists>fl'. fg_Set fg v (fl, x) = Some (fl', x) \<and> map_of (settings fl') = (map_of (settings fl))(n \<mapsto> c)"
  using assms
  by (simp add: operator_flags_def split: if_splits;
      fastforce simp: canonical_def StringVar_def BoolVar_def settings_def fun_eq_iff split: option.splits)

lemma CommandLine_set:
  assumes "map_of (CommandLine others) n = Some fg" "fg_Set fg v (fl, x) = Some (fl', x')"
  shows "map_of (settings fl') m = (if m = n \<and> map_of (settings fl) n \<noteq> None then canonical n v else map_of (settings fl) m)"
proof (cases "map_of operator_flags n :: (Flags \<times> 'a) flag option")
  case None
  then obtain fg' where "fg = other_flag fg'"
    using assms(1) by (auto simp: CommandLine_def map_add_Some_iff dest!: map_of_SomeD)
  then have "fl' = fl" using assms(2) by (auto simp: other_flag_def)
  then show ?thesis using settings_own [of fl n, THEN iffD2, OF None] by simp
next
  case (Some fg')
  then have "fg' = fg" using assms(1) by (simp add: CommandLine_def map_add_def)
  moreover have "map_of (settings fl) n \<noteq> None" using Some by (metis settings_own option.distinct(1))
  ultimately show ?thesis using operator_flag_set [OF Some, of v fl x] assms(2) by (auto split: option.splits)
qed

definition valid_setting :: "'s flag_set \<Rightarrow> setting \<Rightarrow> bool" where
  "valid_setting formal s \<longleftrightarrow>
     (case map_of formal (sg_Name s) of
        None \<Rightarrow> False
      | Some fg \<Rightarrow> spelled fg s \<and> (\<forall>st. fg_Set fg (sg_Value s) st \<noteq> None))"

definition last_value :: "setting list \<Rightarrow> string \<Rightarrow> string option" where
  "last_value sgs = map_of (rev (map (\<lambda>s. (sg_Name s, sg_Value s)) sgs))"

lemma last_value_simps [simp]:
  "last_value [] n = None"
  "last_value (s # sgs) n = (case last_value sgs n of None \<Rightarrow> if n = sg_Name s then Some (sg_Value s) else None | Some v \<Rightarrow> Some v)"
  by (simp_all add: last_value_def map_add_def fun_upd_def split: option.split)

lemma Parse_settings:
  assumes "list_all (valid_setting (CommandLine others)) sgs"
  shows "\<exists>fl' x'. Parse (CommandLine others) (fl, x) (concat (map spell sgs) @ args) = Parse (CommandLine others) (fl', x') args \<and>
    (\<forall>n. map_of (settings fl) n \<noteq> None \<longrightarrow>
       map_of (settings fl') n = (case last_value sgs n of Some v \<Rightarrow> canonical n v | None \<Rightarrow> map_of (settings fl) n))"
  using assms
proof (induction sgs arbitrary: fl x)
  case (Cons s sgs)
  from Cons.prems obtain fg where fg: "map_of (CommandLine others) (sg_Name s) = Some fg" "spelled fg s"
    "fg_Set fg (sg_Value s) (fl, x) \<noteq> None"
    by (auto simp: valid_setting_def split: option.splits)
  then obtain fl1 x1 where set: "fg_Set fg (sg_Value s) (fl, x) = Some (fl1, x1)" by auto
  from Cons obtain fl' x' where IH:
    "Parse (CommandLine others) (fl1, x1) (concat (map spell sgs) @ args) = Parse (CommandLine others) (fl', x') args"
    "\<And>n. map_of (settings fl1) n \<noteq> None \<Longrightarrow>
       map_of (settings fl') n = (case last_value sgs n of Some v \<Rightarrow> canonical n v | None \<Rightarrow> map_of (settings fl1) n)"
    by fastforce
  have own: "map_of (settings fl1) n \<noteq> None \<longleftrightarrow> map_of (settings fl) n \<noteq> None" for n by (metis settings_own)
  show ?case
    using IH own CommandLine_set [OF fg(1) set] Parse_spell [OF fg(1,2) set]
    by (auto intro!: exI [of _ fl'] exI [of _ x'] split: option.splits)
qed auto

lemma run_main_settings:
  assumes "distinct (map fst (CommandLine others))" "list_all (valid_setting (CommandLine others)) sgs" "no_flag rest"
    and "list_all (\<lambda>(n, v). case last_value sgs n of Some t \<Rightarrow> canonical n t = Some v | None \<Rightarrow> map_of (settings default_Flags) n = Some v)
      (settings fl)"
  shows "run_main fails others x (concat (map spell sgs) @ rest) = main fails fl"
proof -
  from Parse_settings [OF assms(2), of default_Flags x rest] obtain fl' x' where
    p: "Parse (CommandLine others) (default_Flags, x) (concat (map spell sgs) @ rest) = Parse (CommandLine others) (fl', x') rest"
    and v: "\<And>n. map_of (settings default_Flags) n \<noteq> None \<Longrightarrow>
      map_of (settings fl') n = (case last_value sgs n of Some v \<Rightarrow> canonical n v | None \<Rightarrow> map_of (settings default_Flags) n)"
    by blast
  have "map_of (settings fl') n = map_of (settings fl) n" for n
  proof (cases "map_of (settings fl) n")
    case None
    then show ?thesis by (metis settings_own)
  next
    case (Some t)
    then have "map_of (settings default_Flags) n \<noteq> None" by (metis settings_own option.distinct(1))
    then show ?thesis using v Some map_of_SomeD [OF Some] assms(4) by (fastforce simp: list_all_iff split: option.splits)
  qed
  then have "fl' = fl" by (intro settings_inj) auto
  then show ?thesis using p Parse_no_flag [OF assms(3), of "CommandLine others" "(fl, x')"] assms(1) by (auto simp: run_main_def)
qed

text \<open>
  The other outcomes: after valid settings, a name that is not defined ends the process with 2 before
  anything is started, a request for help with 0, and so does, with 2, a text that is no boolean.
\<close>

lemma run_main_undefined:
  assumes "distinct (map fst (CommandLine others))" "list_all (valid_setting (CommandLine others)) sgs"
    and "flag_name n" "map_of (CommandLine others) n = None" "t = [] \<or> (\<exists>v. t = CHR ''='' # v)"
  shows "run_main fails others x (concat (map spell sgs) @ ((if two then ''--'' else ''-'') @ n @ t) # rest) =
    ([], if n = ''help'' \<or> n = ''h'' then 0 else 2)"
proof -
  let ?bad = "((if two then ''--'' else ''-'') @ n @ t) # rest"
  obtain v where "splitValue (n @ t) = (n, v)" using assms(3,5) splitValue_name splitValue_joined by fastforce
  then have "parseOne (CommandLine others) st ?bad = Fail (if n = ''help'' \<or> n = ''h'' then ErrHelp else NotDefined n)" for st
    using parseOne_flag [OF assms(3,5), of "CommandLine others" st two rest] assms(4) by simp
  then have "Parse (CommandLine others) st ?bad = Inl (if n = ''help'' \<or> n = ''h'' then ErrHelp else NotDefined n)" for st
    by (subst Parse.simps) simp
  then show ?thesis using Parse_settings [OF assms(2), of default_Flags x ?bad] assms(1) by (auto simp: run_main_def)
qed

lemma run_main_invalid:
  fixes others :: "'x flag_set" and fg :: "(Flags \<times> 'x) flag"
  assumes "distinct (map fst (CommandLine others))" "list_all (valid_setting (CommandLine others)) sgs"
    and "map_of operator_flags (sg_Name s) = Some fg" "spelled fg s" "canonical (sg_Name s) (sg_Value s) = None"
  shows "run_main fails others x (concat (map spell sgs) @ spell s @ rest) = ([], 2)"
proof -
  have fg: "map_of (CommandLine others) (sg_Name s) = Some fg" using assms(3) by (simp add: CommandLine_def map_add_def)
  have "fg_Set fg (sg_Value s) (fl, x) = None" for fl x using operator_flag_set [OF assms(3), of "sg_Value s" fl x] assms(5) by simp
  then have "Parse (CommandLine others) (fl, x) (spell s @ rest) = Inl (InvalidValue (sg_Name s) (sg_Value s))" for fl x
    using parseOne_spell [OF fg assms(4)] by (subst Parse.simps) (simp add: setFlag_def)
  then show ?thesis using Parse_settings [OF assms(2), of default_Flags x "spell s @ rest"] assms(1) by (auto simp: run_main_def)
qed

text \<open>
  A boolean flag takes no value from the next argument: \<open>--leader-elect false\<close> leaves leader election
  on, and the parser stops at \<open>false\<close>, so that the flags after it are ignored without an error.
\<close>

lemma separate_boolean_ignored:
  assumes "distinct (map fst (CommandLine others))"
  shows "run_main fails others x (''--leader-elect'' # ''false'' # rest) = main fails default_Flags"
proof -
  let ?s = "\<lparr>sg_TwoDashes = True, sg_Name = ''leader-elect'', sg_Value = ''true'', sg_Spelling = Bare\<rparr>"
  have "list_all (valid_setting (CommandLine others)) [?s]"
    by (simp add: valid_setting_def CommandLine_def operator_flags_def map_add_def spelled_def flag_name_def BoolVar_def ParseBool_def)
  moreover have "list_all (\<lambda>(n, v). case last_value [?s] n of Some t \<Rightarrow> canonical n t = Some v
      | None \<Rightarrow> map_of (settings default_Flags) n = Some v) (settings default_Flags)"
    by (simp add: settings_def default_Flags_def canonical_def ParseBool_def FormatBool_def)
  ultimately show ?thesis using run_main_settings [OF assms, of "[?s]" "''false'' # rest"] by (simp add: no_flag_def spell_def)
qed

text \<open>
  The command line means what it says: take any list of settings of flags, each with one dash or
  two and its value after an equals sign, in the next argument, or left out for a boolean flag, in any
  order and with repetitions, followed by nothing, by \<open>--\<close> or by an argument that is no flag.  Then the
  program runs \<open>main\<close> with the flags in which each name has its last value, and its default if it does
  not occur; settings of the flags of the logger and of controller-runtime change none of them.
\<close>

lemma command_line_exact:
  assumes "distinct (map fst (CommandLine others))" "list_all (valid_setting (CommandLine others)) sgs" "no_flag rest"
    and "list_all (\<lambda>(n, v). case last_value sgs n of Some t \<Rightarrow> canonical n t = Some v | None \<Rightarrow> map_of (settings default_Flags) n = Some v)
      (settings fl)"
  shows "run_main fails others x (concat (map spell sgs) @ rest) = main fails fl"
  by (rule run_main_settings [OF assms])

text \<open>The arguments of the deployment in \<open>config/manager/manager.yaml\<close> with the patch of \<open>config/default\<close>, and a flag of the logger.\<close>

definition sample_others :: "string flag_set" where
  "sample_others = [(''zap-log-level'', StringVar (\<lambda>v _. v))]"

lemma command_line_exact_example:
  "run_main (\<lambda>_. False) sample_others []
     [''--metrics-bind-address=:8080'', ''--leader-elect'', ''--health-probe-bind-address=:8081'', ''--webhook-event-addr=:9090'',
      ''-zap-log-level'', ''debug''] =
   main (\<lambda>_. False) (default_Flags\<lparr>fl_metricsAddr := '':8080''\<rparr>)"
proof -
  define sgs where "sgs = [
    \<lparr>sg_TwoDashes = True, sg_Name = ''metrics-bind-address'', sg_Value = '':8080'', sg_Spelling = Joined\<rparr>,
    \<lparr>sg_TwoDashes = True, sg_Name = ''leader-elect'', sg_Value = ''true'', sg_Spelling = Bare\<rparr>,
    \<lparr>sg_TwoDashes = True, sg_Name = ''health-probe-bind-address'', sg_Value = '':8081'', sg_Spelling = Joined\<rparr>,
    \<lparr>sg_TwoDashes = True, sg_Name = ''webhook-event-addr'', sg_Value = '':9090'', sg_Spelling = Joined\<rparr>,
    \<lparr>sg_TwoDashes = False, sg_Name = ''zap-log-level'', sg_Value = ''debug'', sg_Spelling = Separate\<rparr>]"
  have "distinct (map fst (CommandLine sample_others))" by (simp add: CommandLine_def operator_flags_def sample_others_def)
  moreover have "list_all (valid_setting (CommandLine sample_others)) sgs"
    by (simp add: sgs_def valid_setting_def CommandLine_def operator_flags_def sample_others_def other_flag_def spelled_def flag_name_def
        StringVar_def BoolVar_def ParseBool_def)
  moreover have "list_all (\<lambda>(n, v). case last_value sgs n of Some t \<Rightarrow> canonical n t = Some v
      | None \<Rightarrow> map_of (settings default_Flags) n = Some v) (settings (default_Flags\<lparr>fl_metricsAddr := '':8080''\<rparr>))"
    by (simp add: sgs_def settings_def default_Flags_def canonical_def ParseBool_def FormatBool_def)
  ultimately show ?thesis
    using command_line_exact [of sample_others sgs "[]" "default_Flags\<lparr>fl_metricsAddr := '':8080''\<rparr>" "\<lambda>_. False" "[]"]
    by (simp add: no_flag_def sgs_def spell_def)
qed

end
