(* ===== verification/Startup.thy ===== *)
theory Startup
  imports Cluster
begin

text \<open>
  The checks at startup, \<open>internal/startup\<close>: the comparison of the operator's permissions with those
  it needs (\<open>rbac.go\<close>), its periodic repetition, and the check of the installed resource definitions
  (\<open>crd.go\<close>).  Their result is what they log; the answers of the API server are arguments.
\<close>

section \<open>rbac.go\<close>

record permission =
  prm_group :: string
  prm_resource :: string
  prm_verb :: string

definition perm :: "string \<Rightarrow> string \<Rightarrow> string \<Rightarrow> permission" where
  "perm g r v = \<lparr>prm_group = g, prm_resource = r, prm_verb = v\<rparr>"

definition expectedPerms :: "permission list" where
  "expectedPerms = [
    perm [] ''events'' ''create'',
    perm [] ''events'' ''patch'',
    perm [] ''namespaces'' ''get'',
    perm [] ''namespaces'' ''list'',
    perm [] ''namespaces'' ''watch'',
    perm [] ''secrets'' ''get'',
    perm [] ''secrets'' ''list'',
    perm [] ''secrets'' ''watch'',
    perm [] ''pods'' ''delete'',
    perm [] ''pods'' ''get'',
    perm [] ''pods'' ''list'',
    perm [] ''pods'' ''watch'',
    perm [] ''pods/log'' ''get'',
    perm ''batch'' ''jobs'' ''create'',
    perm ''batch'' ''jobs'' ''delete'',
    perm ''batch'' ''jobs'' ''get'',
    perm ''batch'' ''jobs'' ''list'',
    perm ''batch'' ''jobs'' ''patch'',
    perm ''batch'' ''jobs'' ''update'',
    perm ''batch'' ''jobs'' ''watch'',
    perm ''batch'' ''jobs/status'' ''get'',
    perm ''runners.runners.runner-operator.io'' ''eventtriggers'' ''create'',
    perm ''runners.runners.runner-operator.io'' ''eventtriggers'' ''delete'',
    perm ''runners.runners.runner-operator.io'' ''eventtriggers'' ''get'',
    perm ''runners.runners.runner-operator.io'' ''eventtriggers'' ''list'',
    perm ''runners.runners.runner-operator.io'' ''eventtriggers'' ''patch'',
    perm ''runners.runners.runner-operator.io'' ''eventtriggers'' ''update'',
    perm ''runners.runners.runner-operator.io'' ''eventtriggers'' ''watch'',
    perm ''runners.runners.runner-operator.io'' ''eventtriggers/status'' ''get'',
    perm ''runners.runners.runner-operator.io'' ''eventtriggers/status'' ''patch'',
    perm ''runners.runners.runner-operator.io'' ''eventtriggers/status'' ''update'',
    perm ''runners.runners.runner-operator.io'' ''runners'' ''create'',
    perm ''runners.runners.runner-operator.io'' ''runners'' ''delete'',
    perm ''runners.runners.runner-operator.io'' ''runners'' ''get'',
    perm ''runners.runners.runner-operator.io'' ''runners'' ''list'',
    perm ''runners.runners.runner-operator.io'' ''runners'' ''patch'',
    perm ''runners.runners.runner-operator.io'' ''runners'' ''update'',
    perm ''runners.runners.runner-operator.io'' ''runners'' ''watch'',
    perm ''runners.runners.runner-operator.io'' ''runners/status'' ''get'',
    perm ''runners.runners.runner-operator.io'' ''runners/status'' ''patch'',
    perm ''runners.runners.runner-operator.io'' ''runners/status'' ''update'',
    perm ''runners.runners.runner-operator.io'' ''workflows'' ''create'',
    perm ''runners.runners.runner-operator.io'' ''workflows'' ''delete'',
    perm ''runners.runners.runner-operator.io'' ''workflows'' ''get'',
    perm ''runners.runners.runner-operator.io'' ''workflows'' ''list'',
    perm ''runners.runners.runner-operator.io'' ''workflows'' ''patch'',
    perm ''runners.runners.runner-operator.io'' ''workflows'' ''update'',
    perm ''runners.runners.runner-operator.io'' ''workflows'' ''watch'',
    perm ''runners.runners.runner-operator.io'' ''workflows/status'' ''get'',
    perm ''runners.runners.runner-operator.io'' ''workflows/status'' ''patch'',
    perm ''runners.runners.runner-operator.io'' ''workflows/status'' ''update'']"

definition rbacKey :: "permission \<Rightarrow> string" where
  "rbacKey p = prm_group p @ ''/'' @ prm_resource p @ '':'' @ prm_verb p"

text \<open>\<open>authorizationv1.ResourceRule\<close>\<close>

record ResourceRule =
  rr_Verbs :: "string list"
  rr_APIGroups :: "string list"
  rr_Resources :: "string list"

definition hasVerb :: "string list \<Rightarrow> string \<Rightarrow> bool" where
  "hasVerb verbs verb \<longleftrightarrow> List.member verbs verb \<or> List.member verbs ''*''"

definition hasGroup :: "string list \<Rightarrow> string \<Rightarrow> bool" where
  "hasGroup groups g \<longleftrightarrow> List.member groups g \<or> List.member groups ''*''"

definition hasResource :: "string list \<Rightarrow> string \<Rightarrow> bool" where
  "hasResource resources resource \<longleftrightarrow> List.member resources resource \<or> List.member resources ''*''"

definition ruleMatches :: "ResourceRule \<Rightarrow> permission \<Rightarrow> bool" where
  "ruleMatches rule p =
     (if \<not> hasVerb (rr_Verbs rule) (prm_verb p) then False
      else if \<not> hasGroup (rr_APIGroups rule) (prm_group p) then False
      else if \<not> hasResource (rr_Resources rule) (prm_resource p) then False
      else True)"

datatype startup_log =
    RBACCheckStarted duration
  | MissingPermission permission
  | RBACCheckFailed apierr
  | PermissionRemoved permission
  | PermissionAdded permission
  | CRDNotFound string
  | CRDVersionNotServed string string
  | CRDVersionMismatch string string "string list"

text \<open>The keys of the permissions some rule covers, a set in the source.\<close>

definition coveredKeys :: "ResourceRule list \<Rightarrow> string list" where
  "coveredKeys rules =
     foldl (\<lambda>covered rule. foldl (\<lambda>covered p. if ruleMatches rule p then List.insert (rbacKey p) covered else covered)
       covered expectedPerms) [] rules"

definition CheckRBAC :: "apierr + ResourceRule list \<Rightarrow> (apierr + permission list) \<times> startup_log list" where
  "CheckRBAC review =
     (case review of
        Inl err \<Rightarrow> (Inl err, [])
      | Inr rules \<Rightarrow>
          let covered = coveredKeys rules;
              missing = filter (\<lambda>p. rbacKey p \<notin> set covered) expectedPerms
          in (Inr missing, map MissingPermission missing))"

definition permissionState :: "permission list \<Rightarrow> (string, bool) gomap" where
  "permissionState missing =
     foldl (\<lambda>m p. AList.update (rbacKey p) False m)
       (foldl (\<lambda>m p. AList.update (rbacKey p) True m) [] expectedPerms) missing"

definition stateChanges :: "(string, bool) gomap \<Rightarrow> (string, bool) gomap \<Rightarrow> startup_log list" where
  "stateChanges lastState currentState =
     concat (map (\<lambda>p. let was = mget False lastState (rbacKey p); is = mget False currentState (rbacKey p)
                      in if was \<and> \<not> is then [PermissionRemoved p] else if \<not> was \<and> is then [PermissionAdded p] else [])
       expectedPerms)"

text \<open>One tick of \<open>RbacCheckRunnable\<close>; \<open>None\<close> is the nil state before the first check.\<close>

definition rbacTick ::
  "apierr + ResourceRule list \<Rightarrow> (string, bool) gomap option \<Rightarrow> (string, bool) gomap option \<times> startup_log list" where
  "rbacTick review lastState =
     (case CheckRBAC review of
        (Inl err, l) \<Rightarrow> (lastState, l @ [RBACCheckFailed err])
      | (Inr missing, l) \<Rightarrow>
          let currentState = permissionState missing
          in (Some currentState, l @ (case lastState of None \<Rightarrow> [] | Some old \<Rightarrow> stateChanges old currentState)))"

text \<open>
  \<open>RbacCheckRunnable\<close> and its loop.  The list of events is what the \<open>select\<close> receives, one by one: the end of
  the context, or a tick, with the answer to the review the tick asks for.  After the events of the list
  the loop waits.  \<open>time.NewTicker\<close> panics if the interval is not positive.
\<close>

record RbacCheckRunnable =
  rcr_Interval :: duration
  rcr_lastState :: "(string, bool) gomap option"

datatype rbac_event = Cancelled | Ticked "apierr + ResourceRule list"

datatype outcome = Waiting | Returned string | Panicked

fun rbacLoop ::
  "rbac_event list \<Rightarrow> RbacCheckRunnable \<Rightarrow> outcome \<times> RbacCheckRunnable \<times> startup_log list" where
  "rbacLoop [] r = (Waiting, r, [])"
| "rbacLoop (Cancelled # evs) r = (Returned ''context canceled'', r, [])"
| "rbacLoop (Ticked review # evs) r =
     (let (st, l) = rbacTick review (rcr_lastState r);
          (out, r, l') = rbacLoop evs (r\<lparr>rcr_lastState := st\<rparr>)
      in (out, r, l @ l'))"

definition Start_RbacCheck :: "rbac_event list \<Rightarrow> RbacCheckRunnable \<Rightarrow> outcome \<times> RbacCheckRunnable \<times> startup_log list" where
  "Start_RbacCheck evs r =
     (let started = RBACCheckStarted (rcr_Interval r)
      in if sint (rcr_Interval r) \<le> 0 then (Panicked, r, [started])
         else (let (out, r, l) = rbacLoop evs r in (out, r, started # l)))"

section \<open>crd.go\<close>

record CRDVersion =
  cv_Name :: string
  cv_Served :: bool

record CRD =
  crd_Name :: string
  crd_Versions :: "CRDVersion list"

definition managedCRDs :: "(string \<times> string) list" where
  "managedCRDs =
     [(''runners.runners.runner-operator.io'', ''v1alpha1''),
      (''workflows.runners.runner-operator.io'', ''v1alpha1''),
      (''eventtriggers.runners.runner-operator.io'', ''v1alpha1'')]"

definition crdVersions :: "CRD \<Rightarrow> string list" where
  "crdVersions crd = map cv_Name (crd_Versions crd)"

text \<open>The loop over the versions: whether the expected one was found, and the warnings.\<close>

fun scanVersions :: "string \<Rightarrow> string \<Rightarrow> bool \<Rightarrow> CRDVersion list \<Rightarrow> bool \<times> startup_log list" where
  "scanVersions name version found [] = (found, [])"
| "scanVersions name version found (v # vs) =
     (if cv_Name v = version
      then (if cv_Served v then (True, [])
            else (let (found, l) = scanVersions name version True vs in (found, CRDVersionNotServed name version # l)))
      else scanVersions name version found vs)"

definition checkCRD :: "(string, CRD) gomap \<Rightarrow> string \<times> string \<Rightarrow> startup_log list" where
  "checkCRD crdByName expected =
     (case expected of (name, version) \<Rightarrow>
        (case map_of crdByName name of
           None \<Rightarrow> [CRDNotFound name]
         | Some crd \<Rightarrow>
             let (versionFound, l) = scanVersions name version False (crd_Versions crd)
             in l @ (if \<not> versionFound then [CRDVersionMismatch name version (crdVersions crd)] else [])))"

definition CheckCRDs :: "apierr + CRD list \<Rightarrow> string option \<times> startup_log list" where
  "CheckCRDs listing =
     (case listing of
        Inl err \<Rightarrow> (Some (''list CRDs: '' @ err_text err), [])
      | Inr items \<Rightarrow> (None, concat (map (checkCRD (index_by crd_Name items)) managedCRDs)))"

section \<open>Permissions\<close>

lemma keys_distinct: "distinct (map rbacKey expectedPerms)"
  by code_simp

lemma key_inj: "p \<in> set expectedPerms \<Longrightarrow> q \<in> set expectedPerms \<Longrightarrow> rbacKey p = rbacKey q \<longleftrightarrow> p = q"
  using keys_distinct by (auto simp: distinct_map inj_on_def)

lemma coveredKeys_set:
  "set (coveredKeys rules) = {rbacKey p | p. p \<in> set expectedPerms \<and> list_ex (\<lambda>rule. ruleMatches rule p) rules}"
proof -
  have inner: "set (foldl (\<lambda>covered p. if ruleMatches rule p then List.insert (rbacKey p) covered else covered) cs ps) =
      set cs \<union> {rbacKey p | p. p \<in> set ps \<and> ruleMatches rule p}" for rule cs ps
    by (induction ps arbitrary: cs) auto
  have "set (foldl (\<lambda>covered rule. foldl (\<lambda>covered p. if ruleMatches rule p then List.insert (rbacKey p) covered else covered)
       covered expectedPerms) cs rules) =
      set cs \<union> {rbacKey p | p. p \<in> set expectedPerms \<and> list_ex (\<lambda>rule. ruleMatches rule p) rules}" for cs
    by (induction rules arbitrary: cs) (auto simp: inner)
  then show ?thesis by (simp add: coveredKeys_def)
qed

text \<open>What is missing: the expected permissions no rule covers.\<close>

definition missing_of :: "ResourceRule list \<Rightarrow> permission list" where
  "missing_of rules = filter (\<lambda>p. \<not> list_ex (\<lambda>rule. ruleMatches rule p) rules) expectedPerms"

lemma CheckRBAC_missing: "CheckRBAC (Inr rules) = (Inr (missing_of rules), map MissingPermission (missing_of rules))"
proof -
  have "filter (\<lambda>p. rbacKey p \<notin> set (coveredKeys rules)) expectedPerms = missing_of rules"
    unfolding missing_of_def coveredKeys_set using key_inj by (auto intro!: filter_cong)
  then show ?thesis by (simp add: CheckRBAC_def Let_def)
qed

text \<open>A rule covers a permission when its verbs, groups and resources each contain the permission's or the wildcard.\<close>

lemma ruleMatches_iff:
  "ruleMatches rule p \<longleftrightarrow> (prm_verb p \<in> set (rr_Verbs rule) \<or> ''*'' \<in> set (rr_Verbs rule)) \<and>
     (prm_group p \<in> set (rr_APIGroups rule) \<or> ''*'' \<in> set (rr_APIGroups rule)) \<and>
     (prm_resource p \<in> set (rr_Resources rule) \<or> ''*'' \<in> set (rr_Resources rule))"
  by (simp add: ruleMatches_def hasVerb_def hasGroup_def hasResource_def)

lemma permissionState_lookup:
  assumes "p \<in> set expectedPerms" "set missing \<subseteq> set expectedPerms"
  shows "mget False (permissionState missing) (rbacKey p) \<longleftrightarrow> p \<notin> set missing"
proof -
  have upd: "mget False (foldl (\<lambda>m p. AList.update (rbacKey p) b m) m ps) k =
      (if k \<in> rbacKey ` set ps then b else mget False m k)" for b m ps k
    by (induction ps arbitrary: m) auto
  have "rbacKey p \<in> rbacKey ` set missing \<longleftrightarrow> p \<in> set missing"
    using assms key_inj by (auto simp: image_iff)
  with assms(1) show ?thesis by (simp add: permissionState_def upd)
qed

lemma stateChanges_exact:
  "stateChanges (permissionState (missing_of old)) (permissionState (missing_of new)) =
     concat (map (\<lambda>p. let was = list_ex (\<lambda>rule. ruleMatches rule p) old; is = list_ex (\<lambda>rule. ruleMatches rule p) new
       in if was \<and> \<not> is then [PermissionRemoved p] else if \<not> was \<and> is then [PermissionAdded p] else []) expectedPerms)"
proof -
  have "set (missing_of rules) \<subseteq> set expectedPerms" for rules by (auto simp: missing_of_def)
  then have "mget False (permissionState (missing_of rules)) (rbacKey p) \<longleftrightarrow> list_ex (\<lambda>rule. ruleMatches rule p) rules"
    if "p \<in> set expectedPerms" for rules p
    using permissionState_lookup [OF that, of "missing_of rules"] that by (simp add: missing_of_def)
  then show ?thesis unfolding stateChanges_def by (intro arg_cong [of _ _ concat] map_cong refl) simp
qed

text \<open>The rules of the last review that succeeded.\<close>

fun last_rules :: "rbac_event list \<Rightarrow> ResourceRule list option" where
  "last_rules [] = None"
| "last_rules (ev # evs) =
     (case last_rules evs of
        Some rules \<Rightarrow> Some rules
      | None \<Rightarrow> (case ev of Ticked (Inr rules) \<Rightarrow> Some rules | _ \<Rightarrow> None))"

lemma rbacTick_state:
  "rbacTick (Inl err) st = (st, [RBACCheckFailed err])"
  "rbacTick (Inr rules) st = (Some (permissionState (missing_of rules)), map MissingPermission (missing_of rules) @
     (case st of None \<Rightarrow> [] | Some old \<Rightarrow> stateChanges old (permissionState (missing_of rules))))"
  by (simp add: rbacTick_def CheckRBAC_def) (simp add: rbacTick_def CheckRBAC_missing Let_def)

text \<open>The loop is a left fold: what it has logged stays, and its state is that of the last review.\<close>

lemma rbacLoop_append:
  assumes "Cancelled \<notin> set evs"
  shows "rbacLoop (evs @ evs') r =
    (case rbacLoop evs r of (_, r', l) \<Rightarrow> case rbacLoop evs' r' of (out, r'', l') \<Rightarrow> (out, r'', l @ l'))"
  using assms
proof (induction evs arbitrary: r)
  case (Cons ev evs)
  then obtain review where "ev = Ticked review" by (cases ev) auto
  then show ?case using Cons by (simp add: Let_def split_beta)
qed simp

lemma rbacLoop_state:
  assumes "Cancelled \<notin> set evs" "rbacLoop evs r = (out, r', l)"
  shows "out = Waiting" "rcr_Interval r' = rcr_Interval r"
    "rcr_lastState r' = (case last_rules evs of None \<Rightarrow> rcr_lastState r | Some rules \<Rightarrow> Some (permissionState (missing_of rules)))"
proof -
  have "out = Waiting \<and> rcr_Interval r' = rcr_Interval r \<and>
    rcr_lastState r' = (case last_rules evs of None \<Rightarrow> rcr_lastState r | Some rules \<Rightarrow> Some (permissionState (missing_of rules)))"
    using assms
  proof (induction evs arbitrary: r l)
    case (Cons ev evs)
    then obtain review where ev: "ev = Ticked review" by (cases ev) auto
    obtain st l1 where t: "rbacTick review (rcr_lastState r) = (st, l1)" by (cases "rbacTick review (rcr_lastState r)")
    obtain l2 where "rbacLoop evs (r\<lparr>rcr_lastState := st\<rparr>) = (out, r', l2)"
      using Cons.prems(2) ev t by (cases "rbacLoop evs (r\<lparr>rcr_lastState := st\<rparr>)") auto
    moreover have "st = (case review of Inl _ \<Rightarrow> rcr_lastState r | Inr rules \<Rightarrow> Some (permissionState (missing_of rules)))"
      using t by (cases review) (auto simp: rbacTick_state)
    ultimately show ?case using Cons.IH [of "r\<lparr>rcr_lastState := st\<rparr>" l2] Cons.prems(1) ev by (cases review) (auto split: option.splits)
  qed simp
  then show "out = Waiting" "rcr_Interval r' = rcr_Interval r"
    "rcr_lastState r' = (case last_rules evs of None \<Rightarrow> rcr_lastState r | Some rules \<Rightarrow> Some (permissionState (missing_of rules)))"
    by blast+
qed

text \<open>
  C33. The periodic permission check over any history of ticks: a tick whose review succeeds adds to what
  was logged exactly the expected permissions that no rule covers, and then, for each expected
  permission in order, that it was removed if the last successful review covered it and this one does
  not, and that it was added in the opposite case; a failed review is reported and changes nothing; at
  the end of the context the loop returns at once.
\<close>

theorem rbac_check_history:
  assumes "Cancelled \<notin> set evs" "sint (rcr_Interval r) > 0" "rcr_lastState r = None"
  shows "let covered = (\<lambda>rules p. list_ex (\<lambda>rule. (prm_verb p \<in> set (rr_Verbs rule) \<or> ''*'' \<in> set (rr_Verbs rule)) \<and>
        (prm_group p \<in> set (rr_APIGroups rule) \<or> ''*'' \<in> set (rr_APIGroups rule)) \<and>
        (prm_resource p \<in> set (rr_Resources rule) \<or> ''*'' \<in> set (rr_Resources rule))) rules);
      logged = (\<lambda>evs. snd (snd (Start_RbacCheck evs r)))
    in fst (Start_RbacCheck evs r) = Waiting \<and>
       logged (evs @ [Ticked (Inr rules)]) = logged evs @
         map MissingPermission (filter (\<lambda>p. \<not> covered rules p) expectedPerms) @
         (case last_rules evs of None \<Rightarrow> []
          | Some old \<Rightarrow> concat (map (\<lambda>p. if covered old p \<and> \<not> covered rules p then [PermissionRemoved p]
              else if \<not> covered old p \<and> covered rules p then [PermissionAdded p] else []) expectedPerms)) \<and>
       logged (evs @ [Ticked (Inl err)]) = logged evs @ [RBACCheckFailed err] \<and>
       fst (Start_RbacCheck (evs @ Cancelled # rest) r) = Returned ''context canceled'' \<and> logged (evs @ Cancelled # rest) = logged evs"
proof -
  obtain out r' l where l: "rbacLoop evs r = (out, r', l)" by (cases "rbacLoop evs r")
  note st = rbacLoop_state [OF assms(1) l]
  have start: "Start_RbacCheck es r = (let (out, r', l) = rbacLoop es r in (out, r', RBACCheckStarted (rcr_Interval r) # l))" for es
    using assms(2) by (simp add: Start_RbacCheck_def)
  show ?thesis
    unfolding Let_def ruleMatches_iff [symmetric] missing_of_def [symmetric]
    using st assms(3)
    by (cases "last_rules evs") (simp_all add: start l rbacLoop_append [OF assms(1)] rbacTick_state stateChanges_exact Let_def)
qed

text \<open>Two reviews with a failure between them: the right to create jobs is lost.\<close>

theorem rbac_check_history_witness:
  "let all = \<lparr>rr_Verbs = [''*''], rr_APIGroups = [''*''], rr_Resources = [''*'']\<rparr>;
       r = \<lparr>rcr_Interval = seconds 300, rcr_lastState = None\<rparr>;
       evs = [Ticked (Inr [all]), Ticked (Inl (OtherErr ''timeout''))]
   in PermissionRemoved (perm ''batch'' ''jobs'' ''create'') \<in> set (snd (snd (Start_RbacCheck (evs @ [Ticked (Inr [])]) r)))"
proof -
  define all where "all = \<lparr>rr_Verbs = [''*''], rr_APIGroups = [''*''], rr_Resources = [''*'']\<rparr>"
  define r where "r = \<lparr>rcr_Interval = seconds 300, rcr_lastState = None\<rparr>"
  have "Cancelled \<notin> set [Ticked (Inr [all]), Ticked (Inl (OtherErr ''timeout''))]" "sint (rcr_Interval r) > 0" "rcr_lastState r = None"
    by (simp_all add: r_def seconds_def)
  moreover have "perm ''batch'' ''jobs'' ''create'' \<in> set expectedPerms" by code_simp
  ultimately show ?thesis
    using rbac_check_history [of "[Ticked (Inr [all]), Ticked (Inl (OtherErr ''timeout''))]" r "[]" undefined "[]"]
    unfolding Let_def all_def [symmetric] r_def [symmetric] by (force simp: all_def)
qed

text \<open>
  The expected permissions name the group \<open>runners.runners.runner-operator.io\<close>; the API group of the
  custom resources is \<open>runners.runner-operator.io\<close>.  So a cluster that grants exactly the rights the
  operator needs, without wildcards, is reported as lacking all thirty of them.
\<close>

lemma own_permissions_reported_missing:
  assumes "list_all (\<lambda>rule. ''*'' \<notin> set (rr_APIGroups rule) \<and> ''runners.runners.runner-operator.io'' \<notin> set (rr_APIGroups rule)) rules"
  shows "\<exists>missing. CheckRBAC (Inr rules) = (Inr missing, map MissingPermission missing) \<and>
    length (filter (\<lambda>p. prm_group p = ''runners.runners.runner-operator.io'') missing) = 30"
proof -
  have "\<not> list_ex (\<lambda>rule. ruleMatches rule p) rules" if "prm_group p = ''runners.runners.runner-operator.io''" for p
    using assms that by (auto simp: list_ex_iff list_all_iff ruleMatches_def hasGroup_def split: if_splits)
  then have "filter (\<lambda>p. prm_group p = ''runners.runners.runner-operator.io'') (missing_of rules) =
      filter (\<lambda>p. prm_group p = ''runners.runners.runner-operator.io'') expectedPerms"
    unfolding missing_of_def filter_filter by (intro filter_cong refl) auto
  moreover have "length (filter (\<lambda>p. prm_group p = ''runners.runners.runner-operator.io'') expectedPerms) = 30"
    by code_simp
  ultimately show ?thesis by (simp add: CheckRBAC_missing)
qed

section \<open>Resource definitions\<close>

lemma scanVersions_spec:
  "fst (scanVersions name version found vs) = (found \<or> version \<in> set (map cv_Name vs))"
  "snd (scanVersions name version found vs) = [] \<longleftrightarrow>
     (case find (\<lambda>v. cv_Name v = version) vs of None \<Rightarrow> True | Some v \<Rightarrow> cv_Served v)"
  by (induction vs arbitrary: found) (auto simp: Let_def split_beta)

text \<open>
  The check of the resource definitions is silent exactly when everything is in place: each of
  the three definitions is installed and serves the expected version.
\<close>

lemma CheckCRDs_silent_iff:
  "snd (CheckCRDs (Inr items)) = [] \<longleftrightarrow>
     list_all (\<lambda>(name, version).
       case find (\<lambda>crd. crd_Name crd = name) (rev items) of
         None \<Rightarrow> False
       | Some crd \<Rightarrow> (case find (\<lambda>v. cv_Name v = version) (crd_Versions crd) of None \<Rightarrow> False | Some v \<Rightarrow> cv_Served v))
     managedCRDs"
proof -
  have "checkCRD (index_by crd_Name items) x = [] \<longleftrightarrow>
      (case x of (name, version) \<Rightarrow> case find (\<lambda>crd. crd_Name crd = name) (rev items) of
         None \<Rightarrow> False
       | Some crd \<Rightarrow> (case find (\<lambda>v. cv_Name v = version) (crd_Versions crd) of None \<Rightarrow> False | Some v \<Rightarrow> cv_Served v))" for x
  proof -
    obtain name version where x: "x = (name, version)" by (cases x)
    have found: "find (\<lambda>v. cv_Name v = version) vs = Some v \<Longrightarrow> version \<in> cv_Name ` set vs"
      "find (\<lambda>v. cv_Name v = version) vs = None \<Longrightarrow> version \<notin> cv_Name ` set vs" for vs v
      by (auto simp: find_None_iff dest: find_SomeD)
    show ?thesis
    proof (cases "find (\<lambda>crd. crd_Name crd = name) (rev items)")
      case None
      then show ?thesis by (simp add: x checkCRD_def map_of_index_by)
    next
      case (Some crd)
      have "checkCRD (index_by crd_Name items) x = [] \<longleftrightarrow>
          snd (scanVersions name version False (crd_Versions crd)) = [] \<and> fst (scanVersions name version False (crd_Versions crd))"
        using Some by (simp add: x checkCRD_def map_of_index_by Let_def split_beta)
      with Some show ?thesis
        using found [of "crd_Versions crd"]
        by (cases "find (\<lambda>v. cv_Name v = version) (crd_Versions crd)") (simp_all add: x scanVersions_spec)
    qed
  qed
  then show ?thesis by (simp add: CheckCRDs_def list_all_iff)
qed

end
