(* ===== verification/Access.thy ===== *)
theory Access
  imports Workflow_Controller Runner_Controller EventTrigger_Controller
begin

text \<open>
  Which requests a controller makes of the API server, reads included.  Two environments that agree on
  the requests a controller is known to make cannot be told apart by it: a pass has the same result and the
  same effects in both.  Each controller has a locale with the requests it may make; a controller that
  asked for anything else would break the lemma of its locale.
\<close>

section \<open>What all controllers use\<close>

locale shared_access =
  fixes e e' :: env
  assumes clock: "e_clock e' = e_clock e"
    and condition: "e_SetStatusCondition e' = e_SetStatusCondition e"
    and owner: "e_SetControllerReference e' = e_SetControllerReference e"
    and marshal: "e_MarshalSpec e' = e_MarshalSpec e"
begin

lemma Now_same: "Now e' = Now e"
  by (intro ext) (simp only: Now_def clock)

lemma conditions_same:
  "setRunnerCondition e' = setRunnerCondition e" "setWorkflowCondition e' = setWorkflowCondition e"
  "setTriggerCondition e' = setTriggerCondition e"
  by (intro ext; simp only: setRunnerCondition_def setWorkflowCondition_def setTriggerCondition_def Now_same condition)+

lemmas library_same = clock condition owner marshal Now_same conditions_same

end

section \<open>The Runner controller\<close>

text \<open>It reads Runners, Jobs and secrets, creates and deletes Jobs and patches the status of Runners.\<close>

locale runner_access = shared_access +
  assumes get_runner: "e_GetRunner e' = e_GetRunner e"
    and get_job: "e_GetJob e' = e_GetJob e"
    and get_secret: "e_GetSecret e' = e_GetSecret e"
    and create_job: "e_Create e' w (OJob j) = e_Create e w (OJob j)"
    and delete_job: "e_Delete e' w (OJob j) = e_Delete e w (OJob j)"
    and patch_runner: "e_PatchRunner e' = e_PatchRunner e"
begin

lemma requests_same:
  "do_Create e' (OJob j) = do_Create e (OJob j)" "do_Delete e' (OJob j) = do_Delete e (OJob j)"
  "do_PatchRunner e' = do_PatchRunner e"
  by (intro ext; simp only: do_Create_def do_Delete_def do_PatchRunner_def create_job delete_job patch_runner)+

lemmas runner_same = library_same get_runner get_job get_secret requests_same

lemma parts_same:
  "computeSpecHash e' = computeSpecHash e" "validateGitRepoSecret e' = validateGitRepoSecret e" "patchRunner e' = patchRunner e"
  "rejectRunner e' = rejectRunner e" "startRunner e' = startRunner e" "clearDrift e' = clearDrift e" "reportPhase e' = reportPhase e"
  by (intro ext; simp only: computeSpecHash_def validateGitRepoSecret_def patchRunner_def rejectRunner_def startRunner_def
      clearDrift_def reportPhase_def runner_same)+

lemma drift_same: "deferDrift e' = deferDrift e" "replaceJob e' = replaceJob e"
  by (intro ext; simp only: deferDrift_def replaceJob_def runner_same parts_same)+

lemma passes_same: "handleDrift e' = handleDrift e" "updateStatusFromJob e' = updateStatusFromJob e"
  by (intro ext; simp only: handleDrift_def updateStatusFromJob_def runner_same parts_same drift_same)+

lemma Reconcile_Runner_same: "Reconcile_Runner e' = Reconcile_Runner e"
  by (intro ext) (simp only: Reconcile_Runner_def runner_same parts_same passes_same)

end

section \<open>The Workflow controller\<close>

text \<open>
  It reads Workflows, Runners, the namespace, the pods of a Runner and their logs, creates and deletes
  Runners and patches the status of Workflows.
\<close>

locale workflow_access = shared_access +
  assumes get_workflow: "e_GetWorkflow e' = e_GetWorkflow e"
    and list_workflows: "e_ListWorkflows e' = e_ListWorkflows e"
    and get_runner: "e_GetRunner e' = e_GetRunner e"
    and list_runners: "e_ListRunners e' = e_ListRunners e"
    and get_namespace: "e_GetNamespaceAnnotations e' = e_GetNamespaceAnnotations e"
    and list_pods: "e_ListPods e' = e_ListPods e"
    and pod_logs: "e_PodLogs e' = e_PodLogs e"
    and create_runner: "e_Create e' w (ORunner r) = e_Create e w (ORunner r)"
    and delete_runner: "e_Delete e' w (ORunner r) = e_Delete e w (ORunner r)"
    and patch_workflow: "e_PatchWorkflow e' = e_PatchWorkflow e"
begin

lemma requests_same:
  "do_Create e' (ORunner r) = do_Create e (ORunner r)" "do_Delete e' (ORunner r) = do_Delete e (ORunner r)"
  "do_PatchWorkflow e' = do_PatchWorkflow e"
  by (intro ext; simp only: do_Create_def do_Delete_def do_PatchWorkflow_def create_runner delete_runner patch_workflow)+

lemmas workflow_same = library_same get_workflow list_workflows get_runner list_runners get_namespace list_pods pod_logs requests_same

lemma tables_same:
  "advanceStepStatus e' = advanceStepStatus e" "newStepStatus e' = newStepStatus e"
  "advanceJobStatus e' = advanceJobStatus e" "newJobStatus e' = newJobStatus e"
  by (intro ext; simp only: advanceStepStatus_def newStepStatus_def advanceJobStatus_def newJobStatus_def workflow_same)+

lemma upserts_same: "upsertStepStatus e' = upsertStepStatus e" "upsertJobStatus e' = upsertJobStatus e"
  by (intro ext; simp only: upsertStepStatus_def upsertJobStatus_def workflow_same tables_same)+

lemma step_parts_same:
  "buildStepRunner e' = buildStepRunner e" "retryBackoffElapsed e' = retryBackoffElapsed e"
  "fetchPodLogs e' = fetchPodLogs e" "startStep e' = startStep e"
  by (intro ext; simp only: buildStepRunner_def retryBackoffElapsed_def fetchPodLogs_def startStep_def workflow_same upserts_same)+

lemma step_track_same:
  "buildJobStepRunner e' = buildJobStepRunner e" "retryStep e' = retryStep e" "recordStep e' = recordStep e"
  by (intro ext; simp only: buildJobStepRunner_def retryStep_def recordStep_def workflow_same upserts_same step_parts_same)+

lemma trackStep_same: "trackStep e' = trackStep e"
  by (intro ext) (simp only: trackStep_def workflow_same step_parts_same step_track_same)

lemma reconcileStep_same: "reconcileStep e' = reconcileStep e"
  by (intro ext) (simp only: reconcileStep_def workflow_same upserts_same step_parts_same trackStep_same)

lemma reconcileStepLoop_same: "reconcileStepLoop e' = reconcileStepLoop e"
  by (intro ext) (simp only: reconcileStepLoop_def reconcileStep_same)

lemma reconcileSteps_same: "reconcileSteps e' = reconcileSteps e"
  by (intro ext) (simp only: reconcileSteps_def reconcileStepLoop_same step_parts_same)

lemma guards_same:
  "listStepRunners e' = listStepRunners e" "maxConcurrentWorkflowsForNS e' = maxConcurrentWorkflowsForNS e"
  "patchWorkflow e' = patchWorkflow e" "failTimedOut e' = failTimedOut e" "timeoutElapsed e' = timeoutElapsed e"
  "startWorkflow e' = startWorkflow e" "changePhase e' = changePhase e" "completeWorkflow e' = completeWorkflow e"
  "requeueForTimeout e' = requeueForTimeout e"
  by (intro ext; simp only: listStepRunners_def maxConcurrentWorkflowsForNS_def patchWorkflow_def failTimedOut_def timeoutElapsed_def
      startWorkflow_def changePhase_def completeWorkflow_def requeueForTimeout_def workflow_same upserts_same)+

lemma exits_same:
  "checkNamespaceQuota e' = checkNamespaceQuota e" "reportNotReady e' = reportNotReady e"
  "handleTimeoutFlat e' = handleTimeoutFlat e" "handleTimeoutJobs e' = handleTimeoutJobs e"
  by (intro ext; simp only: checkNamespaceQuota_def reportNotReady_def handleTimeoutFlat_def handleTimeoutJobs_def
      workflow_same upserts_same guards_same)+

lemma quota_same: "quotaExceeded e' = quotaExceeded e"
  by (intro ext) (simp only: quotaExceeded_def workflow_same guards_same exits_same)

lemma frame_same: "guardWorkflow e' = guardWorkflow e" "finishWorkflow e' = finishWorkflow e"
  by (intro ext; simp only: guardWorkflow_def finishWorkflow_def workflow_same guards_same exits_same quota_same)+

lemma flat_same: "runFlatWorkflow e' = runFlatWorkflow e" "reconcileFlatWorkflow e' = reconcileFlatWorkflow e"
proof -
  show run: "runFlatWorkflow e' = runFlatWorkflow e"
    by (intro ext) (simp only: runFlatWorkflow_def workflow_same guards_same exits_same frame_same reconcileSteps_same)
  show "reconcileFlatWorkflow e' = reconcileFlatWorkflow e"
    by (intro ext) (simp only: reconcileFlatWorkflow_def workflow_same guards_same exits_same frame_same run)
qed

lemma reconcileJobSteps_same: "reconcileJobSteps e' = reconcileJobSteps e"
  by (intro ext) (simp only: reconcileJobSteps_def reconcileStepLoop_same step_track_same)

lemma runJob_same: "runJob e' = runJob e"
  by (intro ext) (simp only: runJob_def upserts_same reconcileJobSteps_same)

lemma reconcileJob_same: "reconcileJob e' = reconcileJob e"
  by (intro ext) (simp only: reconcileJob_def upserts_same runJob_same)

lemma reconcileJobs_same: "reconcileJobs e' = reconcileJobs e"
  by (intro ext) (simp only: reconcileJobs_def reconcileJob_same)

lemma jobs_same: "runJobWorkflow e' = runJobWorkflow e" "reconcileJobWorkflow e' = reconcileJobWorkflow e"
proof -
  show run: "runJobWorkflow e' = runJobWorkflow e"
    by (intro ext) (simp only: runJobWorkflow_def workflow_same guards_same exits_same frame_same reconcileJobs_same)
  show "reconcileJobWorkflow e' = reconcileJobWorkflow e"
    by (intro ext) (simp only: reconcileJobWorkflow_def workflow_same guards_same exits_same frame_same run)
qed

lemma Reconcile_Workflow_same: "Reconcile_Workflow e' = Reconcile_Workflow e"
  by (intro ext) (simp only: Reconcile_Workflow_def workflow_same guards_same exits_same flat_same jobs_same)

end

section \<open>The EventTrigger controller and the webhook server\<close>

text \<open>
  They read triggers, secrets and the template of a Workflow, create Workflows and patch the status of
  triggers.
\<close>

locale trigger_access = shared_access +
  assumes get_trigger: "e_GetTrigger e' = e_GetTrigger e"
    and list_triggers: "e_ListTriggers e' = e_ListTriggers e"
    and get_secret: "e_GetSecret e' = e_GetSecret e"
    and get_workflow: "e_GetWorkflow e' = e_GetWorkflow e"
    and create_workflow: "e_Create e' w (OWorkflow W) = e_Create e w (OWorkflow W)"
    and patch_trigger: "e_PatchTrigger e' = e_PatchTrigger e"
begin

lemma requests_same: "do_Create e' (OWorkflow W) = do_Create e (OWorkflow W)" "do_PatchTrigger e' = do_PatchTrigger e"
  by (intro ext; simp only: do_Create_def do_PatchTrigger_def create_workflow patch_trigger)+

lemmas trigger_same = library_same get_trigger list_triggers get_secret get_workflow requests_same

lemma parts_same:
  "refuseTrigger e' = refuseTrigger e" "RegisterRoute e' = RegisterRoute e" "allow e' = allow e" "createWorkflow e' = createWorkflow e"
  by (intro ext; simp only: refuseTrigger_def RegisterRoute_def allow_def createWorkflow_def trigger_same)+

lemma server_parts_same: "registerTrigger e' = registerTrigger e" "checkRate e' = checkRate e" "deliver e' = deliver e"
  by (intro ext; simp only: registerTrigger_def checkRate_def deliver_def trigger_same parts_same)+

lemma Reconcile_Trigger_same: "Reconcile_Trigger e' = Reconcile_Trigger e" "mapSecretToTriggers e' = mapSecretToTriggers e"
  by (intro ext; simp only: Reconcile_Trigger_def mapSecretToTriggers_def trigger_same parts_same server_parts_same)+

lemma handleRequest_same: "handleRequest e' = handleRequest e"
  by (intro ext) (simp only: handleRequest_def trigger_same parts_same server_parts_same)

end

end
