(* ===== verification/Permissions.thy ===== *)
theory Permissions
  imports Wiring Startup Access
begin

text \<open>
  The permissions of the operator: the \<open>+kubebuilder:rbac\<close> markers above the three \<open>Reconcile\<close>, from which
  its role is generated, against every request the controllers and the webhook server make, reads
  included, and against the list of permissions \<open>internal/startup\<close> expects.  The API group and the registered kinds are those of
  \<open>api/v1alpha1\<close>.
\<close>

section \<open>The API group\<close>

definition SchemeGroupVersion :: "string \<times> string" where
  "SchemeGroupVersion = (''runners.runner-operator.io'', ''v1alpha1'')"

text \<open>What the three \<open>init\<close> functions register, and the schemes \<open>init\<close> of \<open>main\<close> puts together.\<close>

definition register_Runner :: "string list" where
  "register_Runner = [''Runner'', ''RunnerList'']"

definition register_Workflow :: "string list" where
  "register_Workflow = [''Workflow'', ''WorkflowList'']"

definition register_EventTrigger :: "string list" where
  "register_EventTrigger = [''EventTrigger'', ''EventTriggerList'']"

type_synonym gvk = "(string \<times> string) \<times> string"

definition AddToScheme :: "gvk list \<Rightarrow> gvk list" where
  "AddToScheme scheme = scheme @ map (Pair SchemeGroupVersion) (register_EventTrigger @ register_Runner @ register_Workflow)"

text \<open>The other two schemes are parameters: the kinds of \<open>client-go\<close> and of \<open>apiextensions\<close>.\<close>

definition main_scheme :: "gvk list \<Rightarrow> gvk list \<Rightarrow> gvk list" where
  "main_scheme clientgo apiextensions = AddToScheme ((([] @ clientgo) @ apiextensions))"

section \<open>The markers\<close>

definition marker :: "string \<Rightarrow> string \<Rightarrow> string list \<Rightarrow> ResourceRule" where
  "marker g r vs = \<lparr>rr_Verbs = vs, rr_APIGroups = [g], rr_Resources = [r]\<rparr>"

text \<open>The group \<open>core\<close> of a marker is the empty group of a rule.\<close>

definition Runner_markers :: "ResourceRule list" where
  "Runner_markers = [
     marker ''runners.runner-operator.io'' ''runners'' [''get'', ''list'', ''watch'', ''create'', ''update'', ''patch'', ''delete''],
     marker ''runners.runner-operator.io'' ''runners/status'' [''get'', ''update'', ''patch''],
     marker ''batch'' ''jobs'' [''get'', ''list'', ''watch'', ''create'', ''update'', ''patch'', ''delete''],
     marker ''batch'' ''jobs/status'' [''get''],
     marker [] ''pods'' [''get'', ''list'', ''watch'', ''delete''],
     marker [] ''secrets'' [''get''],
     marker [] ''events'' [''create'', ''patch''],
     marker ''apiextensions.k8s.io'' ''customresourcedefinitions'' [''get'', ''list'', ''watch''],
     marker [] ''namespaces'' [''get'', ''list'', ''watch'']]"

definition Workflow_markers :: "ResourceRule list" where
  "Workflow_markers = [
     marker ''runners.runner-operator.io'' ''workflows'' [''get'', ''list'', ''watch'', ''create'', ''update'', ''patch'', ''delete''],
     marker ''runners.runner-operator.io'' ''workflows/status'' [''get'', ''update'', ''patch''],
     marker ''runners.runner-operator.io'' ''runners'' [''get'', ''list'', ''watch'', ''create'', ''update'', ''patch'', ''delete''],
     marker ''runners.runner-operator.io'' ''runners/status'' [''get''],
     marker [] ''events'' [''create'', ''patch''],
     marker [] ''pods'' [''get'', ''list'', ''watch''],
     marker [] ''pods/log'' [''get''],
     marker [] ''namespaces'' [''get'', ''list'', ''watch'']]"

definition EventTrigger_markers :: "ResourceRule list" where
  "EventTrigger_markers = [
     marker ''runners.runner-operator.io'' ''eventtriggers'' [''get'', ''list'', ''watch'', ''create'', ''update'', ''patch'', ''delete''],
     marker ''runners.runner-operator.io'' ''eventtriggers/status'' [''get'', ''update'', ''patch''],
     marker ''runners.runner-operator.io'' ''workflows'' [''get'', ''list'', ''watch'', ''create''],
     marker [] ''namespaces'' [''get'', ''list'', ''watch''],
     marker [] ''secrets'' [''get'', ''list'', ''watch''],
     marker [] ''events'' [''create'', ''patch'']]"

lemmas markers_defs = Runner_markers_def Workflow_markers_def EventTrigger_markers_def marker_def

text \<open>The role of the operator has the rules of all markers.\<close>

definition manager_role :: "ResourceRule list" where
  "manager_role = Runner_markers @ Workflow_markers @ EventTrigger_markers"

section \<open>Authorization\<close>

fun resource_of :: "kind \<Rightarrow> string \<times> string" where
  "resource_of RunnerKind = (fst SchemeGroupVersion, ''runners'')"
| "resource_of WorkflowKind = (fst SchemeGroupVersion, ''workflows'')"
| "resource_of EventTriggerKind = (fst SchemeGroupVersion, ''eventtriggers'')"
| "resource_of JobKind = (''batch'', ''jobs'')"
| "resource_of SecretKind = ([], ''secrets'')"

definition on_kind :: "kind \<Rightarrow> string \<Rightarrow> string \<Rightarrow> permission" where
  "on_kind k sub verb = perm (fst (resource_of k)) (snd (resource_of k) @ sub) verb"

definition granted :: "ResourceRule list \<Rightarrow> permission \<Rightarrow> bool" where
  "granted rules p \<longleftrightarrow> list_ex (\<lambda>rule. ruleMatches rule p) rules"

text \<open>
  An API server that lets a client with the given rules through: a request the rules do not grant is
  refused before it reaches the server behind it.
\<close>

definition checked :: "ResourceRule list \<Rightarrow> permission \<Rightarrow> apierr + 'a \<Rightarrow> apierr + 'a" where
  "checked rules p answer = (if granted rules p then answer else Inl (OtherErr ''forbidden''))"

definition authorize :: "ResourceRule list \<Rightarrow> env \<Rightarrow> env" where
  "authorize rules e = e\<lparr>
     e_GetRunner := \<lambda>w nn. checked rules (on_kind RunnerKind [] ''get'') (e_GetRunner e w nn),
     e_GetJob := \<lambda>w nn. checked rules (on_kind JobKind [] ''get'') (e_GetJob e w nn),
     e_GetSecret := \<lambda>w nn. checked rules (on_kind SecretKind [] ''get'') (e_GetSecret e w nn),
     e_GetWorkflow := \<lambda>w nn. checked rules (on_kind WorkflowKind [] ''get'') (e_GetWorkflow e w nn),
     e_GetNamespaceAnnotations := \<lambda>w ns. checked rules (perm [] ''namespaces'' ''get'') (e_GetNamespaceAnnotations e w ns),
     e_GetTrigger := \<lambda>w nn. checked rules (on_kind EventTriggerKind [] ''get'') (e_GetTrigger e w nn),
     e_ListRunners := \<lambda>w ns sel. checked rules (on_kind RunnerKind [] ''list'') (e_ListRunners e w ns sel),
     e_ListWorkflows := \<lambda>w ns. checked rules (on_kind WorkflowKind [] ''list'') (e_ListWorkflows e w ns),
     e_ListPods := \<lambda>w ns sel. checked rules (perm [] ''pods'' ''list'') (e_ListPods e w ns sel),
     e_ListTriggers := \<lambda>w. checked rules (on_kind EventTriggerKind [] ''list'') (e_ListTriggers e w),
     e_PodLogs := \<lambda>w ns pod c n. checked rules (perm [] ''pods/log'' ''get'') (e_PodLogs e w ns pod c n),
     e_Create := \<lambda>w x. if granted rules (on_kind (kind_of x) [] ''create'') then e_Create e w x else Some (OtherErr ''forbidden''),
     e_Delete := \<lambda>w x. if granted rules (on_kind (kind_of x) [] ''delete'') then e_Delete e w x else Some (OtherErr ''forbidden''),
     e_PatchRunner := \<lambda>w b r. checked rules (on_kind RunnerKind ''/status'' ''patch'') (e_PatchRunner e w b r),
     e_PatchWorkflow := \<lambda>w b W. checked rules (on_kind WorkflowKind ''/status'' ''patch'') (e_PatchWorkflow e w b W),
     e_PatchTrigger := \<lambda>w b t. checked rules (on_kind EventTriggerKind ''/status'' ''patch'') (e_PatchTrigger e w b t)\<rparr>"

lemmas granted_simps = granted_def ruleMatches_def hasVerb_def hasGroup_def hasResource_def on_kind_def perm_def SchemeGroupVersion_def

lemmas authorize_simps = authorize_def checked_def granted_simps markers_defs

interpretation runner_granted: runner_access e "authorize Runner_markers e" for e
  by unfold_locales (simp_all add: authorize_simps)

interpretation workflow_granted: workflow_access e "authorize Workflow_markers e" for e
  by unfold_locales (simp_all add: authorize_simps)

interpretation trigger_granted: trigger_access e "authorize EventTrigger_markers e" for e
  by unfold_locales (simp_all add: authorize_simps)

text \<open>A kind that is watched, or read through the cache of the manager, is listed and watched.\<close>

definition watch_needs :: "Watches \<Rightarrow> permission list" where
  "watch_needs v = concat (map (\<lambda>k. map (on_kind k []) [''get'', ''list'', ''watch'']) (wt_For v # wt_Owns v @ wt_Watches v))"

definition cache_needs :: "permission list" where
  "cache_needs = concat (map (\<lambda>r. map (perm [] r) [''get'', ''list'', ''watch'']) [''namespaces'', ''pods''])"

text \<open>
  C15. The markers ask for every right the operator uses.  Against an API server that refuses each
  request the markers of a controller do not grant (every get, list, create, delete and status patch,
  the logs of pods included), a pass of that controller is the same as against one that refuses none,
  whatever the cluster holds; so is the watch on secrets and, with the markers of the EventTrigger
  controller, a webhook request.  All three sets of markers let events be created and patched, and the
  role made of them lets the manager watch each kind a controller watches or reads through the cache,
  and list the resource definitions at the start.
\<close>

theorem permissions_suffice:
  "Reconcile_Runner (authorize Runner_markers e) req w = Reconcile_Runner e req w \<and>
   Reconcile_Workflow (authorize Workflow_markers e) req w = Reconcile_Workflow e req w \<and>
   Reconcile_Trigger (authorize EventTrigger_markers e) req srv w = Reconcile_Trigger e req srv w \<and>
   mapSecretToTriggers (authorize EventTrigger_markers e) secret w = mapSecretToTriggers e secret w \<and>
   handleRequest (authorize EventTrigger_markers e) h rq srv w = handleRequest e h rq srv w \<and>
   list_all (\<lambda>rules. granted rules (perm [] ''events'' ''create'') \<and> granted rules (perm [] ''events'' ''patch''))
     [Runner_markers, Workflow_markers, EventTrigger_markers] \<and>
   (case SetupWorkflow None of Inl _ \<Rightarrow> False
    | Inr v \<Rightarrow> list_all (granted manager_role)
        (watch_needs SetupRunner @ watch_needs v @ watch_needs SetupEventTrigger @ cache_needs)) \<and>
   granted manager_role (perm ''apiextensions.k8s.io'' ''customresourcedefinitions'' ''list'')"
proof -
  have "list_all (granted manager_role) (watch_needs SetupRunner @
      watch_needs \<lparr>wt_For = WorkflowKind, wt_Owns = [RunnerKind], wt_Watches = [], wt_Named = ''workflow''\<rparr> @
      watch_needs SetupEventTrigger @ cache_needs)"
    by code_simp
  moreover have "list_all (\<lambda>rules. granted rules (perm [] ''events'' ''create'') \<and> granted rules (perm [] ''events'' ''patch''))
     [Runner_markers, Workflow_markers, EventTrigger_markers]" by code_simp
  moreover have "granted manager_role (perm ''apiextensions.k8s.io'' ''customresourcedefinitions'' ''list'')" by code_simp
  ultimately show ?thesis
    by (simp add: runner_granted.Reconcile_Runner_same workflow_granted.Reconcile_Workflow_same
        trigger_granted.Reconcile_Trigger_same trigger_granted.handleRequest_same SetupWorkflow_def)
qed

text \<open>
  On a cluster with this role the startup check reports the thirty permissions whose group it has
  wrong and nothing else.  It does not ask for the resource definitions, which \<open>CheckCRDs\<close> lists.
\<close>

lemma CheckRBAC_on_role:
  "fst (CheckRBAC (Inr manager_role)) = Inr (filter (\<lambda>p. prm_group p = ''runners.runners.runner-operator.io'') expectedPerms)"
proof -
  have "list_all (\<lambda>p. granted manager_role p \<longleftrightarrow> prm_group p \<noteq> ''runners.runners.runner-operator.io'') expectedPerms" by code_simp
  then have "missing_of manager_role = filter (\<lambda>p. prm_group p = ''runners.runners.runner-operator.io'') expectedPerms"
    unfolding missing_of_def granted_def list_all_iff by (intro filter_cong refl) simp
  then show ?thesis by (simp add: CheckRBAC_missing)
qed

lemma CRDs_not_expected:
  "granted manager_role (perm ''apiextensions.k8s.io'' ''customresourcedefinitions'' ''list'')"
  "list_all (\<lambda>p. prm_resource p \<noteq> ''customresourcedefinitions'') expectedPerms"
  by code_simp+

text \<open>The definitions the startup check looks for are those of the registered group, version and kinds.\<close>

lemma managedCRDs_registered:
  "managedCRDs = map (\<lambda>k. (snd (resource_of k) @ ''.'' @ fst SchemeGroupVersion, snd SchemeGroupVersion))
     [RunnerKind, WorkflowKind, EventTriggerKind]"
  by (simp add: managedCRDs_def SchemeGroupVersion_def)

lemma main_scheme_own:
  "list_all (\<lambda>n. (SchemeGroupVersion, n) \<in> set (main_scheme c a) \<and> (SchemeGroupVersion, n @ ''List'') \<in> set (main_scheme c a))
     [''Runner'', ''Workflow'', ''EventTrigger'']"
  by (simp add: main_scheme_def AddToScheme_def register_Runner_def register_Workflow_def register_EventTrigger_def)

end
