(* ===== verification/Server_Lifecycle.thy ===== *)
theory Server_Lifecycle
  imports Webhook_Properties
begin

text \<open>
  The life of the webhook server, \<open>Start\<close> of \<open>internal/webhook/events/server.go\<close>: the options of the HTTP
  server, the multiplexer in front of \<open>handleRequest\<close>, the request log around both, and when \<open>Start\<close>
  returns.  Of net/http, the calls on a response writer, \<open>http.Error\<close> and the cleaning of paths are
  modelled; the status and body of a redirect, which depend on the version of Go, are a parameter.  A CONNECT
  request, which has no path, is not modelled.
\<close>

section \<open>Response writers\<close>

datatype writer_call = WriteHeader int | Write string

text \<open>The status that is sent: the first \<open>WriteHeader\<close>, or 200 if a body is written before it or nothing at all.\<close>

fun sent_status :: "writer_call list \<Rightarrow> int" where
  "sent_status (WriteHeader code # _) = code"
| "sent_status _ = 200"

definition sent_body :: "writer_call list \<Rightarrow> string" where
  "sent_body calls = concat (map (\<lambda>c. case c of Write s \<Rightarrow> s | WriteHeader _ \<Rightarrow> []) calls)"

definition http_Error :: "string \<Rightarrow> int \<Rightarrow> writer_call list" where
  "http_Error msg code = [WriteHeader code, Write (msg @ [NL])]"

text \<open>What \<open>handleRequest\<close> calls: \<open>WriteHeader\<close> and \<open>Fprint\<close> at its end, \<open>http.Error\<close> before every other return.\<close>

definition reply :: "Response \<Rightarrow> writer_call list" where
  "reply rsp =
     (if rsp_Code rsp = 202 then [WriteHeader 202, Write (rsp_Body rsp)] else http_Error (rsp_Body rsp) (rsp_Code rsp))"

text \<open>The writer around the writer: it passes each call on and remembers the last status.\<close>

record loggingResponseWriter =
  lrw_statusCode :: int
  lrw_calls :: "writer_call list"

definition lrw_WriteHeader :: "int \<Rightarrow> loggingResponseWriter \<Rightarrow> loggingResponseWriter" where
  "lrw_WriteHeader code lrw = lrw\<lparr>lrw_statusCode := code, lrw_calls := lrw_calls lrw @ [WriteHeader code]\<rparr>"

fun lrw_call :: "writer_call \<Rightarrow> loggingResponseWriter \<Rightarrow> loggingResponseWriter" where
  "lrw_call (WriteHeader code) lrw = lrw_WriteHeader code lrw"
| "lrw_call (Write s) lrw = lrw\<lparr>lrw_calls := lrw_calls lrw @ [Write s]\<rparr>"

section \<open>Paths\<close>

text \<open>\<open>path.Clean\<close> of a rooted path, on its segments: empty ones and \<open>.\<close> vanish, \<open>..\<close> takes the one before it away.\<close>

fun resolve :: "string list \<Rightarrow> string list \<Rightarrow> string list" where
  "resolve acc [] = rev acc"
| "resolve acc (seg # segs) =
     (if seg = [] \<or> seg = ''.'' then resolve acc segs
      else if seg = ''..'' then resolve (tl acc) segs
      else resolve (seg # acc) segs)"

definition rooted :: "string list \<Rightarrow> string" where
  "rooted segs = (if segs = [] then ''/'' else concat (map (\<lambda>seg. CHR ''/'' # seg) segs))"

definition cleanPath :: "string \<Rightarrow> string" where
  "cleanPath p =
     (if p = [] then ''/''
      else
        let p = (if p ! 0 \<noteq> CHR ''/'' then CHR ''/'' # p else p);
            np = rooted (resolve [] (Split p CHR ''/''))
        in if p ! (length p - 1) = CHR ''/'' \<and> np \<noteq> ''/'' then np @ ''/'' else np)"

definition clean_segment :: "string \<Rightarrow> bool" where
  "clean_segment seg \<longleftrightarrow> seg \<noteq> [] \<and> seg \<noteq> ''.'' \<and> seg \<noteq> ''..'' \<and> CHR ''/'' \<notin> set seg"

lemma Split_segments: "list_all (\<lambda>seg. sep \<notin> set seg) (Split s sep)"
  by (induction s) (auto split: list.splits)

lemma resolve_clean:
  "list_all (\<lambda>seg. CHR ''/'' \<notin> set seg) segs \<Longrightarrow> list_all clean_segment acc \<Longrightarrow> list_all clean_segment (resolve acc segs)"
proof (induction segs arbitrary: acc)
  case (Cons seg segs)
  have "list_all clean_segment (tl acc)" using Cons.prems(2) by (cases acc) auto
  moreover have "seg = [] \<or> seg = ''.'' \<or> seg = ''..'' \<or> clean_segment seg" using Cons.prems(1) by (auto simp: clean_segment_def)
  ultimately show ?case using Cons by auto
qed (simp add: list_all_iff)

lemma resolve_id: "list_all clean_segment segs \<Longrightarrow> resolve acc (segs @ rest) = resolve (rev segs @ acc) rest"
  by (induction segs arbitrary: acc) (auto simp: clean_segment_def)

lemma Split_rooted:
  assumes "list_all clean_segment segs" "segs \<noteq> []"
  shows "Split (rooted segs) CHR ''/'' = [] # segs" "Split (rooted segs @ ''/'') CHR ''/'' = [] # segs @ [[]]"
proof -
  have "Split (x @ concat (map (\<lambda>seg. CHR ''/'' # seg) segs) @ t) CHR ''/'' = x # segs @ (if t = [] then [] else [[]])"
    if "CHR ''/'' \<notin> set x" "t = [] \<or> t = ''/''" for x t
    using that assms(1)
  proof (induction segs arbitrary: x)
    case Nil
    then show ?case using Split_append [of "CHR ''/''" x "[]"] by (auto simp: Split_none)
  next
    case (Cons seg segs)
    then show ?case using Split_append [of "CHR ''/''" x] by (simp add: clean_segment_def)
  qed
  from this [of "[]" "[]"] this [of "[]" "''/''"] assms(2)
  show "Split (rooted segs) CHR ''/'' = [] # segs" "Split (rooted segs @ ''/'') CHR ''/'' = [] # segs @ [[]]"
    by (simp_all add: rooted_def)
qed

text \<open>A cleaned path is clean: cleaning it again changes nothing.\<close>

lemma cleanPath_rooted:
  assumes "list_all clean_segment segs"
  shows "cleanPath (rooted segs) = rooted segs" "segs \<noteq> [] \<Longrightarrow> cleanPath (rooted segs @ ''/'') = rooted segs @ ''/''"
proof -
  have ends: "rooted segs ! 0 = CHR ''/''" "rooted segs \<noteq> []" by (cases segs; simp add: rooted_def)+
  have last: "rooted segs ! (length (rooted segs) - 1) \<noteq> CHR ''/''" if some: "segs \<noteq> []"
  proof -
    obtain ys y where y: "segs = ys @ [y]" using some by (cases segs rule: rev_cases) auto
    then have "clean_segment y" using assms by simp
    then have ne: "y \<noteq> []" "CHR ''/'' \<notin> set y" by (simp_all add: clean_segment_def)
    then have "last (rooted segs) \<noteq> CHR ''/''" using y last_in_set [of y] by (cases "last y = CHR ''/''") (auto simp: rooted_def)
    then show ?thesis using ends(2) by (simp add: last_conv_nth)
  qed
  have res: "resolve [] ([] # segs @ rest) = segs" if "rest = [] \<or> rest = [[]]" for rest
    using resolve_id [OF assms, of "[]" rest] that by auto
  show "cleanPath (rooted segs) = rooted segs"
  proof (cases "segs = []")
    case True
    then show ?thesis by (simp add: cleanPath_def rooted_def)
  next
    case False
    then show ?thesis using ends last res [of "[]"] Split_rooted(1) [OF assms] by (simp add: cleanPath_def Let_def)
  qed
  assume "segs \<noteq> []"
  then show "cleanPath (rooted segs @ ''/'') = rooted segs @ ''/''"
    using ends last res [of "[[]]"] Split_rooted(2) [OF assms] by (auto simp: cleanPath_def Let_def nth_append)
qed

lemma cleanPath_idem: "cleanPath (cleanPath p) = cleanPath p"
proof (cases "p = []")
  case True
  then show ?thesis by (simp add: cleanPath_def rooted_def)
next
  case False
  define q where "q = (if p ! 0 \<noteq> CHR ''/'' then CHR ''/'' # p else p)"
  define segs where "segs = resolve [] (Split q CHR ''/'')"
  have "list_all clean_segment segs" unfolding segs_def by (rule resolve_clean [OF Split_segments]) simp
  note clean = cleanPath_rooted [OF this]
  have "cleanPath p = (if q ! (length q - 1) = CHR ''/'' \<and> rooted segs \<noteq> ''/'' then rooted segs @ ''/'' else rooted segs)"
    using False by (simp add: cleanPath_def q_def segs_def Let_def)
  then show ?thesis using clean by (auto simp: rooted_def split: if_splits)
qed

section \<open>Serving a request\<close>

text \<open>A request with what the multiplexer reads of it; \<open>hr_Request\<close> is what \<open>handleRequest\<close> reads.\<close>

record HttpRequest =
  hr_Method :: string
  hr_RequestURI :: string
  hr_EscapedPath :: string
  hr_Request :: Request

text \<open>
  \<open>mux.HandleFunc("/", s.handleRequest)\<close>: the pattern matches every path, but a path that is not clean is
  answered by net/http with a redirect.  \<open>redirect\<close> gives the status and the body of that answer for the
  cleaned path; the escaping of the path in its Location header is the library's.  The result is what is
  called on the response writer.
\<close>

definition serveMux ::
  "(string \<Rightarrow> int \<times> string) \<Rightarrow> env \<Rightarrow> http_env \<Rightarrow> HttpRequest \<Rightarrow> Server \<Rightarrow> world \<Rightarrow> writer_call list \<times> Server \<times> world" where
  "serveMux redirect e h r srv w =
     (if hr_RequestURI r = ''*'' then ([WriteHeader 400], srv, w)
      else if cleanPath (hr_EscapedPath r) \<noteq> hr_EscapedPath r
      then (let (code, body) = redirect (cleanPath (hr_EscapedPath r)) in ([WriteHeader code, Write body], srv, w))
      else let (rsp, srv, w) = handleRequest e h (hr_Request r) srv w in (reply rsp, srv, w))"

text \<open>
  \<open>withLogging\<close> hands the wrapper to the multiplexer.  The client gets what the wrapper has passed on to the
  writer it wraps, and the log gets the status the wrapper remembers.
\<close>

record request_log =
  rl_method :: string
  rl_path :: string
  rl_status :: int

definition withLogging ::
  "(string \<Rightarrow> int \<times> string) \<Rightarrow> env \<Rightarrow> http_env \<Rightarrow> HttpRequest \<Rightarrow> Server \<Rightarrow> world \<Rightarrow> (writer_call list \<times> request_log) \<times> Server \<times> world" where
  "withLogging redirect e h r srv w =
     (let lrw = \<lparr>lrw_statusCode = 200, lrw_calls = []\<rparr>;
          (calls, srv, w) = serveMux redirect e h r srv w;
          lrw = foldl (\<lambda>lrw c. lrw_call c lrw) lrw calls
      in ((lrw_calls lrw, \<lparr>rl_method = hr_Method r, rl_path = rq_Path (hr_Request r), rl_status = lrw_statusCode lrw\<rparr>), srv, w))"

text \<open>
  C35. What the client gets is what \<open>handleRequest\<close> answered and what is logged: for a request with a clean
  path, the calls that reach the client's connection through the logging wrapper send exactly the
  status and the body \<open>handleRequest\<close> chose, and the routes, the counters and the cluster are as it left
  them.  Any other request (\<open>*\<close>, or a path that is redirected) is answered without \<open>handleRequest\<close>, so that it
  changes no route, no counter and nothing in the cluster.  In every case the line of the request log
  has the method and path of the request and the status that was sent.
\<close>

theorem request_served_as_logged:
  "case withLogging redirect e h r srv w of ((sent, l), srv', w') \<Rightarrow>
     rl_method l = hr_Method r \<and> rl_path l = rq_Path (hr_Request r) \<and> rl_status l = sent_status sent \<and>
     (if hr_RequestURI r \<noteq> ''*'' \<and> cleanPath (hr_EscapedPath r) = hr_EscapedPath r
      then (case handleRequest e h (hr_Request r) srv w of (rsp, srv'', w'') \<Rightarrow>
              (srv', w') = (srv'', w'') \<and> sent_status sent = rsp_Code rsp \<and>
              sent_body sent = rsp_Body rsp @ (if rsp_Code rsp = 202 then [] else [NL]))
      else (srv', w') = (srv, w) \<and>
           sent_status sent = (if hr_RequestURI r = ''*'' then 400 else fst (redirect (cleanPath (hr_EscapedPath r)))))"
  by (simp add: withLogging_def serveMux_def lrw_WriteHeader_def reply_def http_Error_def sent_body_def Let_def split_beta
      split: prod.split)

text \<open>
  A route can be registered under a path that is not clean; the plain request for it is redirected
  away, to a path that is clean, and never reaches the route.
\<close>

lemma unclean_route_redirected:
  assumes "hr_RequestURI r \<noteq> ''*''" "cleanPath (hr_EscapedPath r) \<noteq> hr_EscapedPath r"
  shows "sent_status (fst (serveMux redirect e h r srv w)) = fst (redirect (cleanPath (hr_EscapedPath r)))"
    "cleanPath (cleanPath (hr_EscapedPath r)) = cleanPath (hr_EscapedPath r)" "snd (serveMux redirect e h r srv w) = (srv, w)"
  using assms by (simp_all add: serveMux_def cleanPath_idem split_beta)

lemma unclean_examples: "cleanPath ''/hooks//push'' = ''/hooks/push''" "cleanPath ''/hooks/../push/'' = ''/push/''"
  by code_simp+

section \<open>Start\<close>

definition shutdownTimeout :: duration where
  "shutdownTimeout = 5 * seconds 1"

record HttpServer =
  hs_Addr :: string
  hs_ReadTimeout :: duration
  hs_WriteTimeout :: duration
  hs_IdleTimeout :: duration

definition httpServer :: "string \<Rightarrow> HttpServer" where
  "httpServer port = \<lparr>hs_Addr = port, hs_ReadTimeout = 10 * seconds 1, hs_WriteTimeout = 10 * seconds 1, hs_IdleTimeout = 60 * seconds 1\<rparr>"

text \<open>
  What can happen to a started server: the listener returns, with \<open>ErrServerClosed\<close> or another error, or
  the context ends.  The list is what the goroutine and the \<open>select\<close> see, one by one; after it \<open>Start\<close>
  waits.  \<open>shutdown\<close> is what \<open>Shutdown\<close> returns within a time limit.
\<close>

datatype serve_error = ErrServerClosed | ServeError string

datatype server_event = ListenerReturned serve_error | ContextDone

datatype start_result = Blocked | ReturnedNil | ReturnedError string

fun select_loop :: "(duration \<Rightarrow> string option) \<Rightarrow> server_event list \<Rightarrow> start_result" where
  "select_loop shutdown [] = Blocked"
| "select_loop shutdown (ListenerReturned ErrServerClosed # evs) = select_loop shutdown evs"
| "select_loop shutdown (ListenerReturned (ServeError err) # evs) = ReturnedError err"
| "select_loop shutdown (ContextDone # evs) =
     (case shutdown shutdownTimeout of None \<Rightarrow> ReturnedNil | Some err \<Rightarrow> ReturnedError err)"

definition Start_Server :: "(duration \<Rightarrow> string option) \<Rightarrow> string \<Rightarrow> server_event list \<Rightarrow> HttpServer \<times> start_result" where
  "Start_Server shutdown port evs = (httpServer port, select_loop shutdown evs)"

text \<open>
  \<open>Start\<close> never ends silently: it returns without an error only after the context has ended and the
  server could be shut down in five seconds, and any failure of the listener before that is its error.
\<close>

lemma Start_Server_nil:
  "snd (Start_Server shutdown port evs) = ReturnedNil \<longleftrightarrow>
     shutdown shutdownTimeout = None \<and>
     (case dropWhile (\<lambda>ev. ev = ListenerReturned ErrServerClosed) evs of ContextDone # _ \<Rightarrow> True | _ \<Rightarrow> False)"
  unfolding Start_Server_def snd_conv
  by (induction shutdown evs rule: select_loop.induct) (auto split: option.split)

lemma Start_Server_listener_error:
  "snd (Start_Server shutdown port (replicate n (ListenerReturned ErrServerClosed) @ ListenerReturned (ServeError err) # rest)) = ReturnedError err"
  by (induction n) (simp_all add: Start_Server_def)

end
