(* ===== verification/Go_Heap.thy ===== *)
theory Go_Heap
  imports Prelude
begin

text \<open>
  Go's memory as the deep-copy functions see it: structs are values, pointers and slices refer to
  cells of a heap.  A cell is an array; what a pointer refers to is an array of one element.  The
  theory has the statements from which the generated functions are made, and what it means that
  such a function copies deeply.
\<close>

section \<open>Values, types and the heap\<close>

datatype basic = BText string | BInt int | BBool bool

text \<open>A slice is the address of its array, the offset of its first element and its length.\<close>

datatype gval =
    GBasic basic
  | GStruct "(string \<times> gval) list"
  | GPtr "nat option"
  | GSlice "(nat \<times> nat \<times> nat) option"

datatype gotype =
    Basic
  | Struct "(string \<times> gotype) list"
  | Ptr gotype
  | Slice gotype

type_synonym heap = "gval list list"

text \<open>What a value stands for when all references are followed.\<close>

datatype gtree =
    TBasic basic
  | TStruct "(string \<times> gtree) list"
  | TPtr "gtree option"
  | TSlice "gtree list option"

text \<open>
  \<open>read h T v\<close>: the meaning of \<open>v\<close> as a value of the type \<open>T\<close> and the addresses it is read from; \<open>None\<close>
  if it is no such value.
\<close>

fun read :: "heap \<Rightarrow> gotype \<Rightarrow> gval \<Rightarrow> (gtree \<times> nat list) option"
and read_fields :: "heap \<Rightarrow> (string \<times> gotype) list \<Rightarrow> (string \<times> gval) list \<Rightarrow> ((string \<times> gtree) list \<times> nat list) option" where
  "read h Basic v = (case v of GBasic b \<Rightarrow> Some (TBasic b, []) | _ \<Rightarrow> None)"
| "read h (Struct Fs) v =
     (case v of GStruct fs \<Rightarrow> map_option (\<lambda>(ts, A). (TStruct ts, A)) (read_fields h Fs fs) | _ \<Rightarrow> None)"
| "read h (Ptr T) v =
     (case v of
        GPtr None \<Rightarrow> Some (TPtr None, [])
      | GPtr (Some a) \<Rightarrow>
          if a < length h \<and> length (h ! a) = 1
          then map_option (\<lambda>(t, A). (TPtr (Some t), a # A)) (read h T (h ! a ! 0)) else None
      | _ \<Rightarrow> None)"
| "read h (Slice T) v =
     (case v of
        GSlice None \<Rightarrow> Some (TSlice None, [])
      | GSlice (Some (a, off, n)) \<Rightarrow>
          if a < length h \<and> off + n \<le> length (h ! a)
          then map_option (\<lambda>xs. (TSlice (Some (map fst xs)), a # concat (map snd xs)))
                 (those (map (read h T) (take n (drop off (h ! a))))) else None
      | _ \<Rightarrow> None)"
| "read_fields h [] fs = (if fs = [] then Some ([], []) else None)"
| "read_fields h ((f, T) # Fs) fs =
     (case fs of
        [] \<Rightarrow> None
      | (g, v) # fs \<Rightarrow>
          if f = g
          then (case read h T v of None \<Rightarrow> None
                | Some (t, A) \<Rightarrow> map_option (\<lambda>(ts, B). ((f, t) # ts, A @ B)) (read_fields h Fs fs))
          else None)"

text \<open>Types whose values hold no reference.\<close>

fun plain :: "gotype \<Rightarrow> bool" where
  "plain Basic = True"
| "plain (Struct Fs) = list_all (\<lambda>(f, T). plain T) Fs"
| "plain (Ptr T) = False"
| "plain (Slice T) = False"

section \<open>The statements of a deep copy\<close>

text \<open>
  A copier gets the value of \<open>*in\<close> and returns the value it leaves in \<open>*out\<close>.  The variable \<open>out\<close> refers
  to memory nobody else sees before the copier returns, so that its content is passed along as a
  value and written to its cell at the end.
\<close>

type_synonym copier = "gval \<Rightarrow> heap \<Rightarrow> gval \<times> heap"

text \<open>\<open>*out = *in\<close>, also as \<open>**out = **in\<close> and \<open>out.F = in.F\<close>.\<close>

definition assign :: copier where
  "assign v h = (v, h)"

text \<open>
  \<open>if in.F != nil { in, out := &in.F, &out.F; *out = new(T); (*in).DeepCopyInto(*out) }\<close>, where the last
  statement is \<open>c\<close>.  A nil field has been copied by \<open>*out = *in\<close> before.
\<close>

definition new_ptr :: "copier \<Rightarrow> copier" where
  "new_ptr c v h =
     (case v of
        GPtr (Some p) \<Rightarrow>
          let a = length h;
              (x, h) = c (h ! p ! 0) (h @ [[GPtr None]])
          in (GPtr (Some a), h[a := [x]])
      | _ \<Rightarrow> (v, h))"

text \<open>
  \<open>if in.F != nil { ...; *out = make([]T, len(*in)); for i := range *in { (*in)[i].DeepCopyInto(&(*out)[i]) } }\<close>;
  with \<open>assign\<close> for the elements it is \<open>copy(*out, *in)\<close>.
\<close>

fun copy_elems :: "copier \<Rightarrow> gval list \<Rightarrow> heap \<Rightarrow> gval list \<times> heap" where
  "copy_elems c [] h = ([], h)"
| "copy_elems c (v # vs) h = (let (x, h) = c v h; (xs, h) = copy_elems c vs h in (x # xs, h))"

definition make_slice :: "copier \<Rightarrow> copier" where
  "make_slice c v h =
     (case v of
        GSlice (Some (p, off, n)) \<Rightarrow>
          let a = length h;
              (xs, h) = copy_elems c (take n (drop off (h ! p))) (h @ [replicate n (GPtr None)])
          in (GSlice (Some (a, 0, n)), h[a := xs])
      | _ \<Rightarrow> (v, h))"

text \<open>\<open>*out = *in\<close> and then one statement per listed field.\<close>

definition copy_field :: "(string \<times> gval) list \<Rightarrow> (string \<times> gval) list \<times> heap \<Rightarrow> string \<times> copier \<Rightarrow> (string \<times> gval) list \<times> heap" where
  "copy_field fs s fc =
     (case map_of fs (fst fc) of
        None \<Rightarrow> s
      | Some v \<Rightarrow> let (x, h) = snd fc v (snd s) in (AList.update (fst fc) x (fst s), h))"

definition copy_struct :: "(string \<times> copier) list \<Rightarrow> copier" where
  "copy_struct S v h =
     (case v of
        GStruct fs \<Rightarrow> let (out, h) = foldl (copy_field fs) (fs, h) S in (GStruct out, h)
      | _ \<Rightarrow> (v, h))"

text \<open>\<open>DeepCopy\<close> and \<open>DeepCopyObject\<close> for a type whose \<open>DeepCopyInto\<close> is \<open>c\<close>; \<open>None\<close> is the nil interface.\<close>

definition DeepCopy :: "copier \<Rightarrow> copier" where
  "DeepCopy c v h = (if v = GPtr None then (GPtr None, h) else new_ptr c v h)"

definition DeepCopyObject :: "copier \<Rightarrow> gval \<Rightarrow> heap \<Rightarrow> gval option \<times> heap" where
  "DeepCopyObject c v h = (let (x, h) = DeepCopy c v h in (if x \<noteq> GPtr None then Some x else None, h))"

section \<open>Reading is local\<close>

definition same_cells :: "nat list \<Rightarrow> heap \<Rightarrow> heap \<Rightarrow> bool" where
  "same_cells A h h' \<longleftrightarrow> (\<forall>a \<in> set A. a < length h' \<and> h' ! a = h ! a)"

lemma same_cells_simps [simp]:
  "same_cells [] h h'" "same_cells (a # A) h h' \<longleftrightarrow> a < length h' \<and> h' ! a = h ! a \<and> same_cells A h h'"
  "same_cells (A @ B) h h' \<longleftrightarrow> same_cells A h h' \<and> same_cells B h h'"
  by (auto simp: same_cells_def)

lemma those_eq_Some: "those xs = Some ys \<longleftrightarrow> xs = map Some ys"
  by (induction xs arbitrary: ys) (auto split: option.splits simp: map_eq_Cons_conv)

lemma read_Slice_cases:
  assumes "read h (Slice T) v = Some (t, A)"
  obtains (nil) "v = GSlice None" "t = TSlice None" "A = []"
    | (elems) a off n xs where "v = GSlice (Some (a, off, n))" "a < length h" "off + n \<le> length (h ! a)"
      "map (read h T) (take n (drop off (h ! a))) = map Some xs" "t = TSlice (Some (map fst xs))" "A = a # concat (map snd xs)"
proof (cases v)
  case (GSlice s)
  show ?thesis
  proof (cases s)
    case (Some s')
    obtain a off n where s: "s' = (a, off, n)" by (metis prod_cases3)
    let ?o = "those (map (read h T) (take n (drop off (h ! a))))"
    have bounds: "a < length h" "off + n \<le> length (h ! a)" using assms GSlice Some s by (simp_all split: if_splits)
    obtain xs where xs: "?o = Some xs" using assms GSlice Some s bounds by (cases ?o) simp_all
    then show ?thesis using elems [of a off n xs] assms GSlice Some s bounds by (simp add: those_eq_Some [symmetric])
  qed (use assms GSlice nil in simp)
qed (use assms in simp_all)

lemma read_fields_Cons_iff:
  "read_fields h ((f, T) # Fs) fs = Some (ts, B) \<longleftrightarrow>
   (\<exists>v fs' t ts' A B'. fs = (f, v) # fs' \<and> ts = (f, t) # ts' \<and> B = A @ B' \<and> read h T v = Some (t, A) \<and> read_fields h Fs fs' = Some (ts', B'))"
  by (auto split: list.splits option.splits if_splits)

lemma read_Ptr_iff:
  "read h (Ptr T) v = Some (t, A) \<longleftrightarrow> v = GPtr None \<and> t = TPtr None \<and> A = [] \<or>
   (\<exists>a t' A'. v = GPtr (Some a) \<and> a < length h \<and> length (h ! a) = 1 \<and> read h T (h ! a ! 0) = Some (t', A') \<and> t = TPtr (Some t') \<and> A = a # A')"
  by (auto split: gval.splits option.splits if_splits)

lemma read_Struct_iff:
  "read h (Struct Fs) v = Some (t, A) \<longleftrightarrow> (\<exists>fs ts. v = GStruct fs \<and> t = TStruct ts \<and> read_fields h Fs fs = Some (ts, A))"
  by (auto split: gval.splits)

lemma map_read_cong:
  assumes "map (read h T) vs = map Some xs"
    and "\<And>v t A. v \<in> set vs \<Longrightarrow> read h T v = Some (t, A) \<Longrightarrow> (t, A) \<in> set xs \<Longrightarrow> read h' T v = Some (t, A)"
  shows "map (read h' T) vs = map Some xs"
  using assms
proof (induction vs arbitrary: xs)
  case (Cons v vs)
  then obtain x xs' where "xs = x # xs'" "read h T v = Some x" "map (read h T) vs = map Some xs'"
    by (auto simp: Cons_eq_map_conv)
  then show ?case using Cons.IH [of xs'] Cons.prems(2) [of v "fst x" "snd x"] Cons.prems(2) by simp
qed simp

lemma same_cells_concat: "same_cells (concat xss) h h' \<longleftrightarrow> (\<forall>xs \<in> set xss. same_cells xs h h')"
  by (auto simp: same_cells_def)

lemma read_frame:
  "read h T v = Some (t, A) \<Longrightarrow> same_cells A h h' \<Longrightarrow> read h' T v = Some (t, A)"
  "read_fields h Fs fs = Some (ts, B) \<Longrightarrow> same_cells B h h' \<Longrightarrow> read_fields h' Fs fs = Some (ts, B)"
proof (induction h T v and h Fs fs arbitrary: t A and ts B rule: read_read_fields.induct)
  case (4 h T v)
  from 4(2) show ?case
  proof (cases rule: read_Slice_cases)
    case (elems a off n xs)
    then have cells: "a < length h'" "h' ! a = h ! a" "\<forall>x \<in> set xs. same_cells (snd x) h h'"
      using 4(3) by (auto simp: same_cells_concat)
    have "map (read h' T) (take n (drop off (h ! a))) = map Some xs"
    proof (rule map_read_cong [OF elems(4)])
      fix v' t' A'
      assume "v' \<in> set (take n (drop off (h ! a)))" "read h T v' = Some (t', A')" "(t', A') \<in> set xs"
      then show "read h' T v' = Some (t', A')" using 4(1) [OF elems(1) refl refl refl conjI [OF elems(2,3)]] cells(3) by auto
    qed
    then show ?thesis using elems cells by (simp add: those_eq_Some [symmetric])
  qed simp
next
  case (6 h f T Fs fs)
  from 6(3) obtain v fs' t ts' A B' where *: "fs = (f, v) # fs'" "ts = (f, t) # ts'" "B = A @ B'" "read h T v = Some (t, A)"
    "read_fields h Fs fs' = Some (ts', B')"
    unfolding read_fields_Cons_iff by blast
  then have "read h' T v = Some (t, A)" "read_fields h' Fs fs' = Some (ts', B')"
    using 6(1) [OF *(1) refl refl *(4)] 6(2) [OF *(1) refl refl *(4) refl *(5)] 6(4) by simp_all
  then show ?case using * by simp
next
  case (3 h T v)
  then show ?case unfolding read_Ptr_iff by fastforce
next
  case (2 h Fs v)
  then show ?case unfolding read_Struct_iff by blast
qed (auto split: gval.splits if_splits)

section \<open>Deep copies\<close>

text \<open>
  A copier is deep for a type if the heap only grows, and the copy means the same as the original
  and lies in the new part alone.
\<close>

definition fresh :: "nat \<Rightarrow> nat list \<Rightarrow> bool" where
  "fresh n A \<longleftrightarrow> (\<forall>a \<in> set A. n \<le> a)"

definition deep :: "gotype \<Rightarrow> copier \<Rightarrow> bool" where
  "deep T c \<longleftrightarrow> (\<forall>h v t A. read h T v = Some (t, A) \<longrightarrow>
     (\<exists>x ext B. c v h = (x, h @ ext) \<and> read (h @ ext) T x = Some (t, B) \<and> fresh (length h) B))"

lemma fresh_simps [simp]:
  "fresh n []" "fresh n (a # A) \<longleftrightarrow> n \<le> a \<and> fresh n A" "fresh n (A @ B) \<longleftrightarrow> fresh n A \<and> fresh n B"
  by (auto simp: fresh_def)

lemma fresh_mono: "fresh n A \<Longrightarrow> m \<le> n \<Longrightarrow> fresh m A"
  by (auto simp: fresh_def)

lemma deepE:
  assumes "deep T c" "read h T v = Some (t, A)"
  obtains x ext B where "c v h = (x, h @ ext)" "read (h @ ext) T x = Some (t, B)" "fresh (length h) B"
  using assms unfolding deep_def by blast

text \<open>What is read lies in the heap, so appending cells does not change it.\<close>

lemma read_bounded:
  "read h T v = Some (t, A) \<Longrightarrow> \<forall>a \<in> set A. a < length h"
  "read_fields h Fs fs = Some (ts, B) \<Longrightarrow> \<forall>a \<in> set B. a < length h"
proof (induction h T v and h Fs fs arbitrary: t A and ts B rule: read_read_fields.induct)
  case (4 h T v)
  from 4(2) show ?case
  proof (cases rule: read_Slice_cases)
    case (elems a off n xs)
    have "b < length h" if "x \<in> set xs" "b \<in> set (snd x)" for x b
    proof -
      have "Some x \<in> set (map (read h T) (take n (drop off (h ! a))))" using that unfolding elems(4) by simp
      then obtain v' where "v' \<in> set (take n (drop off (h ! a)))" "read h T v' = Some (fst x, snd x)" by (metis (no_types) image_iff list.set_map prod.collapse)
      then show ?thesis using 4(1) [OF elems(1) refl refl refl conjI [OF elems(2,3)]] that(2) by blast
    qed
    then show ?thesis using elems(2,6) by auto
  qed simp
next
  case (6 h f T Fs fs)
  from 6(3) obtain v fs' t ts' A B' where *: "fs = (f, v) # fs'" "B = A @ B'" "read h T v = Some (t, A)"
    "read_fields h Fs fs' = Some (ts', B')"
    unfolding read_fields_Cons_iff by blast
  then show ?case using 6(1) [OF *(1) refl refl *(3)] 6(2) [OF *(1) refl refl *(3) refl *(4)] by auto
next
  case (3 h T v)
  then show ?case unfolding read_Ptr_iff by fastforce
next
  case (2 h Fs v)
  then show ?case unfolding read_Struct_iff by blast
qed (auto split: gval.splits if_splits)

lemma read_append: "read h T v = Some (t, A) \<Longrightarrow> read (h @ ext) T v = Some (t, A)"
  using read_frame(1) [of h T v t A "h @ ext"] read_bounded(1) [of h T v t A]
  by (simp add: same_cells_def nth_append trans_less_add1)

lemma read_update: "read h T v = Some (t, A) \<Longrightarrow> a \<notin> set A \<Longrightarrow> read (h[a := x]) T v = Some (t, A)"
  using read_frame(1) [of h T v t A "h[a := x]"] read_bounded(1) [of h T v t A]
  by (metis length_list_update nth_list_update_neq same_cells_def)

lemma read_plain:
  "read h T v = Some (t, A) \<Longrightarrow> plain T \<Longrightarrow> A = []"
  "read_fields h Fs fs = Some (ts, B) \<Longrightarrow> list_all (\<lambda>(f, T). plain T) Fs \<Longrightarrow> B = []"
  by (induction h T v and h Fs fs arbitrary: t A and ts B rule: read_read_fields.induct)
     (auto split: gval.splits option.splits list.splits if_splits)

lemma deep_assign [intro]: "plain T \<Longrightarrow> deep T assign"
  unfolding deep_def assign_def by (metis append.right_neutral fresh_simps(1) read_plain(1))

lemma deep_new_ptr [intro]:
  assumes "deep T c"
  shows "deep (Ptr T) (new_ptr c)"
  unfolding deep_def
proof (intro allI impI)
  fix h v t A
  assume r: "read h (Ptr T) v = Some (t, A)"
  show "\<exists>x ext B. new_ptr c v h = (x, h @ ext) \<and> read (h @ ext) (Ptr T) x = Some (t, B) \<and> fresh (length h) B"
  proof (cases "v = GPtr None")
    case True
    then show ?thesis using r by (intro exI [of _ v] exI [of _ "[]"]) (simp add: new_ptr_def)
  next
    case False
    with r obtain p t' A' where v: "v = GPtr (Some p)" "read h T (h ! p ! 0) = Some (t', A')" "t = TPtr (Some t')"
      by (auto split: gval.splits option.splits if_splits)
    let ?h = "h @ [[GPtr None]]"
    from deepE [OF assms read_append [OF v(2), of "[[GPtr None]]"]] obtain x ext B where c: "c (h ! p ! 0) ?h = (x, ?h @ ext)"
      "read (?h @ ext) T x = Some (t', B)" "fresh (length ?h) B"
      by blast
    have "length h \<notin> set B" using c(3) by (auto simp: fresh_def)
    from read_update [OF c(2) this, of "[x]"] have "read (h @ [x] # ext) T x = Some (t', B)" by (simp add: list_update_append)
    then show ?thesis using v(1,3) c(1) fresh_mono [OF c(3), of "length h"]
      by (intro exI [of _ "GPtr (Some (length h))"] exI [of _ "[x] # ext"] exI [of _ "length h # B"])
         (simp add: new_ptr_def list_update_append nth_append)
  qed
qed

lemma copy_elems_deep:
  assumes "deep T c" "map (read h T) vs = map Some xs"
  shows "\<exists>ys ext bs. copy_elems c vs h = (ys, h @ ext) \<and> map (read (h @ ext) T) ys = map Some bs \<and>
    map fst bs = map fst xs \<and> (\<forall>b \<in> set bs. fresh (length h) (snd b))"
  using assms(2)
proof (induction vs arbitrary: h xs)
  case (Cons v vs)
  then obtain x xs' where xs: "xs = x # xs'" "read h T v = Some x" "map (read h T) vs = map Some xs'"
    by (auto simp: Cons_eq_map_conv)
  from deepE [OF assms(1), of h v "fst x" "snd x"] xs(2) obtain y ext B where c: "c v h = (y, h @ ext)"
    "read (h @ ext) T y = Some (fst x, B)" "fresh (length h) B"
    by auto
  have "map (read (h @ ext) T) vs = map Some xs'" by (rule map_read_cong [OF xs(3)]) (rule read_append)
  from Cons.IH [OF this] obtain ys ext' bs where IH: "copy_elems c vs (h @ ext) = (ys, h @ ext @ ext')"
    "map (read (h @ ext @ ext') T) ys = map Some bs" "map fst bs = map fst xs'" "\<forall>b \<in> set bs. fresh (length (h @ ext)) (snd b)"
    by auto
  have "\<forall>b \<in> set bs. fresh (length h) (snd b)" using IH(4) by (auto intro: fresh_mono)
  moreover have "read (h @ ext @ ext') T y = Some (fst x, B)" using read_append [OF c(2), of ext'] by simp
  ultimately show ?case using c(1,3) IH(1-3) xs(1)
    by (intro exI [of _ "y # ys"] exI [of _ "ext @ ext'"] exI [of _ "(fst x, B) # bs"]) simp
qed simp

lemma deep_make_slice [intro]:
  assumes "deep T c"
  shows "deep (Slice T) (make_slice c)"
  unfolding deep_def
proof (intro allI impI)
  fix h v t A
  assume r: "read h (Slice T) v = Some (t, A)"
  from r show "\<exists>x ext B. make_slice c v h = (x, h @ ext) \<and> read (h @ ext) (Slice T) x = Some (t, B) \<and> fresh (length h) B"
  proof (cases rule: read_Slice_cases)
    case nil
    then show ?thesis by (intro exI [of _ v] exI [of _ "[]"]) (simp add: make_slice_def)
  next
    case (elems p off n xs)
    let ?z = "[replicate n (GPtr None)]" and ?vs = "take n (drop off (h ! p))"
    have "map (read (h @ ?z) T) ?vs = map Some xs" by (rule map_read_cong [OF elems(4)]) (rule read_append)
    from copy_elems_deep [OF assms this] obtain ys ext bs where c: "copy_elems c ?vs (h @ ?z) = (ys, h @ ?z @ ext)"
      "map (read (h @ ?z @ ext) T) ys = map Some bs" "map fst bs = map fst xs" "\<forall>b \<in> set bs. fresh (Suc (length h)) (snd b)"
      by auto
    have "length ys = length bs" "length bs = length xs" "length xs = length ?vs"
      using arg_cong [OF c(2), of length] arg_cong [OF c(3), of length] arg_cong [OF elems(4), of length] by simp_all
    then have len: "length ys = n" using elems(3) by simp
    have "map (read (h @ ys # ext) T) ys = map Some bs"
    proof (rule map_read_cong [OF c(2)])
      fix v' t' B'
      assume b: "read (h @ ?z @ ext) T v' = Some (t', B')" "(t', B') \<in> set bs"
      then have "length h \<notin> set B'" using c(4) by (force simp: fresh_def)
      from read_update [OF b(1) this, of ys] show "read (h @ ys # ext) T v' = Some (t', B')" by (simp add: list_update_append)
    qed
    moreover have "fresh (length h) (concat (map snd bs))"
      using c(4) by (fastforce simp: fresh_def dest: Suc_leD)
    ultimately show ?thesis using elems(1,5) c(1,3) len
      by (intro exI [of _ "GSlice (Some (length h, 0, n))"] exI [of _ "ys # ext"] exI [of _ "length h # concat (map snd bs)"])
         (simp add: make_slice_def list_update_append those_eq_Some [symmetric])
  qed
qed

text \<open>
  A struct is copied deeply if every statement copies its field deeply and the fields without a
  statement hold no references.
\<close>

lemma read_fields_D:
  "read_fields h Fs fs = Some (ts, B) \<Longrightarrow> map fst fs = map fst Fs \<and> map fst ts = map fst Fs"
  by (induction Fs arbitrary: fs ts B) (auto simp: read_fields_Cons_iff simp del: read_fields.simps(2) split: if_splits)

lemma read_fields_at:
  "read_fields h Fs fs = Some (ts, B) \<Longrightarrow> distinct (map fst Fs) \<Longrightarrow> (f, T) \<in> set Fs \<Longrightarrow>
   \<exists>v t A. map_of fs f = Some v \<and> map_of ts f = Some t \<and> read h T v = Some (t, A)"
  by (induction Fs arbitrary: fs ts B) (force simp: read_fields_Cons_iff simp del: read_fields.simps(2) split: if_splits)+

lemma read_fields_build:
  assumes "distinct (map fst Fs)" "map fst out = map fst Fs" "map fst ts = map fst Fs"
    and "\<And>f T. (f, T) \<in> set Fs \<Longrightarrow> \<exists>x t B. map_of out f = Some x \<and> map_of ts f = Some t \<and> read h T x = Some (t, B) \<and> fresh n B"
  shows "\<exists>B. read_fields h Fs out = Some (ts, B) \<and> fresh n B"
  using assms
proof (induction Fs arbitrary: out ts)
  case (Cons F Fs)
  obtain f T x out' t ts' where eq: "F = (f, T)" "out = (f, x) # out'" "ts = (f, t) # ts'"
    using Cons.prems(2,3) by (cases F; cases out; cases ts) auto
  have tail: "map_of out g = map_of out' g \<and> map_of ts g = map_of ts' g" if "(g, U) \<in> set Fs" for g U
    using Cons.prems(1) eq that by force
  have "\<exists>B. read_fields h Fs out' = Some (ts', B) \<and> fresh n B"
  proof (rule Cons.IH)
    show "\<exists>x t B. map_of out' g = Some x \<and> map_of ts' g = Some t \<and> read h U x = Some (t, B) \<and> fresh n B" if "(g, U) \<in> set Fs" for g U
      using Cons.prems(4) [of g U] tail [OF that] that by auto
  qed (use Cons.prems eq in simp_all)
  moreover have "\<exists>B. read h T x = Some (t, B) \<and> fresh n B" using Cons.prems(4) [of f T] eq by auto
  ultimately show ?case using eq by auto
qed simp

definition field_copied :: "heap \<Rightarrow> heap \<Rightarrow> gotype \<Rightarrow> gtree \<Rightarrow> gval option \<Rightarrow> bool" where
  "field_copied h h' T t v \<longleftrightarrow> (\<exists>x B. v = Some x \<and> read h' T x = Some (t, B) \<and> fresh (length h) B)"

lemma field_copied_grows: "field_copied h h' T t v \<Longrightarrow> field_copied h (h' @ ext) T t v"
  unfolding field_copied_def using read_append by blast

lemma copy_fields_deep:
  assumes "read_fields h Fs fs = Some (ts, A)" "distinct (map fst Fs)"
    and "\<forall>(f, c) \<in> set S. \<exists>T. (f, T) \<in> set Fs \<and> deep T c"
  shows "\<exists>out ext. foldl (copy_field fs) (fs, h) S = (out, h @ ext) \<and> map fst out = map fst fs \<and>
    (\<forall>f T. (f, T) \<in> set Fs \<longrightarrow> f \<in> fst ` set S \<longrightarrow> field_copied h (h @ ext) T (the (map_of ts f)) (map_of out f)) \<and>
    (\<forall>f. f \<notin> fst ` set S \<longrightarrow> map_of out f = map_of fs f)"
  using assms(3)
proof (induction S rule: rev_induct)
  case Nil
  show ?case by (intro exI [of _ fs] exI [of _ "[]"]) simp
next
  case (snoc s S)
  then obtain out ext where IH: "foldl (copy_field fs) (fs, h) S = (out, h @ ext)" "map fst out = map fst fs"
    "\<And>f T. (f, T) \<in> set Fs \<Longrightarrow> f \<in> fst ` set S \<Longrightarrow> field_copied h (h @ ext) T (the (map_of ts f)) (map_of out f)"
    "\<And>f. f \<notin> fst ` set S \<Longrightarrow> map_of out f = map_of fs f"
    by auto
  obtain f c T where s: "s = (f, c)" "(f, T) \<in> set Fs" "deep T c" using snoc.prems by (cases s) auto
  obtain v t B where v: "map_of fs f = Some v" "map_of ts f = Some t" "read h T v = Some (t, B)"
    using read_fields_at [OF assms(1,2) s(2)] by blast
  from deepE [OF s(3) read_append [OF v(3), of ext]] obtain x ext' B' where
    c: "c v (h @ ext) = (x, h @ ext @ ext')" "read (h @ ext @ ext') T x = Some (t, B')" "fresh (length (h @ ext)) B'"
    by auto
  have new: "field_copied h (h @ ext @ ext') T t (Some x)" using c(2) fresh_mono [OF c(3), of "length h"] by (auto simp: field_copied_def)
  have only: "U = T" if "(f, U) \<in> set Fs" for U using that s(2) assms(2) by (metis eq_key_imp_eq_value)
  have keys: "map fst (AList.update f x out) = map fst fs"
    using IH(2) v(1) by (metis domI dom_map_of_conv_image_fst list.set_map update_keys)
  have done_: "field_copied h (h @ ext @ ext') U (the (map_of ts g)) (map_of (AList.update f x out) g)"
    if "(g, U) \<in> set Fs" "g \<in> fst ` set (S @ [s])" for g U
  proof (cases "g = f")
    case True
    then show ?thesis using new only that v(2) by (simp add: update_conv')
  next
    case False
    then have "g \<in> fst ` set S" using that(2) s(1) by auto
    from field_copied_grows [OF IH(3) [OF that(1) this], of ext'] False show ?thesis by (simp add: update_conv')
  qed
  have "map_of (AList.update f x out) g = map_of fs g" if "g \<notin> fst ` set (S @ [s])" for g
    using IH(4) [of g] that s(1) by (auto simp: update_conv')
  moreover have "copy_field fs (out, h @ ext) s = (AList.update f x out, h @ ext @ ext')" using s(1) v(1) c(1) by (simp add: copy_field_def)
  ultimately show ?case using done_ keys IH(1)
    by (intro exI [of _ "AList.update f x out"] exI [of _ "ext @ ext'"]) simp
qed

lemma deep_copy_struct [intro]:
  assumes "distinct (map fst Fs)" "\<forall>(f, c) \<in> set S. \<exists>T. (f, T) \<in> set Fs \<and> deep T c"
    and "\<forall>(f, T) \<in> set Fs. f \<in> fst ` set S \<or> plain T"
  shows "deep (Struct Fs) (copy_struct S)"
  unfolding deep_def
proof (intro allI impI)
  fix h v t A
  assume "read h (Struct Fs) v = Some (t, A)"
  then obtain fs ts where v: "v = GStruct fs" "t = TStruct ts" and r: "read_fields h Fs fs = Some (ts, A)"
    unfolding read_Struct_iff by blast
  from copy_fields_deep [OF r assms(1,2)] obtain out ext where out: "foldl (copy_field fs) (fs, h) S = (out, h @ ext)" "map fst out = map fst fs"
    "\<And>f T. (f, T) \<in> set Fs \<Longrightarrow> f \<in> fst ` set S \<Longrightarrow> field_copied h (h @ ext) T (the (map_of ts f)) (map_of out f)"
    "\<And>f. f \<notin> fst ` set S \<Longrightarrow> map_of out f = map_of fs f"
    by blast
  have "\<exists>B. read_fields (h @ ext) Fs out = Some (ts, B) \<and> fresh (length h) B"
  proof (rule read_fields_build [OF assms(1)])
    show "map fst out = map fst Fs" "map fst ts = map fst Fs" using out(2) read_fields_D [OF r] by simp_all
    fix f T
    assume f: "(f, T) \<in> set Fs"
    from read_fields_at [OF r assms(1) f] obtain v t B where
      at: "map_of fs f = Some v" "map_of ts f = Some t" "read h T v = Some (t, B)" by blast
    show "\<exists>x t B. map_of out f = Some x \<and> map_of ts f = Some t \<and> read (h @ ext) T x = Some (t, B) \<and> fresh (length h) B"
    proof (cases "f \<in> fst ` set S")
      case True
      then show ?thesis using out(3) [OF f True] at(2) by (auto simp: field_copied_def)
    next
      case False
      then have "plain T" using assms(3) f by auto
      then show ?thesis using out(4) [OF False] at read_append [OF at(3)] read_plain(1) [OF at(3)] by auto
    qed
  qed
  then show "\<exists>x ext B. copy_struct S v h = (x, h @ ext) \<and> read (h @ ext) (Struct Fs) x = Some (t, B) \<and> fresh (length h) B"
    using out(1) v by (auto simp: copy_struct_def)
qed

lemma deep_DeepCopy [intro]: "deep T c \<Longrightarrow> deep (Ptr T) (DeepCopy c)"
proof -
  have "DeepCopy c = new_ptr c" by (intro ext) (simp add: DeepCopy_def new_ptr_def)
  then show "deep T c \<Longrightarrow> deep (Ptr T) (DeepCopy c)" using deep_new_ptr by simp
qed

text \<open>
  What a deep copy is good for: whatever is written to the memory that existed before, the copy
  keeps its meaning, and whatever is written to new memory, the original keeps its own.
\<close>

lemma deep_independent:
  assumes "deep T c" "read h T v = Some (t, A)"
  shows "\<exists>x h' B. c v h = (x, h') \<and> take (length h) h' = h \<and> read h' T x = Some (t, B) \<and> set A \<inter> set B = {} \<and>
    (\<forall>a y. a < length h \<longrightarrow> read (h'[a := y]) T x = Some (t, B)) \<and>
    (\<forall>a y. a \<ge> length h \<longrightarrow> read (h'[a := y]) T v = Some (t, A))"
proof -
  from deepE [OF assms] obtain x ext B where c: "c v h = (x, h @ ext)" "read (h @ ext) T x = Some (t, B)" "fresh (length h) B" .
  have "read ((h @ ext)[a := y]) T x = Some (t, B)" if "a < length h" for a y
    using c(2,3) that by (intro read_update) (auto simp: fresh_def)
  moreover have "read ((h @ ext)[a := y]) T v = Some (t, A)" if "a \<ge> length h" for a y
    using read_append [OF assms(2)] read_bounded(1) [OF assms(2)] that by (intro read_update) auto
  moreover have "set A \<inter> set B = {}" using c(3) read_bounded(1) [OF assms(2)] by (force simp: fresh_def)
  ultimately show ?thesis using c by (intro exI [of _ x] exI [of _ "h @ ext"] exI [of _ B]) simp
qed

end
