(* ===== verification/Deep_Copy.thy ===== *)
theory Deep_Copy
  imports Go_Heap
begin

text \<open>
  The generated deep copies of \<open>api/v1alpha1/zz_generated.deepcopy.go\<close>, and the shape of the types of
  \<open>api/v1alpha1\<close> as far as copying depends on it: which fields are values, pointers and slices.  The
  controllers rely on these functions: the base of a patch is a deep copy that must not change while
  the object is changed, and what is read from the shared cache must not be changed at all.  The rest
  of the library treats a copy as the value itself; this theory shows that it may.
\<close>

section \<open>Types of Kubernetes\<close>

text \<open>The types of \<open>k8s.io/api\<close> and \<open>k8s.io/apimachinery\<close>, each with its own \<open>DeepCopyInto\<close>.\<close>

type_synonym library = "string \<Rightarrow> gotype \<times> copier"

definition lib_type :: "library \<Rightarrow> string \<Rightarrow> gotype" where
  "lib_type L n = fst (L n)"

definition lib_copy :: "library \<Rightarrow> string \<Rightarrow> copier" where
  "lib_copy L n = snd (L n)"

text \<open>
  What the generated code relies on: the copies of the library are deep, and the types it copies by
  assignment hold no references.  (The location inside a \<open>metav1.Time\<close> is immutable and counts as part
  of the value.)
\<close>

definition assigned_types :: "string list" where
  "assigned_types = [''metav1.TypeMeta'', ''metav1.Duration'', ''corev1.LocalObjectReference'', ''corev1.SecretReference'',
     ''corev1.PersistentVolumeClaimVolumeSource'']"

definition deep_library :: "library \<Rightarrow> bool" where
  "deep_library L \<longleftrightarrow> (\<forall>n. deep (lib_type L n) (lib_copy L n)) \<and> list_all (\<lambda>n. plain (lib_type L n)) assigned_types"

section \<open>The types\<close>

definition GitAuth_type :: "library \<Rightarrow> gotype" where
  "GitAuth_type L = Struct [
     (''Type'', Basic), (''SecretRef'', lib_type L ''corev1.LocalObjectReference'')]"

definition GitRepo_type :: "library \<Rightarrow> gotype" where
  "GitRepo_type L = Struct [
     (''URL'', Basic), (''Revision'', Basic), (''Path'', Basic), (''Auth'', Ptr (GitAuth_type L)),
     (''Image'', Basic)]"

definition RunnerSpec_type :: "library \<Rightarrow> gotype" where
  "RunnerSpec_type L = Struct [
     (''Image'', Basic), (''Env'', Slice (lib_type L ''corev1.EnvVar'')),
     (''EnvFrom'', Slice (lib_type L ''corev1.EnvFromSource'')),
     (''Volumes'', Slice (lib_type L ''corev1.Volume'')), (''Mounts'', Slice (lib_type L ''corev1.VolumeMount'')),
     (''Args'', Slice Basic), (''Command'', Slice Basic),
     (''TimeoutAfter'', Ptr (lib_type L ''metav1.Duration'')),
     (''Resources'', lib_type L ''corev1.ResourceRequirements''),
     (''SecurityContext'', Ptr (lib_type L ''corev1.SecurityContext'')), (''ServiceAccountName'', Basic),
     (''GitRepo'', Ptr (GitRepo_type L))]"

definition RunnerStatus_type :: "library \<Rightarrow> gotype" where
  "RunnerStatus_type L = Struct [
     (''Conditions'', Slice (lib_type L ''metav1.Condition'')), (''Phase'', Basic),
     (''ObservedGeneration'', Basic), (''ResourceHash'', Basic), (''DesiredSpecHash'', Basic),
     (''StartTime'', Ptr (lib_type L ''metav1.Time'')), (''CompletionTime'', Ptr (lib_type L ''metav1.Time''))]"

definition Runner_type :: "library \<Rightarrow> gotype" where
  "Runner_type L = Struct [
     (''TypeMeta'', lib_type L ''metav1.TypeMeta''), (''ObjectMeta'', lib_type L ''metav1.ObjectMeta''),
     (''Spec'', RunnerSpec_type L), (''Status'', RunnerStatus_type L)]"

definition RunnerList_type :: "library \<Rightarrow> gotype" where
  "RunnerList_type L = Struct [
     (''TypeMeta'', lib_type L ''metav1.TypeMeta''), (''ListMeta'', lib_type L ''metav1.ListMeta''),
     (''Items'', Slice (Runner_type L))]"

definition BackoffConfig_type :: "library \<Rightarrow> gotype" where
  "BackoffConfig_type L = Struct [
     (''InitialDelay'', lib_type L ''metav1.Duration''), (''MaxDelay'', Ptr (lib_type L ''metav1.Duration''))]"

definition RetryPolicy_type :: "library \<Rightarrow> gotype" where
  "RetryPolicy_type L = Struct [
     (''MaxRetries'', Basic), (''Backoff'', Ptr (BackoffConfig_type L))]"

definition RunnerRef_type :: gotype where
  "RunnerRef_type = Struct [
     (''Name'', Basic), (''Namespace'', Basic)]"

definition WorkflowStep_type :: "library \<Rightarrow> gotype" where
  "WorkflowStep_type L = Struct [
     (''Name'', Basic), (''RunnerRef'', Ptr RunnerRef_type), (''Image'', Basic), (''Command'', Slice Basic),
     (''Args'', Slice Basic), (''Env'', Slice (lib_type L ''corev1.EnvVar'')),
     (''Retry'', Ptr (RetryPolicy_type L)), (''DependsOn'', Slice Basic), (''When'', Basic),
     (''Timeout'', Ptr (lib_type L ''metav1.Duration'')), (''GitRepo'', Ptr (GitRepo_type L)),
     (''ServiceAccountName'', Basic), (''Volumes'', Slice (lib_type L ''corev1.Volume'')),
     (''Mounts'', Slice (lib_type L ''corev1.VolumeMount''))]"

definition SharedVolume_type :: "library \<Rightarrow> gotype" where
  "SharedVolume_type L = Struct [
     (''MountPath'', Basic), (''EmptyDir'', Ptr (lib_type L ''corev1.EmptyDirVolumeSource'')),
     (''PersistentVolumeClaim'', Ptr (lib_type L ''corev1.PersistentVolumeClaimVolumeSource''))]"

definition JobSpec_type :: "library \<Rightarrow> gotype" where
  "JobSpec_type L = Struct [
     (''Name'', Basic), (''Needs'', Slice Basic), (''When'', Basic),
     (''Env'', Slice (lib_type L ''corev1.EnvVar'')), (''GitRepo'', Ptr (GitRepo_type L)),
     (''SharedVolume'', Ptr (SharedVolume_type L)), (''ServiceAccountName'', Basic),
     (''Volumes'', Slice (lib_type L ''corev1.Volume'')), (''Mounts'', Slice (lib_type L ''corev1.VolumeMount'')),
     (''Steps'', Slice (WorkflowStep_type L))]"

definition WorkflowSpec_type :: "library \<Rightarrow> gotype" where
  "WorkflowSpec_type L = Struct [
     (''Jobs'', Slice (JobSpec_type L)), (''Steps'', Slice (WorkflowStep_type L)),
     (''Timeout'', Ptr (lib_type L ''metav1.Duration''))]"

definition JobStatus_type :: "library \<Rightarrow> gotype" where
  "JobStatus_type L = Struct [
     (''Name'', Basic), (''Phase'', Basic), (''StartedAt'', Ptr (lib_type L ''metav1.Time'')),
     (''CompletedAt'', Ptr (lib_type L ''metav1.Time''))]"

definition StepStatus_type :: "library \<Rightarrow> gotype" where
  "StepStatus_type L = Struct [
     (''Name'', Basic), (''Phase'', Basic), (''RetryCount'', Basic),
     (''StartedAt'', Ptr (lib_type L ''metav1.Time'')), (''CompletedAt'', Ptr (lib_type L ''metav1.Time'')),
     (''Message'', Basic)]"

definition WorkflowStatus_type :: "library \<Rightarrow> gotype" where
  "WorkflowStatus_type L = Struct [
     (''Conditions'', Slice (lib_type L ''metav1.Condition'')), (''Phase'', Basic),
     (''JobStatuses'', Slice (JobStatus_type L)), (''StepStatuses'', Slice (StepStatus_type L)),
     (''StartTime'', Ptr (lib_type L ''metav1.Time'')), (''CompletionTime'', Ptr (lib_type L ''metav1.Time'')),
     (''ObservedGeneration'', Basic)]"

definition Workflow_type :: "library \<Rightarrow> gotype" where
  "Workflow_type L = Struct [
     (''TypeMeta'', lib_type L ''metav1.TypeMeta''), (''ObjectMeta'', lib_type L ''metav1.ObjectMeta''),
     (''Spec'', WorkflowSpec_type L), (''Status'', WorkflowStatus_type L)]"

definition WorkflowList_type :: "library \<Rightarrow> gotype" where
  "WorkflowList_type L = Struct [
     (''TypeMeta'', lib_type L ''metav1.TypeMeta''), (''ListMeta'', lib_type L ''metav1.ListMeta''),
     (''Items'', Slice (Workflow_type L))]"

definition WebhookConfig_type :: "library \<Rightarrow> gotype" where
  "WebhookConfig_type L = Struct [
     (''Path'', Basic), (''SecretRef'', Ptr (lib_type L ''corev1.SecretReference'')), (''AllowedIPs'', Slice Basic)]"

definition ParameterMapping_type :: gotype where
  "ParameterMapping_type = Struct [
     (''Name'', Basic), (''Source'', Basic), (''Sanitize'', Basic), (''Default'', Basic), (''Required'', Basic)]"

definition RateLimitConfig_type :: gotype where
  "RateLimitConfig_type = Struct [
     (''MaxPerMinute'', Basic), (''MaxConcurrent'', Basic)]"

definition WorkflowTemplateRef_type :: gotype where
  "WorkflowTemplateRef_type = Struct [
     (''Name'', Basic), (''Namespace'', Basic)]"

definition EventTriggerSpec_type :: "library \<Rightarrow> gotype" where
  "EventTriggerSpec_type L = Struct [
     (''Webhook'', Ptr (WebhookConfig_type L)), (''WorkflowTemplate'', WorkflowTemplateRef_type),
     (''Parameters'', Slice ParameterMapping_type), (''RateLimit'', Ptr RateLimitConfig_type),
     (''AllowedNamespaces'', Slice Basic)]"

definition EventTriggerStatus_type :: "library \<Rightarrow> gotype" where
  "EventTriggerStatus_type L = Struct [
     (''Conditions'', Slice (lib_type L ''metav1.Condition'')),
     (''LastTriggerTime'', Ptr (lib_type L ''metav1.Time'')), (''WorkflowCount'', Basic), (''LastError'', Basic),
     (''Registered'', Basic)]"

definition EventTrigger_type :: "library \<Rightarrow> gotype" where
  "EventTrigger_type L = Struct [
     (''TypeMeta'', lib_type L ''metav1.TypeMeta''), (''ObjectMeta'', lib_type L ''metav1.ObjectMeta''),
     (''Spec'', EventTriggerSpec_type L), (''Status'', EventTriggerStatus_type L)]"

definition EventTriggerList_type :: "library \<Rightarrow> gotype" where
  "EventTriggerList_type L = Struct [
     (''TypeMeta'', lib_type L ''metav1.TypeMeta''), (''ListMeta'', lib_type L ''metav1.ListMeta''),
     (''Items'', Slice (EventTrigger_type L))]"

section \<open>The functions\<close>

definition DeepCopyInto_GitAuth :: copier where
  "DeepCopyInto_GitAuth = copy_struct [
     (''SecretRef'', assign)]"

definition DeepCopy_GitAuth :: copier where
  "DeepCopy_GitAuth = DeepCopy DeepCopyInto_GitAuth"

definition DeepCopyInto_GitRepo :: copier where
  "DeepCopyInto_GitRepo = copy_struct [
     (''Auth'', new_ptr assign)]"

definition DeepCopy_GitRepo :: copier where
  "DeepCopy_GitRepo = DeepCopy DeepCopyInto_GitRepo"

definition DeepCopyInto_RunnerSpec :: "library \<Rightarrow> copier" where
  "DeepCopyInto_RunnerSpec L = copy_struct [
     (''Env'', make_slice (lib_copy L ''corev1.EnvVar'')),
     (''EnvFrom'', make_slice (lib_copy L ''corev1.EnvFromSource'')),
     (''Volumes'', make_slice (lib_copy L ''corev1.Volume'')),
     (''Mounts'', make_slice (lib_copy L ''corev1.VolumeMount'')), (''Args'', make_slice assign),
     (''Command'', make_slice assign), (''TimeoutAfter'', new_ptr assign),
     (''Resources'', lib_copy L ''corev1.ResourceRequirements''),
     (''SecurityContext'', new_ptr (lib_copy L ''corev1.SecurityContext'')),
     (''GitRepo'', new_ptr DeepCopyInto_GitRepo)]"

definition DeepCopy_RunnerSpec :: "library \<Rightarrow> copier" where
  "DeepCopy_RunnerSpec L = DeepCopy (DeepCopyInto_RunnerSpec L)"

definition DeepCopyInto_RunnerStatus :: "library \<Rightarrow> copier" where
  "DeepCopyInto_RunnerStatus L = copy_struct [
     (''Conditions'', make_slice (lib_copy L ''metav1.Condition'')),
     (''StartTime'', new_ptr (lib_copy L ''metav1.Time'')),
     (''CompletionTime'', new_ptr (lib_copy L ''metav1.Time''))]"

definition DeepCopy_RunnerStatus :: "library \<Rightarrow> copier" where
  "DeepCopy_RunnerStatus L = DeepCopy (DeepCopyInto_RunnerStatus L)"

definition DeepCopyInto_Runner :: "library \<Rightarrow> copier" where
  "DeepCopyInto_Runner L = copy_struct [
     (''TypeMeta'', assign), (''ObjectMeta'', lib_copy L ''metav1.ObjectMeta''),
     (''Spec'', DeepCopyInto_RunnerSpec L), (''Status'', DeepCopyInto_RunnerStatus L)]"

definition DeepCopy_Runner :: "library \<Rightarrow> copier" where
  "DeepCopy_Runner L = DeepCopy (DeepCopyInto_Runner L)"

definition DeepCopyObject_Runner :: "library \<Rightarrow> gval \<Rightarrow> heap \<Rightarrow> gval option \<times> heap" where
  "DeepCopyObject_Runner L = DeepCopyObject (DeepCopyInto_Runner L)"

definition DeepCopyInto_RunnerList :: "library \<Rightarrow> copier" where
  "DeepCopyInto_RunnerList L = copy_struct [
     (''TypeMeta'', assign), (''ListMeta'', lib_copy L ''metav1.ListMeta''),
     (''Items'', make_slice (DeepCopyInto_Runner L))]"

definition DeepCopy_RunnerList :: "library \<Rightarrow> copier" where
  "DeepCopy_RunnerList L = DeepCopy (DeepCopyInto_RunnerList L)"

definition DeepCopyObject_RunnerList :: "library \<Rightarrow> gval \<Rightarrow> heap \<Rightarrow> gval option \<times> heap" where
  "DeepCopyObject_RunnerList L = DeepCopyObject (DeepCopyInto_RunnerList L)"

definition DeepCopyInto_BackoffConfig :: copier where
  "DeepCopyInto_BackoffConfig = copy_struct [
     (''InitialDelay'', assign), (''MaxDelay'', new_ptr assign)]"

definition DeepCopy_BackoffConfig :: copier where
  "DeepCopy_BackoffConfig = DeepCopy DeepCopyInto_BackoffConfig"

definition DeepCopyInto_RetryPolicy :: copier where
  "DeepCopyInto_RetryPolicy = copy_struct [
     (''Backoff'', new_ptr DeepCopyInto_BackoffConfig)]"

definition DeepCopy_RetryPolicy :: copier where
  "DeepCopy_RetryPolicy = DeepCopy DeepCopyInto_RetryPolicy"

definition DeepCopyInto_RunnerRef :: copier where
  "DeepCopyInto_RunnerRef = copy_struct []"

definition DeepCopy_RunnerRef :: copier where
  "DeepCopy_RunnerRef = DeepCopy DeepCopyInto_RunnerRef"

definition DeepCopyInto_WorkflowStep :: "library \<Rightarrow> copier" where
  "DeepCopyInto_WorkflowStep L = copy_struct [
     (''RunnerRef'', new_ptr assign), (''Command'', make_slice assign), (''Args'', make_slice assign),
     (''Env'', make_slice (lib_copy L ''corev1.EnvVar'')), (''Retry'', new_ptr DeepCopyInto_RetryPolicy),
     (''DependsOn'', make_slice assign), (''Timeout'', new_ptr assign),
     (''GitRepo'', new_ptr DeepCopyInto_GitRepo), (''Volumes'', make_slice (lib_copy L ''corev1.Volume'')),
     (''Mounts'', make_slice (lib_copy L ''corev1.VolumeMount''))]"

definition DeepCopy_WorkflowStep :: "library \<Rightarrow> copier" where
  "DeepCopy_WorkflowStep L = DeepCopy (DeepCopyInto_WorkflowStep L)"

definition DeepCopyInto_SharedVolume :: "library \<Rightarrow> copier" where
  "DeepCopyInto_SharedVolume L = copy_struct [
     (''EmptyDir'', new_ptr (lib_copy L ''corev1.EmptyDirVolumeSource'')),
     (''PersistentVolumeClaim'', new_ptr assign)]"

definition DeepCopy_SharedVolume :: "library \<Rightarrow> copier" where
  "DeepCopy_SharedVolume L = DeepCopy (DeepCopyInto_SharedVolume L)"

definition DeepCopyInto_JobSpec :: "library \<Rightarrow> copier" where
  "DeepCopyInto_JobSpec L = copy_struct [
     (''Needs'', make_slice assign), (''Env'', make_slice (lib_copy L ''corev1.EnvVar'')),
     (''GitRepo'', new_ptr DeepCopyInto_GitRepo), (''SharedVolume'', new_ptr (DeepCopyInto_SharedVolume L)),
     (''Volumes'', make_slice (lib_copy L ''corev1.Volume'')),
     (''Mounts'', make_slice (lib_copy L ''corev1.VolumeMount'')),
     (''Steps'', make_slice (DeepCopyInto_WorkflowStep L))]"

definition DeepCopy_JobSpec :: "library \<Rightarrow> copier" where
  "DeepCopy_JobSpec L = DeepCopy (DeepCopyInto_JobSpec L)"

definition DeepCopyInto_WorkflowSpec :: "library \<Rightarrow> copier" where
  "DeepCopyInto_WorkflowSpec L = copy_struct [
     (''Jobs'', make_slice (DeepCopyInto_JobSpec L)), (''Steps'', make_slice (DeepCopyInto_WorkflowStep L)),
     (''Timeout'', new_ptr assign)]"

definition DeepCopy_WorkflowSpec :: "library \<Rightarrow> copier" where
  "DeepCopy_WorkflowSpec L = DeepCopy (DeepCopyInto_WorkflowSpec L)"

definition DeepCopyInto_JobStatus :: "library \<Rightarrow> copier" where
  "DeepCopyInto_JobStatus L = copy_struct [
     (''StartedAt'', new_ptr (lib_copy L ''metav1.Time'')), (''CompletedAt'', new_ptr (lib_copy L ''metav1.Time''))]"

definition DeepCopy_JobStatus :: "library \<Rightarrow> copier" where
  "DeepCopy_JobStatus L = DeepCopy (DeepCopyInto_JobStatus L)"

definition DeepCopyInto_StepStatus :: "library \<Rightarrow> copier" where
  "DeepCopyInto_StepStatus L = copy_struct [
     (''StartedAt'', new_ptr (lib_copy L ''metav1.Time'')), (''CompletedAt'', new_ptr (lib_copy L ''metav1.Time''))]"

definition DeepCopy_StepStatus :: "library \<Rightarrow> copier" where
  "DeepCopy_StepStatus L = DeepCopy (DeepCopyInto_StepStatus L)"

definition DeepCopyInto_WorkflowStatus :: "library \<Rightarrow> copier" where
  "DeepCopyInto_WorkflowStatus L = copy_struct [
     (''Conditions'', make_slice (lib_copy L ''metav1.Condition'')),
     (''JobStatuses'', make_slice (DeepCopyInto_JobStatus L)),
     (''StepStatuses'', make_slice (DeepCopyInto_StepStatus L)),
     (''StartTime'', new_ptr (lib_copy L ''metav1.Time'')),
     (''CompletionTime'', new_ptr (lib_copy L ''metav1.Time''))]"

definition DeepCopy_WorkflowStatus :: "library \<Rightarrow> copier" where
  "DeepCopy_WorkflowStatus L = DeepCopy (DeepCopyInto_WorkflowStatus L)"

definition DeepCopyInto_Workflow :: "library \<Rightarrow> copier" where
  "DeepCopyInto_Workflow L = copy_struct [
     (''TypeMeta'', assign), (''ObjectMeta'', lib_copy L ''metav1.ObjectMeta''),
     (''Spec'', DeepCopyInto_WorkflowSpec L), (''Status'', DeepCopyInto_WorkflowStatus L)]"

definition DeepCopy_Workflow :: "library \<Rightarrow> copier" where
  "DeepCopy_Workflow L = DeepCopy (DeepCopyInto_Workflow L)"

definition DeepCopyObject_Workflow :: "library \<Rightarrow> gval \<Rightarrow> heap \<Rightarrow> gval option \<times> heap" where
  "DeepCopyObject_Workflow L = DeepCopyObject (DeepCopyInto_Workflow L)"

definition DeepCopyInto_WorkflowList :: "library \<Rightarrow> copier" where
  "DeepCopyInto_WorkflowList L = copy_struct [
     (''TypeMeta'', assign), (''ListMeta'', lib_copy L ''metav1.ListMeta''),
     (''Items'', make_slice (DeepCopyInto_Workflow L))]"

definition DeepCopy_WorkflowList :: "library \<Rightarrow> copier" where
  "DeepCopy_WorkflowList L = DeepCopy (DeepCopyInto_WorkflowList L)"

definition DeepCopyObject_WorkflowList :: "library \<Rightarrow> gval \<Rightarrow> heap \<Rightarrow> gval option \<times> heap" where
  "DeepCopyObject_WorkflowList L = DeepCopyObject (DeepCopyInto_WorkflowList L)"

definition DeepCopyInto_WebhookConfig :: copier where
  "DeepCopyInto_WebhookConfig = copy_struct [
     (''SecretRef'', new_ptr assign), (''AllowedIPs'', make_slice assign)]"

definition DeepCopy_WebhookConfig :: copier where
  "DeepCopy_WebhookConfig = DeepCopy DeepCopyInto_WebhookConfig"

definition DeepCopyInto_ParameterMapping :: copier where
  "DeepCopyInto_ParameterMapping = copy_struct []"

definition DeepCopy_ParameterMapping :: copier where
  "DeepCopy_ParameterMapping = DeepCopy DeepCopyInto_ParameterMapping"

definition DeepCopyInto_RateLimitConfig :: copier where
  "DeepCopyInto_RateLimitConfig = copy_struct []"

definition DeepCopy_RateLimitConfig :: copier where
  "DeepCopy_RateLimitConfig = DeepCopy DeepCopyInto_RateLimitConfig"

definition DeepCopyInto_WorkflowTemplateRef :: copier where
  "DeepCopyInto_WorkflowTemplateRef = copy_struct []"

definition DeepCopy_WorkflowTemplateRef :: copier where
  "DeepCopy_WorkflowTemplateRef = DeepCopy DeepCopyInto_WorkflowTemplateRef"

definition DeepCopyInto_EventTriggerSpec :: copier where
  "DeepCopyInto_EventTriggerSpec = copy_struct [
     (''Webhook'', new_ptr DeepCopyInto_WebhookConfig), (''WorkflowTemplate'', assign),
     (''Parameters'', make_slice assign), (''RateLimit'', new_ptr assign),
     (''AllowedNamespaces'', make_slice assign)]"

definition DeepCopy_EventTriggerSpec :: copier where
  "DeepCopy_EventTriggerSpec = DeepCopy DeepCopyInto_EventTriggerSpec"

definition DeepCopyInto_EventTriggerStatus :: "library \<Rightarrow> copier" where
  "DeepCopyInto_EventTriggerStatus L = copy_struct [
     (''Conditions'', make_slice (lib_copy L ''metav1.Condition'')),
     (''LastTriggerTime'', new_ptr (lib_copy L ''metav1.Time''))]"

definition DeepCopy_EventTriggerStatus :: "library \<Rightarrow> copier" where
  "DeepCopy_EventTriggerStatus L = DeepCopy (DeepCopyInto_EventTriggerStatus L)"

definition DeepCopyInto_EventTrigger :: "library \<Rightarrow> copier" where
  "DeepCopyInto_EventTrigger L = copy_struct [
     (''TypeMeta'', assign), (''ObjectMeta'', lib_copy L ''metav1.ObjectMeta''),
     (''Spec'', DeepCopyInto_EventTriggerSpec), (''Status'', DeepCopyInto_EventTriggerStatus L)]"

definition DeepCopy_EventTrigger :: "library \<Rightarrow> copier" where
  "DeepCopy_EventTrigger L = DeepCopy (DeepCopyInto_EventTrigger L)"

definition DeepCopyObject_EventTrigger :: "library \<Rightarrow> gval \<Rightarrow> heap \<Rightarrow> gval option \<times> heap" where
  "DeepCopyObject_EventTrigger L = DeepCopyObject (DeepCopyInto_EventTrigger L)"

definition DeepCopyInto_EventTriggerList :: "library \<Rightarrow> copier" where
  "DeepCopyInto_EventTriggerList L = copy_struct [
     (''TypeMeta'', assign), (''ListMeta'', lib_copy L ''metav1.ListMeta''),
     (''Items'', make_slice (DeepCopyInto_EventTrigger L))]"

definition DeepCopy_EventTriggerList :: "library \<Rightarrow> copier" where
  "DeepCopy_EventTriggerList L = DeepCopy (DeepCopyInto_EventTriggerList L)"

definition DeepCopyObject_EventTriggerList :: "library \<Rightarrow> gval \<Rightarrow> heap \<Rightarrow> gval option \<times> heap" where
  "DeepCopyObject_EventTriggerList L = DeepCopyObject (DeepCopyInto_EventTriggerList L)"

text \<open>All of them: the type that is copied and its \<open>DeepCopy\<close>; and those that are a \<open>runtime.Object\<close>.\<close>

definition deep_copies :: "library \<Rightarrow> (gotype \<times> copier) list" where
  "deep_copies L = [
     (GitAuth_type L, DeepCopy_GitAuth),
     (GitRepo_type L, DeepCopy_GitRepo),
     (RunnerSpec_type L, DeepCopy_RunnerSpec L),
     (RunnerStatus_type L, DeepCopy_RunnerStatus L),
     (Runner_type L, DeepCopy_Runner L),
     (RunnerList_type L, DeepCopy_RunnerList L),
     (BackoffConfig_type L, DeepCopy_BackoffConfig),
     (RetryPolicy_type L, DeepCopy_RetryPolicy),
     (RunnerRef_type, DeepCopy_RunnerRef),
     (WorkflowStep_type L, DeepCopy_WorkflowStep L),
     (SharedVolume_type L, DeepCopy_SharedVolume L),
     (JobSpec_type L, DeepCopy_JobSpec L),
     (WorkflowSpec_type L, DeepCopy_WorkflowSpec L),
     (JobStatus_type L, DeepCopy_JobStatus L),
     (StepStatus_type L, DeepCopy_StepStatus L),
     (WorkflowStatus_type L, DeepCopy_WorkflowStatus L),
     (Workflow_type L, DeepCopy_Workflow L),
     (WorkflowList_type L, DeepCopy_WorkflowList L),
     (WebhookConfig_type L, DeepCopy_WebhookConfig),
     (ParameterMapping_type, DeepCopy_ParameterMapping),
     (RateLimitConfig_type, DeepCopy_RateLimitConfig),
     (WorkflowTemplateRef_type, DeepCopy_WorkflowTemplateRef),
     (EventTriggerSpec_type L, DeepCopy_EventTriggerSpec),
     (EventTriggerStatus_type L, DeepCopy_EventTriggerStatus L),
     (EventTrigger_type L, DeepCopy_EventTrigger L),
     (EventTriggerList_type L, DeepCopy_EventTriggerList L)]"

definition object_copies :: "library \<Rightarrow> (gotype \<times> (gval \<Rightarrow> heap \<Rightarrow> gval option \<times> heap)) list" where
  "object_copies L = [
     (Runner_type L, DeepCopyObject_Runner L),
     (RunnerList_type L, DeepCopyObject_RunnerList L),
     (Workflow_type L, DeepCopyObject_Workflow L),
     (WorkflowList_type L, DeepCopyObject_WorkflowList L),
     (EventTrigger_type L, DeepCopyObject_EventTrigger L),
     (EventTriggerList_type L, DeepCopyObject_EventTriggerList L)]"

section \<open>Every copy is deep\<close>

lemma deep_structI:
  assumes "distinct (map fst Fs)"
    and "list_all (\<lambda>(f, c). case map_of Fs f of None \<Rightarrow> False | Some T \<Rightarrow> deep T c) S"
    and "list_all (\<lambda>(f, T). f \<in> set (map fst S) \<or> plain T) Fs"
  shows "deep (Struct Fs) (copy_struct S)"
proof (rule deep_copy_struct [OF assms(1)])
  show "\<forall>(f, c) \<in> set S. \<exists>T. (f, T) \<in> set Fs \<and> deep T c"
    using assms(2) by (fastforce simp: list_all_iff dest: map_of_SomeD split: option.splits)
  show "\<forall>(f, T) \<in> set Fs. f \<in> fst ` set S \<or> plain T" using assms(3) by (simp add: list_all_iff)
qed

lemmas DeepCopy_defs =
  DeepCopy_GitAuth_def DeepCopy_GitRepo_def DeepCopy_RunnerSpec_def DeepCopy_RunnerStatus_def
  DeepCopy_Runner_def DeepCopy_RunnerList_def DeepCopy_BackoffConfig_def DeepCopy_RetryPolicy_def
  DeepCopy_RunnerRef_def DeepCopy_WorkflowStep_def DeepCopy_SharedVolume_def DeepCopy_JobSpec_def
  DeepCopy_WorkflowSpec_def DeepCopy_JobStatus_def DeepCopy_StepStatus_def DeepCopy_WorkflowStatus_def
  DeepCopy_Workflow_def DeepCopy_WorkflowList_def DeepCopy_WebhookConfig_def DeepCopy_ParameterMapping_def
  DeepCopy_RateLimitConfig_def DeepCopy_WorkflowTemplateRef_def DeepCopy_EventTriggerSpec_def
  DeepCopy_EventTriggerStatus_def DeepCopy_EventTrigger_def DeepCopy_EventTriggerList_def

lemmas DeepCopyObject_defs =
  DeepCopyObject_Runner_def DeepCopyObject_RunnerList_def DeepCopyObject_Workflow_def
  DeepCopyObject_WorkflowList_def DeepCopyObject_EventTrigger_def DeepCopyObject_EventTriggerList_def

lemmas value_type_defs = RunnerRef_type_def ParameterMapping_type_def RateLimitConfig_type_def WorkflowTemplateRef_type_def

lemmas value_copy_defs =
  DeepCopyInto_RunnerRef_def DeepCopyInto_ParameterMapping_def DeepCopyInto_RateLimitConfig_def DeepCopyInto_WorkflowTemplateRef_def

text \<open>The copies known to be deep and the types known to be plain; each type is added when it is proved.\<close>

named_theorems deep_copying

lemmas [deep_copying] = deep_new_ptr deep_make_slice deep_assign

lemma plain_values [deep_copying]:
  "plain RunnerRef_type" "plain ParameterMapping_type" "plain RateLimitConfig_type" "plain WorkflowTemplateRef_type"
  by (simp_all add: value_type_defs)

lemma deep_libraryD [deep_copying]:
  assumes "deep_library L"
  shows "deep (lib_type L n) (lib_copy L n)" "plain (lib_type L ''metav1.TypeMeta'')" "plain (lib_type L ''metav1.Duration'')"
    "plain (lib_type L ''corev1.LocalObjectReference'')" "plain (lib_type L ''corev1.SecretReference'')"
    "plain (lib_type L ''corev1.PersistentVolumeClaimVolumeSource'')"
  using assms by (simp_all add: deep_library_def assigned_types_def)

lemma deep_values [deep_copying]:
  shows "deep RunnerRef_type DeepCopyInto_RunnerRef"
    "deep ParameterMapping_type DeepCopyInto_ParameterMapping"
    "deep RateLimitConfig_type DeepCopyInto_RateLimitConfig"
    "deep WorkflowTemplateRef_type DeepCopyInto_WorkflowTemplateRef"
  unfolding value_type_defs value_copy_defs
  by (rule deep_structI; simp)+

lemma plain_GitAuth [deep_copying]: "deep_library L \<Longrightarrow> plain (GitAuth_type L)"
  by (simp add: GitAuth_type_def deep_copying)

lemma deep_GitAuth [deep_copying]: "deep_library L \<Longrightarrow> deep (GitAuth_type L) DeepCopyInto_GitAuth"
  unfolding GitAuth_type_def DeepCopyInto_GitAuth_def by (rule deep_structI) (simp_all add: deep_copying)

lemma deep_GitRepo [deep_copying]: "deep_library L \<Longrightarrow> deep (GitRepo_type L) DeepCopyInto_GitRepo"
  unfolding GitRepo_type_def DeepCopyInto_GitRepo_def by (rule deep_structI) (simp_all add: deep_copying)

lemma deep_RunnerSpec [deep_copying]: "deep_library L \<Longrightarrow> deep (RunnerSpec_type L) (DeepCopyInto_RunnerSpec L)"
  unfolding RunnerSpec_type_def DeepCopyInto_RunnerSpec_def by (rule deep_structI) (simp_all add: deep_copying)

lemma deep_RunnerStatus [deep_copying]: "deep_library L \<Longrightarrow> deep (RunnerStatus_type L) (DeepCopyInto_RunnerStatus L)"
  unfolding RunnerStatus_type_def DeepCopyInto_RunnerStatus_def by (rule deep_structI) (simp_all add: deep_copying)

lemma deep_Runner [deep_copying]: "deep_library L \<Longrightarrow> deep (Runner_type L) (DeepCopyInto_Runner L)"
  unfolding Runner_type_def DeepCopyInto_Runner_def by (rule deep_structI) (simp_all add: deep_copying)

lemma deep_RunnerList [deep_copying]: "deep_library L \<Longrightarrow> deep (RunnerList_type L) (DeepCopyInto_RunnerList L)"
  unfolding RunnerList_type_def DeepCopyInto_RunnerList_def by (rule deep_structI) (simp_all add: deep_copying)

lemma deep_BackoffConfig [deep_copying]: "deep_library L \<Longrightarrow> deep (BackoffConfig_type L) DeepCopyInto_BackoffConfig"
  unfolding BackoffConfig_type_def DeepCopyInto_BackoffConfig_def by (rule deep_structI) (simp_all add: deep_copying)

lemma deep_RetryPolicy [deep_copying]: "deep_library L \<Longrightarrow> deep (RetryPolicy_type L) DeepCopyInto_RetryPolicy"
  unfolding RetryPolicy_type_def DeepCopyInto_RetryPolicy_def by (rule deep_structI) (simp_all add: deep_copying)

lemma deep_WorkflowStep [deep_copying]: "deep_library L \<Longrightarrow> deep (WorkflowStep_type L) (DeepCopyInto_WorkflowStep L)"
  unfolding WorkflowStep_type_def DeepCopyInto_WorkflowStep_def by (rule deep_structI) (simp_all add: deep_copying)

lemma deep_SharedVolume [deep_copying]: "deep_library L \<Longrightarrow> deep (SharedVolume_type L) (DeepCopyInto_SharedVolume L)"
  unfolding SharedVolume_type_def DeepCopyInto_SharedVolume_def by (rule deep_structI) (simp_all add: deep_copying)

lemma deep_JobSpec [deep_copying]: "deep_library L \<Longrightarrow> deep (JobSpec_type L) (DeepCopyInto_JobSpec L)"
  unfolding JobSpec_type_def DeepCopyInto_JobSpec_def by (rule deep_structI) (simp_all add: deep_copying)

lemma deep_WorkflowSpec [deep_copying]: "deep_library L \<Longrightarrow> deep (WorkflowSpec_type L) (DeepCopyInto_WorkflowSpec L)"
  unfolding WorkflowSpec_type_def DeepCopyInto_WorkflowSpec_def by (rule deep_structI) (simp_all add: deep_copying)

lemma deep_JobStatus [deep_copying]: "deep_library L \<Longrightarrow> deep (JobStatus_type L) (DeepCopyInto_JobStatus L)"
  unfolding JobStatus_type_def DeepCopyInto_JobStatus_def by (rule deep_structI) (simp_all add: deep_copying)

lemma deep_StepStatus [deep_copying]: "deep_library L \<Longrightarrow> deep (StepStatus_type L) (DeepCopyInto_StepStatus L)"
  unfolding StepStatus_type_def DeepCopyInto_StepStatus_def by (rule deep_structI) (simp_all add: deep_copying)

lemma deep_WorkflowStatus [deep_copying]: "deep_library L \<Longrightarrow> deep (WorkflowStatus_type L) (DeepCopyInto_WorkflowStatus L)"
  unfolding WorkflowStatus_type_def DeepCopyInto_WorkflowStatus_def by (rule deep_structI) (simp_all add: deep_copying)

lemma deep_Workflow [deep_copying]: "deep_library L \<Longrightarrow> deep (Workflow_type L) (DeepCopyInto_Workflow L)"
  unfolding Workflow_type_def DeepCopyInto_Workflow_def by (rule deep_structI) (simp_all add: deep_copying)

lemma deep_WorkflowList [deep_copying]: "deep_library L \<Longrightarrow> deep (WorkflowList_type L) (DeepCopyInto_WorkflowList L)"
  unfolding WorkflowList_type_def DeepCopyInto_WorkflowList_def by (rule deep_structI) (simp_all add: deep_copying)

lemma deep_WebhookConfig [deep_copying]: "deep_library L \<Longrightarrow> deep (WebhookConfig_type L) DeepCopyInto_WebhookConfig"
  unfolding WebhookConfig_type_def DeepCopyInto_WebhookConfig_def by (rule deep_structI) (simp_all add: deep_copying)

lemma deep_EventTriggerSpec [deep_copying]: "deep_library L \<Longrightarrow> deep (EventTriggerSpec_type L) DeepCopyInto_EventTriggerSpec"
  unfolding EventTriggerSpec_type_def DeepCopyInto_EventTriggerSpec_def by (rule deep_structI) (simp_all add: deep_copying)

lemma deep_EventTriggerStatus [deep_copying]: "deep_library L \<Longrightarrow> deep (EventTriggerStatus_type L) (DeepCopyInto_EventTriggerStatus L)"
  unfolding EventTriggerStatus_type_def DeepCopyInto_EventTriggerStatus_def by (rule deep_structI) (simp_all add: deep_copying)

lemma deep_EventTrigger [deep_copying]: "deep_library L \<Longrightarrow> deep (EventTrigger_type L) (DeepCopyInto_EventTrigger L)"
  unfolding EventTrigger_type_def DeepCopyInto_EventTrigger_def by (rule deep_structI) (simp_all add: deep_copying)

lemma deep_EventTriggerList [deep_copying]: "deep_library L \<Longrightarrow> deep (EventTriggerList_type L) (DeepCopyInto_EventTriggerList L)"
  unfolding EventTriggerList_type_def DeepCopyInto_EventTriggerList_def by (rule deep_structI) (simp_all add: deep_copying)

lemma deep_copies_deep: "deep_library L \<Longrightarrow> list_all (\<lambda>(T, c). deep (Ptr T) c) (deep_copies L)"
  by (simp add: deep_copies_def DeepCopy_defs deep_DeepCopy deep_copying)

text \<open>\<open>DeepCopyObject\<close> is the nil interface for a nil pointer, and otherwise an interface with the copy in it.\<close>

lemma object_copies_deep:
  assumes "deep_library L" "(T, c) \<in> set (object_copies L)"
  shows "\<exists>c'. deep T c' \<and> c = DeepCopyObject c'"
proof -
  have "list_all (\<lambda>(T, c). \<exists>c'. deep T c' \<and> c = DeepCopyObject c') (object_copies L)"
    by (simp only: object_copies_def list.pred_inject prod.case DeepCopyObject_defs)
       (use assms(1) in \<open>blast intro: deep_copying\<close>)
  then show ?thesis using assms(2) by (auto simp: list_all_iff)
qed

lemma DeepCopyObject_spec:
  assumes "deep_library L" "(T, c) \<in> set (object_copies L)"
  shows "c (GPtr None) h = (None, h)"
    and "read h (Ptr T) (GPtr (Some p)) = Some (t, A) \<Longrightarrow>
      \<exists>x ext B. c (GPtr (Some p)) h = (Some x, h @ ext) \<and> read (h @ ext) (Ptr T) x = Some (t, B) \<and> fresh (length h) B"
proof -
  obtain c' where c': "deep T c'" "c = DeepCopyObject c'" using object_copies_deep [OF assms] by blast
  then show "c (GPtr None) h = (None, h)" by (simp add: DeepCopyObject_def DeepCopy_def)
  assume r: "read h (Ptr T) (GPtr (Some p)) = Some (t, A)"
  from deepE [OF deep_DeepCopy [OF c'(1)] r] obtain x ext B where
    x: "DeepCopy c' (GPtr (Some p)) h = (x, h @ ext)" "read (h @ ext) (Ptr T) x = Some (t, B)" "fresh (length h) B" .
  moreover have "x \<noteq> GPtr None" using r x(2) by (auto split: if_splits)
  ultimately show "\<exists>x ext B. c (GPtr (Some p)) h = (Some x, h @ ext) \<and> read (h @ ext) (Ptr T) x = Some (t, B) \<and> fresh (length h) B"
    using c'(2) by (auto simp: DeepCopyObject_def)
qed

text \<open>
  C13. Every generated copy is a deep copy: \<open>DeepCopy\<close> of each of the 26 types leaves all memory as it was
  and returns a pointer to a value with the same meaning that shares no memory with the original.
  So the copy keeps its meaning whatever is written to the old memory (the base of a patch while the
  object is changed), and the original keeps its own whatever is written to the new memory.
\<close>

theorem deep_copies_independent:
  assumes "deep_library L" "(T, c) \<in> set (deep_copies L)" "read h (Ptr T) v = Some (t, A)"
  shows "\<exists>x h' B. c v h = (x, h') \<and> take (length h) h' = h \<and> read h' (Ptr T) x = Some (t, B) \<and> set A \<inter> set B = {} \<and>
    (\<forall>a y. a < length h \<longrightarrow> read (h'[a := y]) (Ptr T) x = Some (t, B)) \<and>
    (\<forall>a y. a \<ge> length h \<longrightarrow> read (h'[a := y]) (Ptr T) v = Some (t, A))"
proof (rule deep_independent [OF _ assms(3)])
  show "deep (Ptr T) c" using deep_copies_deep [OF assms(1)] assms(2) by (auto simp: list_all_iff)
qed

text \<open>A library with a type that needs a deep copy, and a trigger with pointers and slices at two levels.\<close>

definition sample_library :: library where
  "sample_library n =
     (if n = ''corev1.EnvVar''
      then (Struct [(''Name'', Basic), (''Value'', Basic), (''ValueFrom'', Ptr Basic)], copy_struct [(''ValueFrom'', new_ptr assign)])
      else (Basic, assign))"

definition sample_heap :: heap where
  "sample_heap = [
     [GStruct [(''Webhook'', GPtr (Some 1)),
        (''WorkflowTemplate'', GStruct [(''Name'', GBasic (BText ''build'')), (''Namespace'', GBasic (BText ''ci''))]),
        (''Parameters'', GSlice None), (''RateLimit'', GPtr (Some 4)), (''AllowedNamespaces'', GSlice (Some (5, 1, 2)))]],
     [GStruct [(''Path'', GBasic (BText ''/push'')), (''SecretRef'', GPtr (Some 2)), (''AllowedIPs'', GSlice (Some (3, 0, 1)))]],
     [GBasic (BText ''hmac'')],
     [GBasic (BText ''10.0.0.0/8'')],
     [GStruct [(''MaxPerMinute'', GBasic (BInt 5)), (''MaxConcurrent'', GBasic (BInt 0))]],
     [GBasic (BText ''a''), GBasic (BText ''b''), GBasic (BText ''c'')]]"

lemma sample_library_deep: "deep_library sample_library"
proof -
  have "deep (lib_type sample_library n) (lib_copy sample_library n)" for n
    by (auto simp: lib_type_def lib_copy_def sample_library_def intro!: deep_structI deep_new_ptr deep_assign)
  then show ?thesis by (simp add: deep_library_def assigned_types_def lib_type_def sample_library_def)
qed

theorem deep_copies_independent_witness:
  "\<exists>x h' t. DeepCopy_EventTriggerSpec (GPtr (Some 0)) sample_heap = (x, h') \<and>
     map_option fst (read sample_heap (Ptr (EventTriggerSpec_type sample_library)) (GPtr (Some 0))) = Some t \<and>
     map_option fst (read (h'[3 := [GBasic (BText ''0.0.0.0/0'')]]) (Ptr (EventTriggerSpec_type sample_library)) x) = Some t"
proof -
  let ?T = "EventTriggerSpec_type sample_library"
  have mem: "(?T, DeepCopy_EventTriggerSpec) \<in> set (deep_copies sample_library)" by (simp add: deep_copies_def)
  obtain t A where r: "read sample_heap (Ptr ?T) (GPtr (Some 0)) = Some (t, A)"
    by (simp add: sample_heap_def EventTriggerSpec_type_def WebhookConfig_type_def WorkflowTemplateRef_type_def RateLimitConfig_type_def
        lib_type_def sample_library_def numeral_nat)
  have "3 < length sample_heap" by (simp add: sample_heap_def)
  then show ?thesis using deep_copies_independent [OF sample_library_deep mem r] r by fastforce
qed

end
