(* ===== verification/Spec2Isabelle.thy ===== *)
theory Spec2Isabelle
  imports Operator_Run Job_Progress Webhook_Concurrency Metrics Command_Line Permissions Server_Lifecycle Deep_Copy
begin

text \<open>
  A verification library for the runner-operator, a Kubernetes operator written in Go.

  \<^bold>\<open>The program.\<close> Three controllers and an HTTP server share one process.  The Runner controller
  (\<open>internal/controller/runner_controller.go\<close>) turns a Runner into a batch Job and takes the phase
  of the Job over into the Runner's status.  The Workflow controller
  (\<open>internal/controller/workflow_controller.go\<close>) turns a Workflow, a graph of steps or of jobs with
  steps, into Runners, follows their phases and aggregates them.  The EventTrigger controller
  (\<open>internal/controller/eventtrigger_controller.go\<close>) registers routes with the HTTP server
  (\<open>internal/webhook/events/server.go\<close>), which creates Workflows from a template when a request
  passes its checks.  \<open>internal/gitops\<close> plans how a Runner clones its repository;
  \<open>internal/startup\<close> compares the permissions and resource definitions of the cluster with those the
  operator needs.  \<open>cmd/main.go\<close> turns the command line into options and starts these parts in order.

  \<^bold>\<open>How it is modelled.\<close> A Go struct is a record, a string enumeration a datatype or the string
  itself where any value is possible, a map an association list without order, a nil slice is
  distinguished from an empty one where the code can tell them apart.  Everything outside the
  repository (the API server, the clock, the JSON encoder, the apimachinery helpers) is a field of
  the record \<open>env\<close> of \<open>Cluster\<close> or \<open>http_env\<close> of \<open>Webhook_Server\<close>, an argument of every operation that
  uses it; so a theorem holds for every behaviour of those parts that its hypotheses allow.  The
  named hypotheses are \<open>sets_condition\<close> (\<open>meta.SetStatusCondition\<close> replaces the condition of the same
  type), \<open>sets_owner\<close> and \<open>can_own\<close> (\<open>SetControllerReference\<close> changes only the owner references, and accepts an
  object of the owner's namespace that has none),
  \<open>patches_status\<close> (a status patch answers with the object that was sent) and \<open>ranges_all\<close> (a range
  loop visits each entry of a map once).  What an operation does to the outside is the log of its
  requests, events and metric updates in the record \<open>world\<close>.  An error of Go is a value of \<open>apierr\<close>
  or a message in a sum or option type; every early return is a branch.

  \<^bold>\<open>The library, theory by theory.\<close>

  \<^item> \<open>Prelude\<close>: Go's maps, slices, 64-bit durations and the in-place update of a list, with the
    lemmas the components share; the collections of simplification rules.
  \<^item> \<open>Go_Strings\<close>, \<open>Go_Time\<close>, \<open>Go_Net\<close>, \<open>Crypto\<close>: the functions of the standard library the source
    calls: strings and fmt on byte strings, \<open>int64(d.Seconds())\<close> in float64 arithmetic, the parsers
    of addresses and networks, SHA-256, HMAC and hexadecimal digits.
  \<^item> \<open>Api_Types\<close>: the types of \<open>api/v1alpha1\<close> and the parts of the Kubernetes types the code reads.
  \<^item> \<open>Cluster\<close>: the environment, the requests and the log.
  \<^item> \<open>Conditions\<close>: \<open>conditions.go\<close> and the helpers that set the Ready condition.
  \<^item> \<open>Gitops\<close>: \<open>internal/gitops\<close>; the locale \<open>auth_strategy\<close> is the Go interface \<open>AuthStrategy\<close> with
    what the clone plan needs of it, interpreted on the three strategies.  A reader for the words
    of a POSIX shell line is the specification of the quoting: the words of the generated clone, fetch
    and checkout commands are exactly the given URL and revision, whatever bytes they hold.  The lines
    that check the path do not have this property (\<open>path_check_substitutes\<close>).
  \<^item> \<open>Dep_Graph\<close>: \<open>cycleDetector\<close> and \<open>topologicalSortSteps\<close>; the detector reports a cycle exactly if
    the dependency relation has one, and the sort is a permutation in dependency order.
  \<^item> \<open>Workflow_Status\<close>: the step and job status tables and \<open>computeWorkflowPhase\<close>, with the locales
    \<open>status_table\<close> and \<open>status_kind\<close> interpreted once for steps and once for jobs.
  \<^item> \<open>Workflow_Steps\<close>: \<open>reconcileStepLoop\<close> and all it calls.  The loop is generic in the function that
    builds a Runner, whose contract is the locale \<open>step_builder\<close> with an interpretation for flat
    Workflows and one for jobs.  \<open>Step_Properties\<close>: exactly the ready steps are started, retries are
    bounded, finished steps are left alone, a step follows its Runner.
  \<^item> \<open>Workflow_Controller\<close>: \<open>Reconcile\<close> in both modes, timeouts and quota.  \<open>Workflow_Properties\<close>: an
    invariant of the status over any history of passes, rejection of cyclic graphs, timeouts, the
    quota.  \<open>Job_Properties\<close>: the gates between jobs, the decoration of their Runners.
  \<^item> \<open>Runner_Controller\<close>: \<open>Reconcile\<close> of a Runner, the Job and its pod, spec drift, the status.
    \<open>Runner_Properties\<close>: when Jobs are created and deleted, that pods are well formed and hardened,
    that the status follows the Job.
  \<^item> \<open>Webhook_Server\<close>: the route table, the rate limit, the checks of a request and the Workflow it
    creates.  \<open>Webhook_Properties\<close>: every check is a gate, each check is exact, parameters are
    extracted as configured and reach the steps.  \<open>Server_Lifecycle\<close>: \<open>Start\<close>, the multiplexer that cleans paths before \<open>handleRequest\<close>, and the
    request log; what is logged is what is sent.
  \<^item> \<open>EventTrigger_Controller\<close>: \<open>Reconcile\<close> of an EventTrigger and the mapping from secrets.
    \<open>Trigger_Properties\<close>: the locale \<open>route_table\<close> is what controller and server share; the table after
    any history of passes and requests, and the effect of a rotated secret.
  \<^item> \<open>Startup\<close>: \<open>internal/startup\<close>: the permission check and its periodic repetition; over any history of
    ticks exactly the missing permissions and the changes are reported.
  \<^item> \<open>Operator_Run\<close>: the Workflow and the Runner controller over the history of the API server, from
    which each read may return any earlier version of an object.  A step is recorded as Succeeded
    only if a Job of its Runner was reported complete.  \<open>Workflow_Progress\<close>: the converse; in a run in
    which reads are fresh, the timeout and the quota do not intervene, the requests are accepted
    (\<open>cooperative\<close>) and no Runner fails (\<open>happy_run\<close>), a Workflow without a cycle succeeds after a
    bounded number of passes that find its Runners succeeded.
    \<open>Job_Progress\<close>: the same for jobs; each such pass starts a step or finishes a job.
  \<^item> \<open>Webhook_Concurrency\<close>: the server as a transition system whose steps are the critical sections of
    any number of handlers and the changes of the routes.  The gates and the rate limit hold under
    every interleaving; the one-step handler of \<open>Webhook_Server\<close> is one of its runs.
  \<^item> \<open>Effects\<close>: locales that carry a property of single effects to the log of a whole pass.
    \<open>Metrics\<close> interprets them on the vectors of \<open>metrics.go\<close>: every update fits a registered vector, and
    the gauge of active Runners follows the phase.  \<open>Wiring\<close> interprets them on the watches of
    \<open>SetupWithManager\<close>: each controller writes only what it owns.  \<open>Wiring\<close> also holds \<open>main\<close>: the
    options and the order of the start.
  \<^item> \<open>Access\<close>: locales with the requests each controller makes, reads included; a pass cannot tell two
    environments apart that agree on them.  \<open>Permissions\<close> interprets them on an API server that refuses
    what the permission markers of the controller do not grant: they grant all it asks for.  \<open>Command_Line\<close>: the flags of \<open>main\<close> under the parser of
    Go's package \<open>flag\<close>; every way to write a set of flags has the same effect.
  \<^item> \<open>Go_Heap\<close>: pointers and slices on a heap, reading a value as the tree it means, and the statements
    of a generated copy.  \<open>Deep_Copy\<close>: the functions of \<open>zz_generated.deepcopy.go\<close>, one definition each;
    a copy means the same as the original and shares no memory with it, which is why the other
    theories may treat a copy as the value itself.  The copies of the Kubernetes types are the
    parameter \<open>library\<close> with the hypothesis \<open>deep_library\<close>.

  \<^bold>\<open>Bounds and termination.\<close> Every definition is total.  The depth-first search terminates because
  the set of unseen names shrinks, the sort because in-degrees and queue shrink, the
  parser of flags because each step consumes an argument.  The parser of
  IPv6 addresses counts down from eight groups, the number such an address has.  Durations are 64-bit words, so the
  doubling of the retry delay wraps as in Go; \<open>Seconds\<close> is exact below \<open>2^24\<close> seconds.  A log excerpt has
  at most 4096 bytes, a payload at most one MiB.

  \<^bold>\<open>Not modelled.\<close> The logger and its flags, the sockets of the HTTP server (\<open>Start\<close> sees what its
  listener returns), the clock of the ticker (the loop sees the ticks), the caches and queues of
  controller-runtime (a read may return any earlier version, and passes come in any order), and
  \<open>extractSSHHost\<close>, which nothing calls.
\<close>

end
